(* ===== verification/Prelude.thy ===== *)
theory Prelude
  imports Main "HOL-Library.Word"
begin

text \<open>
  Shared vocabulary of the development: bytes and byte strings, the fixed-width unsigned
  arithmetic of the C++ code written out on natural numbers, little-endian layout of
  integers, copying a run of bytes into a buffer (\<open>std::copy\<close>), the errors the code throws,
  and the state-and-exception type in which the stateful code is written.
\<close>

named_theorems exec_simps \<open>symbolic execution of the state-and-exception operations\<close>
named_theorems preserve_intros \<open>an operation preserves a predicate on the state, by its structure\<close>
named_theorems total_intros \<open>an operation always returns, by its structure\<close>
named_theorems width_simps \<open>removing the wrap-around of unsigned arithmetic that stays in range\<close>

section \<open>Bytes and unsigned integers\<close>

type_synonym byte = "8 word"
type_synonym bytes = "byte list"

text \<open>\<open>unsigned int\<close> is a natural number below \<open>2^32\<close>; every operation wraps.\<close>

definition u32 :: "nat \<Rightarrow> nat" where
  "u32 n = n mod 4294967296"

definition u32_sub :: "nat \<Rightarrow> nat \<Rightarrow> nat" where
  "u32_sub a b = (a + (4294967296 - b mod 4294967296)) mod 4294967296"

definition u64 :: "nat \<Rightarrow> nat" where
  "u64 n = n mod 18446744073709551616"

lemma u32_id [width_simps]: "n < 4294967296 \<Longrightarrow> u32 n = n"
  by (simp add: u32_def)

lemma u32_less: "u32 n < 4294967296"
  by (simp add: u32_def)

lemma u32_sub_id [width_simps]: "b \<le> a \<Longrightarrow> a < 4294967296 \<Longrightarrow> u32_sub a b = a - b"
  by (simp add: u32_sub_def mod_if)

lemma u32_sub_less: "u32_sub a b < 4294967296"
  by (simp add: u32_sub_def)

lemma u64_id [width_simps]: "n < 18446744073709551616 \<Longrightarrow> u64 n = n"
  by (simp add: u64_def)

text \<open>
  \<open>int n = v.size()\<close> keeps the low 32 bits of the size, read as a signed number: a size of
  \<open>2^31\<close> is negative and one of \<open>2^32\<close> is zero.
\<close>

definition to_int32 :: "nat \<Rightarrow> int" where
  "to_int32 k = (let k = k mod 4294967296 in if k < 2147483648 then int k else int k - 4294967296)"

lemma to_int32_id [width_simps]: "n < 2147483648 \<Longrightarrow> to_int32 n = int n"
  by (simp add: to_int32_def)

lemma to_int32_wraps: "to_int32 2147483648 = - 2147483648" "to_int32 4294967296 = 0"
  by (simp_all add: to_int32_def)

section \<open>Little-endian layout\<close>

primrec le_bytes :: "nat \<Rightarrow> nat \<Rightarrow> bytes" where
  "le_bytes 0 x = []"
| "le_bytes (Suc n) x = word_of_nat x # le_bytes n (x div 256)"

primrec le_nat :: "bytes \<Rightarrow> nat" where
  "le_nat [] = 0"
| "le_nat (b # bs) = unat b + 256 * le_nat bs"

lemma length_le_bytes [simp]: "length (le_bytes n x) = n"
  by (induction n arbitrary: x) auto

lemma le_nat_le_bytes: "le_nat (le_bytes n x) = x mod 256 ^ n"
proof (induction n arbitrary: x)
  case (Suc n)
  then show ?case
    by (simp add: unat_of_nat mod_mult2_eq)
qed simp

lemma le_nat_le_bytes_id [simp]: "x < 256 ^ n \<Longrightarrow> le_nat (le_bytes n x) = x"
  by (simp add: le_nat_le_bytes)

lemma unat_byte_less [simp]: "unat (b :: byte) < 256"
  using unsigned_less [of b] by simp

lemma le_nat_less: "le_nat bs < 256 ^ length bs"
proof (induction bs)
  case (Cons b bs)
  have "unat b < 256" by (rule unat_byte_less)
  moreover have "le_nat bs + 1 \<le> 256 ^ length bs" using Cons by simp
  then have "256 * (le_nat bs + 1) \<le> 256 * 256 ^ length bs" by (rule mult_le_mono2)
  ultimately show ?case by (simp del: unat_byte_less)
qed simp

lemma le_bytes_le_nat: "le_bytes (length bs) (le_nat bs) = bs"
proof (induction bs)
  case (Cons b bs)
  have "(unat b + 256 * le_nat bs) div 256 = le_nat bs"
    using unat_byte_less [of b] by simp
  moreover have "(word_of_nat (unat b + 256 * le_nat bs) :: byte) = b"
  proof -
    have "(word_of_nat (256 * le_nat bs) :: byte) = 0"
      by (simp only: word_of_nat_eq_0_iff) simp
    then show ?thesis by (simp only: of_nat_add) simp
  qed
  ultimately show ?case using Cons by simp
qed simp

lemma le_bytes_inj:
  assumes "le_bytes n x = le_bytes n y" and "x < 256 ^ n" and "y < 256 ^ n"
  shows "x = y"
proof -
  from assms(1) have "le_nat (le_bytes n x) = le_nat (le_bytes n y)" by simp
  with assms(2,3) show ?thesis by simp
qed

section \<open>Copying into a buffer\<close>

text \<open>
  \<open>overwrite xs i ys\<close> is the buffer after \<open>std::copy(ys.begin(), ys.end(), xs.begin() + i)\<close>;
  \<open>slice xs i n\<close> is the run of \<open>n\<close> elements that starts at \<open>i\<close>.
\<close>

definition overwrite :: "'a list \<Rightarrow> nat \<Rightarrow> 'a list \<Rightarrow> 'a list" where
  "overwrite xs i ys = take i xs @ ys @ drop (i + length ys) xs"

definition slice :: "'a list \<Rightarrow> nat \<Rightarrow> nat \<Rightarrow> 'a list" where
  "slice xs i n = take n (drop i xs)"

lemma length_overwrite [simp]:
  "i + length ys \<le> length xs \<Longrightarrow> length (overwrite xs i ys) = length xs"
  by (simp add: overwrite_def)

lemma length_slice [simp]: "i + n \<le> length xs \<Longrightarrow> length (slice xs i n) = n"
  by (simp add: slice_def)

lemma nth_slice: "j < n \<Longrightarrow> i + n \<le> length xs \<Longrightarrow> slice xs i n ! j = xs ! (i + j)"
  by (simp add: slice_def)

lemma nth_overwrite:
  "i + length ys \<le> length xs \<Longrightarrow> j < length xs \<Longrightarrow>
   overwrite xs i ys ! j = (if i \<le> j \<and> j < i + length ys then ys ! (j - i) else xs ! j)"
  by (auto simp: overwrite_def nth_append min_def)

lemma slice_overwrite_same [simp]:
  "i + length ys \<le> length xs \<Longrightarrow> slice (overwrite xs i ys) i (length ys) = ys"
  by (simp add: slice_def overwrite_def)

lemma overwrite_Nil [simp]: "overwrite xs i [] = xs"
  by (simp add: overwrite_def)

lemma overwrite_overwrite:
  "i + length ys \<le> length xs \<Longrightarrow> overwrite (overwrite xs i ys) (i + length ys) zs = overwrite xs i (ys @ zs)"
  by (simp add: overwrite_def add.assoc add.commute add.left_commute)

lemma drop_overwrite: "i \<le> length xs \<Longrightarrow> drop i (overwrite xs i ys) = ys @ drop (i + length ys) xs"
  by (simp add: overwrite_def)

lemma slice_all [simp]: "slice xs 0 (length xs) = xs"
  by (simp add: slice_def)

lemma slice_add:
  "slice xs i (m + n) = slice xs i m @ slice xs (i + m) n"
  by (simp add: slice_def take_add add.commute)

section \<open>Errors, and code with state and exceptions\<close>

text \<open>
  The exception classes of \<open>common/error.h\<close> the modelled code throws, each with its message, and
  the exceptions of the C++ library (\<open>std::length_error\<close> for a vector of negative size, say).
  \<open>Undefined\<close> is not an exception of the code: it marks the point where the C++ program
  would have undefined behaviour (an index past the end of a vector, say), so that the
  theorems can state that such a point is never reached.
\<close>

datatype error =
    RuntimeError string
  | ValueError string
  | CryptoError string
  | SystemError string
  | StdException string
  | Undefined string

text \<open>
  A stateful operation takes the state and gives either an error or a result, with the
  state as the operation left it in both cases (an exception does not undo the writes made
  before it). \<open>None\<close> is an operation that never returns.
\<close>

type_synonym ('s, 'a) m = "'s \<Rightarrow> ((error + 'a) \<times> 's) option"

definition ret :: "'a \<Rightarrow> ('s, 'a) m" where
  "ret x s = Some (Inr x, s)"

definition throw :: "error \<Rightarrow> ('s, 'a) m" where
  "throw e s = Some (Inl e, s)"

definition bindM :: "('s, 'a) m \<Rightarrow> ('a \<Rightarrow> ('s, 'b) m) \<Rightarrow> ('s, 'b) m" where
  "bindM m f s = Option.bind (m s) (\<lambda>(r, t). case r of Inl e \<Rightarrow> Some (Inl e, t) | Inr x \<Rightarrow> f x t)"

definition get :: "('s \<Rightarrow> 'a) \<Rightarrow> ('s, 'a) m" where
  "get f s = Some (Inr (f s), s)"

definition modify :: "('s \<Rightarrow> 's) \<Rightarrow> ('s, unit) m" where
  "modify f s = Some (Inr (), f s)"

definition throwIf :: "bool \<Rightarrow> error \<Rightarrow> ('s, unit) m" where
  "throwIf c e = (if c then throw e else ret ())"

text \<open>A pure computation that may throw, the same on every element of a list, and running an operation
  on a part of the state.\<close>

definition liftE :: "error + 'a \<Rightarrow> ('s, 'a) m" where
  "liftE r s = Some (r, s)"

primrec mapE :: "('a \<Rightarrow> error + 'b) \<Rightarrow> 'a list \<Rightarrow> error + 'b list" where
  "mapE f [] = Inr []"
| "mapE f (x # xs) =
     (case f x of Inl e \<Rightarrow> Inl e
      | Inr y \<Rightarrow> (case mapE f xs of Inl e \<Rightarrow> Inl e | Inr ys \<Rightarrow> Inr (y # ys)))"

lemma mapE_map: "(\<And>x. x \<in> set xs \<Longrightarrow> f x = Inr (g x)) \<Longrightarrow> mapE f xs = Inr (map g xs)"
  by (induction xs) simp_all

definition zoom :: "('s \<Rightarrow> 't) \<Rightarrow> ('t \<Rightarrow> 's \<Rightarrow> 's) \<Rightarrow> ('t, 'a) m \<Rightarrow> ('s, 'a) m" where
  "zoom sel upd m s = map_option (\<lambda>(r, t). (r, upd t s)) (m (sel s))"

lemma ret_run [exec_simps]: "ret x s = Some (Inr x, s)"
  by (simp add: ret_def)

lemma throw_run [exec_simps]: "throw e s = Some (Inl e, s)"
  by (simp add: throw_def)

lemma get_run [exec_simps]: "get f s = Some (Inr (f s), s)"
  by (simp add: get_def)

lemma modify_run [exec_simps]: "modify f s = Some (Inr (), f s)"
  by (simp add: modify_def)

lemma throwIf_run [exec_simps]:
  "throwIf c e s = (if c then Some (Inl e, s) else Some (Inr (), s))"
  by (simp add: throwIf_def throw_def ret_def)

lemma liftE_run [exec_simps]: "liftE r s = Some (r, s)"
  by (simp add: liftE_def)

lemma bindM_Inr [exec_simps]: "m s = Some (Inr x, t) \<Longrightarrow> bindM m f s = f x t"
  by (simp add: bindM_def)

lemma bindM_Inl [exec_simps]: "m s = Some (Inl e, t) \<Longrightarrow> bindM m f s = Some (Inl e, t)"
  by (simp add: bindM_def)

lemma bindM_None [exec_simps]: "m s = None \<Longrightarrow> bindM m f s = None"
  by (simp add: bindM_def)

lemma zoom_run [exec_simps]: "m (sel s) = Some (r, t) \<Longrightarrow> zoom sel upd m s = Some (r, upd t s)"
  by (simp add: zoom_def)

lemma bindM_InrD:
  assumes "bindM m f s = Some (Inr y, u)"
  obtains x t where "m s = Some (Inr x, t)" and "f x t = Some (Inr y, u)"
proof (cases "m s")
  case None
  with assms show ?thesis by (simp add: bindM_def)
next
  case (Some p)
  then show ?thesis
    using assms that by (cases p; cases "fst p") (auto simp: bindM_def)
qed

lemma bindM_assoc: "bindM (bindM m f) g = bindM m (\<lambda>x. bindM (f x) g)"
  by (rule ext) (auto simp: bindM_def split: sum.splits bind_splits)

lemma bindM_mono [partial_function_mono]:
  assumes "\<And>y t. mono_option (\<lambda>f. C f y t)"
  shows "mono_option (\<lambda>f. bindM m (C f) s)"
  unfolding bindM_def
proof (rule bind_mono)
  show "mono_option (\<lambda>f. m s)"
    by (rule option.const_mono)
next
  fix y :: "(error + 'a) \<times> 'b"
  show "mono_option (\<lambda>f. case y of (Inl e, t) \<Rightarrow> Some (Inl e, t) | (Inr x, t) \<Rightarrow> C f x t)"
    by (cases y; cases "fst y") (auto intro: option.const_mono assms)
qed

section \<open>Preserving a predicate on the state\<close>

text \<open>An operation preserves a predicate when the state it leaves satisfies it too, also after an exception.\<close>

definition preserves :: "('s \<Rightarrow> bool) \<Rightarrow> ('s, 'a) m \<Rightarrow> bool" where
  "preserves P m \<longleftrightarrow> (\<forall>s r s'. P s \<longrightarrow> m s = Some (r, s') \<longrightarrow> P s')"

lemma preservesD: "preserves P m \<Longrightarrow> P s \<Longrightarrow> m s = Some (r, s') \<Longrightarrow> P s'"
  by (auto simp: preserves_def)

lemma preserves_ret [preserve_intros]: "preserves P (ret x)"
  by (simp add: preserves_def ret_def)

lemma preserves_throw [preserve_intros]: "preserves P (throw e)"
  by (simp add: preserves_def throw_def)

lemma preserves_get [preserve_intros]: "preserves P (get f)"
  by (simp add: preserves_def get_def)

lemma preserves_liftE [preserve_intros]: "preserves P (liftE r)"
  by (simp add: preserves_def liftE_def)

lemma preserves_throwIf [preserve_intros]: "preserves P (throwIf c e)"
  by (simp add: preserves_def throwIf_def throw_def ret_def)

lemma preserves_modify [preserve_intros]: "(\<And>s. P s \<Longrightarrow> P (f s)) \<Longrightarrow> preserves P (modify f)"
  by (simp add: preserves_def modify_def)

lemma preserves_bind [preserve_intros]:
  assumes m: "preserves P m" and f: "\<And>x. preserves P (f x)"
  shows "preserves P (bindM m f)"
  unfolding preserves_def
proof (intro allI impI)
  fix s r s' assume p: "P s" and run: "bindM m f s = Some (r, s')"
  show "P s'"
  proof (cases "m s")
    case None
    then show ?thesis using run by (simp add: bindM_def)
  next
    case (Some q)
    obtain e t where q: "q = (e, t)" by (cases q)
    have "P t" using m p Some q by (auto simp: preserves_def)
    then show ?thesis
      using run Some q preservesD [OF f] by (cases e) (auto simp: bindM_def)
  qed
qed

lemma preserves_if [preserve_intros]:
  "(c \<Longrightarrow> preserves P m) \<Longrightarrow> (\<not> c \<Longrightarrow> preserves P n) \<Longrightarrow> preserves P (if c then m else n)"
  by simp

lemma preserves_option [preserve_intros]:
  "(x = None \<Longrightarrow> preserves P m) \<Longrightarrow> (\<And>y. x = Some y \<Longrightarrow> preserves P (f y)) \<Longrightarrow>
   preserves P (case x of None \<Rightarrow> m | Some y \<Rightarrow> f y)"
  by (cases x) simp_all

lemma preserves_sum [preserve_intros]:
  "(\<And>y. x = Inl y \<Longrightarrow> preserves P (f y)) \<Longrightarrow> (\<And>y. x = Inr y \<Longrightarrow> preserves P (g y)) \<Longrightarrow>
   preserves P (case x of Inl y \<Rightarrow> f y | Inr y \<Rightarrow> g y)"
  by (cases x) simp_all

lemma preserves_prod [preserve_intros]:
  "(\<And>a b. x = (a, b) \<Longrightarrow> preserves P (f a b)) \<Longrightarrow> preserves P (case x of (a, b) \<Rightarrow> f a b)"
  by (cases x) simp_all

section \<open>Operations that always return, and triples\<close>

definition total_on :: "('s \<Rightarrow> bool) \<Rightarrow> ('s, 'a) m \<Rightarrow> bool" where
  "total_on P m \<longleftrightarrow> (\<forall>s. P s \<longrightarrow> m s \<noteq> None)"

lemma total_onD: "total_on P m \<Longrightarrow> P s \<Longrightarrow> \<exists>r s'. m s = Some (r, s')"
  by (auto simp: total_on_def)

lemma total_prims [total_intros]:
  "total_on P (ret x)" "total_on P (throw e)" "total_on P (get f)" "total_on P (modify g)"
  "total_on P (liftE r)" "total_on P (throwIf c e)"
  by (simp_all add: total_on_def exec_simps)

lemma total_bind [total_intros]:
  assumes "total_on P m" and "preserves P m" and "\<And>x. total_on P (f x)"
  shows "total_on P (bindM m f)"
  unfolding total_on_def
proof (intro allI impI)
  fix s assume p: "P s"
  then obtain r t where m: "m s = Some (r, t)" using total_onD [OF assms(1)] by blast
  with p have "P t" using preservesD [OF assms(2)] by blast
  with m assms(3) show "bindM m f s \<noteq> None" by (cases r) (auto simp: bindM_def total_on_def)
qed

lemma total_zoom [total_intros]: "total_on (\<lambda>_. True) m \<Longrightarrow> total_on P (zoom sel upd m)"
  by (auto simp: total_on_def zoom_def)

lemma total_if [total_intros]:
  "(c \<Longrightarrow> total_on P m) \<Longrightarrow> (\<not> c \<Longrightarrow> total_on P n) \<Longrightarrow> total_on P (if c then m else n)"
  by simp

lemma total_option [total_intros]:
  "(x = None \<Longrightarrow> total_on P m) \<Longrightarrow> (\<And>y. x = Some y \<Longrightarrow> total_on P (f y)) \<Longrightarrow>
   total_on P (case x of None \<Rightarrow> m | Some y \<Rightarrow> f y)"
  by (cases x) simp_all

lemma total_list [total_intros]:
  "(x = [] \<Longrightarrow> total_on P m) \<Longrightarrow> (\<And>y ys. x = y # ys \<Longrightarrow> total_on P (f y ys)) \<Longrightarrow>
   total_on P (case x of [] \<Rightarrow> m | y # ys \<Rightarrow> f y ys)"
  by (cases x) simp_all

lemma total_prod [total_intros]:
  "(\<And>a b. x = (a, b) \<Longrightarrow> total_on P (f a b)) \<Longrightarrow> total_on P (case x of (a, b) \<Rightarrow> f a b)"
  by (cases x) simp_all

text \<open>
  \<open>triple G P m Q\<close>: run from a state with \<open>P\<close> to a state with \<open>G\<close>, the operation ends normally,
  with \<open>Q\<close>. \<open>G\<close> stands for a condition on the world that, once lost, does not come back; so it
  held at every step before.
\<close>

definition triple :: "('s \<Rightarrow> bool) \<Rightarrow> ('s \<Rightarrow> bool) \<Rightarrow> ('s, 'a) m \<Rightarrow> ('a \<Rightarrow> 's \<Rightarrow> bool) \<Rightarrow> bool" where
  "triple G P m Q \<longleftrightarrow> (\<forall>s r s'. P s \<longrightarrow> m s = Some (r, s') \<longrightarrow> G s' \<longrightarrow> (\<exists>x. r = Inr x \<and> Q x s'))"

lemma tripleI:
  "(\<And>s r s'. P s \<Longrightarrow> m s = Some (r, s') \<Longrightarrow> G s' \<Longrightarrow> \<exists>x. r = Inr x \<and> Q x s') \<Longrightarrow> triple G P m Q"
  by (simp add: triple_def)

lemma tripleD:
  "triple G P m Q \<Longrightarrow> P s \<Longrightarrow> m s = Some (r, s') \<Longrightarrow> G s' \<Longrightarrow> \<exists>x. r = Inr x \<and> Q x s'"
  by (simp add: triple_def)

lemma triple_run:
  assumes "\<And>s. P s \<Longrightarrow> \<exists>x s'. m s = Some (Inr x, s') \<and> (G s' \<longrightarrow> Q x s')"
  shows "triple G P m Q"
proof (rule tripleI)
  fix s r s' assume "P s" "m s = Some (r, s')" "G s'"
  with assms [of s] show "\<exists>x. r = Inr x \<and> Q x s'" by auto
qed

lemma triple_bind:
  assumes m: "triple G P m Q" and f: "\<And>x. triple G (Q x) (f x) R"
    and lost: "\<And>x. preserves (\<lambda>s. \<not> G s) (f x)"
  shows "triple G P (bindM m f) R"
proof (rule tripleI)
  fix s r s' assume p: "P s" and run: "bindM m f s = Some (r, s')" and g: "G s'"
  obtain q t where mt: "m s = Some (q, t)" using run by (cases "m s") (auto simp: bindM_def)
  show "\<exists>x. r = Inr x \<and> R x s'"
  proof (cases q)
    case (Inl e)
    then have "t = s'" using run mt by (simp add: bindM_def)
    with tripleD [OF m p mt] g Inl show ?thesis by simp
  next
    case (Inr x)
    then have fx: "f x t = Some (r, s')" using run mt by (simp add: bindM_def)
    have "G t" using preservesD [OF lost _ fx] g by blast
    with tripleD [OF m p mt] Inr have "Q x t" by simp
    from tripleD [OF f this fx g] show ?thesis .
  qed
qed

lemma triple_conseq:
  "triple G P m Q \<Longrightarrow> (\<And>s. P' s \<Longrightarrow> P s) \<Longrightarrow> (\<And>x s. Q x s \<Longrightarrow> Q' x s) \<Longrightarrow> triple G P' m Q'"
  unfolding triple_def by blast

lemma preserves_zoom [preserve_intros]:
  assumes "\<And>s r t. P s \<Longrightarrow> m (sel s) = Some (r, t) \<Longrightarrow> P (upd t s)"
  shows "preserves P (zoom sel upd m)"
  using assms by (auto simp: preserves_def zoom_def)

lemma preserves_list [preserve_intros]:
  "(x = [] \<Longrightarrow> preserves P m) \<Longrightarrow> (\<And>y ys. x = y # ys \<Longrightarrow> preserves P (f y ys)) \<Longrightarrow>
   preserves P (case x of [] \<Rightarrow> m | y # ys \<Rightarrow> f y ys)"
  by (cases x) simp_all

section \<open>Loops\<close>

text \<open>
  A \<open>while\<close> loop with its local variables: the body takes them and gives their new values, or
  throws. A loop that does not end has the value \<open>None\<close>.
\<close>

partial_function (option) loop_m :: "('l \<Rightarrow> 's \<Rightarrow> bool) \<Rightarrow> ('l \<Rightarrow> ('s, 'l) m) \<Rightarrow> 'l \<Rightarrow> 's \<Rightarrow> ((error + 'l) \<times> 's) option" where
  "loop_m b c l s = (if b l s then bindM (c l) (loop_m b c) s else ret l s)"

lemma loop_bind_unfold:
  assumes "\<And>s. b l s"
  shows "bindM (loop_m b c l) f = bindM (c l) (\<lambda>l'. bindM (loop_m b c l') f)"
proof -
  have "loop_m b c l = bindM (c l) (loop_m b c)" using assms by (intro ext) (simp add: loop_m.simps)
  then show ?thesis by (simp add: bindM_assoc)
qed

lemma loop_induct [consumes 1, case_names stop fail step]:
  assumes "loop_m b c l s = Some (r, s')"
    and stop: "\<And>l s. \<not> b l s \<Longrightarrow> Q l s (Inr l) s"
    and fail: "\<And>l s e t. b l s \<Longrightarrow> c l s = Some (Inl e, t) \<Longrightarrow> Q l s (Inl e) t"
    and step: "\<And>l s l' t r s'. b l s \<Longrightarrow> c l s = Some (Inr l', t) \<Longrightarrow> Q l' t r s' \<Longrightarrow> Q l s r s'"
  shows "Q l s r s'"
proof -
  have "b' = b \<longrightarrow> c' = c \<longrightarrow> Q l s (fst y) (snd y)" if "loop_m b' c' l s = Some y" for b' c' l s y
  proof (rule loop_m.raw_induct [OF _ that, where P = "\<lambda>b' c' l s y. b' = b \<longrightarrow> c' = c \<longrightarrow> Q l s (fst y) (snd y)"])
    fix loop b' c' l s y
    assume 1: "\<And>b' c' l s y. loop b' c' l s = Some y \<Longrightarrow> b' = b \<longrightarrow> c' = c \<longrightarrow> Q l s (fst y) (snd y)"
      "(if b' l s then bindM (c' l) (loop b' c') s else ret l s) = Some y"
    show "b' = b \<longrightarrow> c' = c \<longrightarrow> Q l s (fst y) (snd y)"
    proof (intro impI)
      assume bc: "b' = b" "c' = c"
      show "Q l s (fst y) (snd y)"
      proof (cases "b l s")
        case False
        then show ?thesis using 1(2) bc stop by (auto simp: ret_def)
      next
        case True
        then have run: "bindM (c l) (loop b c) s = Some y" using 1(2) bc by simp
        then obtain q t where q: "c l s = Some (q, t)" by (cases "c l s") (auto simp: bindM_def)
        show ?thesis
        proof (cases q)
          case (Inl e)
          then show ?thesis using run q fail True by (auto simp: bindM_def)
        next
          case (Inr l')
          then have "loop b c l' t = Some y" using run q by (simp add: bindM_def)
          with 1(1) bc have "Q l' t (fst y) (snd y)" by blast
          with step True q Inr show ?thesis by blast
        qed
      qed
    qed
  qed
  from this [OF assms(1)] show ?thesis by simp
qed

lemma preserves_loop [preserve_intros]:
  assumes "\<And>l. preserves P (c l)"
  shows "preserves P (loop_m b c l)"
  unfolding preserves_def
proof (intro allI impI)
  fix s r s' assume "P s" and "loop_m b c l s = Some (r, s')"
  from this(2,1) show "P s'"
    by (induction rule: loop_induct) (use preservesD [OF assms] in blast)+
qed

lemma triple_loop:
  assumes body: "\<And>l. triple G (\<lambda>s. I l s \<and> b l s) (c l) I" and lost: "\<And>l. preserves (\<lambda>s. \<not> G s) (c l)"
  shows "triple G (I l) (loop_m b c l) (\<lambda>l s. I l s \<and> \<not> b l s)"
proof (rule tripleI)
  fix s r s' assume i: "I l s" and run: "loop_m b c l s = Some (r, s')" and g: "G s'"
  from run have "(G s' \<longrightarrow> G s) \<and> (I l s \<longrightarrow> G s' \<longrightarrow> (\<exists>x. r = Inr x \<and> I x s' \<and> \<not> b x s'))"
  proof (induction rule: loop_induct)
    case (stop l s)
    then show ?case by simp
  next
    case (fail l s e t)
    then show ?case using tripleD [OF body, of l s "Inl e" t] preservesD [OF lost, of s l] by auto
  next
    case (step l s l' t r s')
    then have "G s' \<longrightarrow> G s" "I l s \<longrightarrow> G t \<longrightarrow> I l' t"
      using tripleD [OF body, of l s "Inr l'" t] preservesD [OF lost, of s l] by auto
    with step show ?case by blast
  qed
  with i g show "\<exists>x. r = Inr x \<and> I x s' \<and> \<not> b x s'" by blast
qed

text \<open>A loop returns when a measure of its variables and the state decreases.\<close>

lemma loop_returns:
  assumes "\<And>l s. I l s \<Longrightarrow> b l s \<Longrightarrow>
      \<exists>q t. c l s = Some (q, t) \<and> (\<forall>l'. q = Inr l' \<longrightarrow> I l' t \<and> (f l' t :: nat) < f l s)"
    and "I l s"
  shows "\<exists>r s'. loop_m b c l s = Some (r, s')"
  using assms(2)
proof (induction "f l s" arbitrary: l s rule: less_induct)
  case less
  show ?case
  proof (cases "b l s")
    case False
    then show ?thesis by (simp add: loop_m.simps [of b c l s] ret_def)
  next
    case True
    obtain q t where q: "c l s = Some (q, t)" "\<forall>l'. q = Inr l' \<longrightarrow> I l' t \<and> f l' t < f l s"
      using assms(1) [OF less.prems True] by blast
    show ?thesis
    proof (cases q)
      case (Inl e)
      with q True show ?thesis by (simp add: loop_m.simps [of b c l s] bindM_def)
    next
      case (Inr l')
      with q less.hyps [of l' t] True show ?thesis by (simp add: loop_m.simps [of b c l s] bindM_def)
    qed
  qed
qed

section \<open>Ordered maps\<close>

text \<open>A \<open>std::map\<close> is the list of its entries in the order of the keys, as its iterators visit them.\<close>

fun map_put :: "'k :: linorder \<Rightarrow> 'v \<Rightarrow> ('k \<times> 'v) list \<Rightarrow> ('k \<times> 'v) list" where
  "map_put k v [] = [(k, v)]"
| "map_put k v ((a, b) # m) =
     (if k < a then (k, v) # (a, b) # m else if k = a then (k, v) # m else (a, b) # map_put k v m)"

fun map_erase :: "'k :: linorder \<Rightarrow> ('k \<times> 'v) list \<Rightarrow> ('k \<times> 'v) list" where
  "map_erase k [] = []"
| "map_erase k ((a, b) # m) = (if k = a then m else (a, b) # map_erase k m)"

definition ordered :: "('k :: linorder \<times> 'v) list \<Rightarrow> bool" where
  "ordered m \<longleftrightarrow> sorted_wrt (<) (map fst m)"

lemma ordered_Nil [simp]: "ordered []"
  by (simp add: ordered_def)

lemma ordered_Cons: "ordered ((k, v) # m) \<longleftrightarrow> (\<forall>(k', _) \<in> set m. k < k') \<and> ordered m"
  by (auto simp: ordered_def)

lemma map_of_map_put [simp]: "map_of (map_put k v m) = (map_of m)(k \<mapsto> v)"
  by (induction k v m rule: map_put.induct) auto

lemma set_map_put: "set (map_put k v m) \<subseteq> insert (k, v) (set m)"
  by (induction k v m rule: map_put.induct) auto

lemma set_map_erase: "set (map_erase k m) \<subseteq> set m"
  by (induction k m rule: map_erase.induct) auto

lemma ordered_map_put: "ordered m \<Longrightarrow> ordered (map_put k v m)"
proof (induction k v m rule: map_put.induct)
  case (2 k v a b m)
  then show ?case using set_map_put [of k v m] by (fastforce simp: ordered_Cons)
qed (simp add: ordered_def)

lemma ordered_map_erase: "ordered m \<Longrightarrow> ordered (map_erase k m)"
proof (induction k m rule: map_erase.induct)
  case (2 k a b m)
  then show ?case using set_map_erase [of k m] by (fastforce simp: ordered_Cons)
qed simp

lemma map_of_ordered_None: "ordered m \<Longrightarrow> \<forall>(k', _) \<in> set m. k < k' \<Longrightarrow> map_of m k = None"
  by (induction m) (auto simp: ordered_Cons)

lemma map_of_map_erase [simp]: "ordered m \<Longrightarrow> map_of (map_erase k m) = (map_of m)(k := None)"
  by (induction k m rule: map_erase.induct) (auto simp: ordered_Cons map_of_ordered_None fun_eq_iff)

lemma length_map_erase: "map_of m k \<noteq> None \<Longrightarrow> length m = Suc (length (map_erase k m))"
  by (induction k m rule: map_erase.induct) auto

lemma length_map_put_new: "map_of m k = None \<Longrightarrow> length (map_put k v m) = Suc (length m)"
  by (induction k v m rule: map_put.induct) auto

lemma length_map_put_old: "ordered m \<Longrightarrow> map_of m k \<noteq> None \<Longrightarrow> length (map_put k v m) = length m"
  by (induction k v m rule: map_put.induct) (auto simp: ordered_Cons map_of_ordered_None split: if_splits dest!: map_of_SomeD)

lemma map_of_ordered: "ordered m \<Longrightarrow> (k, v) \<in> set m \<longleftrightarrow> map_of m k = Some v"
proof -
  assume "ordered m"
  then have "distinct (map fst m)" by (simp add: ordered_def strict_sorted_iff)
  then show ?thesis by (simp add: map_of_eq_Some_iff)
qed

section \<open>Systems that only grow\<close>

text \<open>
  A transition system with an invariant and an order its steps respect: every run keeps the
  invariant and moves up.
\<close>

locale growing_system =
  fixes step :: "'s \<Rightarrow> 's \<Rightarrow> bool"
    and inv :: "'s \<Rightarrow> bool"
    and below :: "'s \<Rightarrow> 's \<Rightarrow> bool"
  assumes step_inv: "inv s \<Longrightarrow> step s t \<Longrightarrow> inv t"
    and step_below: "inv s \<Longrightarrow> step s t \<Longrightarrow> below s t"
    and below_refl: "below s s"
    and below_trans: "below s t \<Longrightarrow> below t u \<Longrightarrow> below s u"
begin

lemma steps_inv: "step\<^sup>*\<^sup>* s t \<Longrightarrow> inv s \<Longrightarrow> inv t"
  by (induction rule: rtranclp_induct) (auto intro: step_inv)

lemma steps_below: "step\<^sup>*\<^sup>* s t \<Longrightarrow> inv s \<Longrightarrow> below s t"
proof (induction rule: rtranclp_induct)
  case base
  show ?case by (rule below_refl)
next
  case (step t u)
  then show ?case using steps_inv step_below below_trans by blast
qed

end

end
