(* ===== verification/Block_Offset.thy ===== *)
theory Block_Offset
  imports Prelude
begin

text \<open>
  Block offsets (\<open>common/state/block_offset.h\<close>, \<open>block_offset.cpp\<close>): the pointer of the
  key-value store, a block number and a byte position in that block, and its eight-byte
  serialized form. The struct is packed, so its memory image is the two little-endian
  32-bit fields one after the other.
\<close>

section \<open>Data and operations\<close>

record block_offset_t =
  block_num :: nat
  bytes :: nat

definition empty_block_offset :: block_offset_t where
  "empty_block_offset = \<lparr>block_num = 0, bytes = 0\<rparr>"

definition offset_size :: nat where
  "offset_size = 4 + 4"

definition serialized_offset_to_block_num :: "bytes \<Rightarrow> error + nat" where
  "serialized_offset_to_block_num b =
     (if length b < 4 then Inl (Undefined ''block_num read past the buffer'')
      else Inr (le_nat (take 4 b)))"

definition serialized_offset_to_bytes :: "bytes \<Rightarrow> error + nat" where
  "serialized_offset_to_bytes b =
     (if length b < offset_size then Inl (Undefined ''bytes read past the buffer'')
      else Inr (le_nat (take 4 (drop 4 b))))"

definition to_ByteArray :: "block_offset_t \<Rightarrow> bytes" where
  "to_ByteArray bo = le_bytes 4 (block_num bo) @ le_bytes 4 (bytes bo)"

definition serialize_offset :: "block_offset_t \<Rightarrow> bytes \<Rightarrow> error + bytes" where
  "serialize_offset bo outBuffer =
     (if length outBuffer < offset_size then Inl (RuntimeError ''serialize, short buf'')
      else Inr (overwrite outBuffer 0 (to_ByteArray bo)))"

definition deserialize_offset :: "bytes \<Rightarrow> error + block_offset_t" where
  "deserialize_offset inBuffer =
     (if length inBuffer < offset_size then Inl (Undefined ''offset read past the buffer'')
      else Inr \<lparr>block_num = le_nat (take 4 inBuffer), bytes = le_nat (take 4 (drop 4 inBuffer))\<rparr>)"

definition is_empty :: "block_offset_t \<Rightarrow> bool" where
  "is_empty bo \<longleftrightarrow> bo = empty_block_offset"

definition to_ByteArray_member :: "block_offset_t \<Rightarrow> error + bytes" where
  "to_ByteArray_member bo = serialize_offset bo (replicate offset_size 0)"

section \<open>Serialized offsets\<close>

text \<open>An offset whose two fields are \<open>unsigned int\<close> values.\<close>

definition bo_u32 :: "block_offset_t \<Rightarrow> bool" where
  "bo_u32 bo \<longleftrightarrow> block_num bo < 4294967296 \<and> bytes bo < 4294967296"

lemma length_to_ByteArray [simp]: "length (to_ByteArray bo) = 8"
  by (simp add: to_ByteArray_def)

lemma to_ByteArray_member_eq: "to_ByteArray_member bo = Inr (to_ByteArray bo)"
  by (simp add: to_ByteArray_member_def serialize_offset_def overwrite_def offset_size_def)

lemma deserialize_prefix:
  "bo_u32 bo \<Longrightarrow> deserialize_offset (to_ByteArray bo @ rest) = Inr bo"
  by (simp add: deserialize_offset_def to_ByteArray_def bo_u32_def offset_size_def)

lemma to_ByteArray_deserialize:
  assumes "length b = 8"
  shows "\<exists>bo. deserialize_offset b = Inr bo \<and> to_ByteArray bo = b \<and> bo_u32 bo"
proof -
  define lo where "lo = take 4 b"
  define hi where "hi = take 4 (drop 4 b)"
  have lens: "length lo = 4" "length hi = 4" and b: "b = lo @ hi"
    using assms append_take_drop_id [of 4 b] by (simp_all add: lo_def hi_def)
  have "le_bytes 4 (le_nat lo) = lo" "le_bytes 4 (le_nat hi) = hi"
    using le_bytes_le_nat [of lo] le_bytes_le_nat [of hi] lens by simp_all
  moreover have "le_nat lo < 4294967296" "le_nat hi < 4294967296"
    using le_nat_less [of lo] le_nat_less [of hi] lens by simp_all
  ultimately show ?thesis
    using b lens by (simp add: deserialize_offset_def to_ByteArray_def bo_u32_def offset_size_def)
qed

text \<open>C30: serializing a block offset into any buffer that is long enough and reading it back
  gives the same offset, and the bytes of the buffer after the first eight are untouched.\<close>

theorem block_offset_roundtrip:
  assumes "bo_u32 bo" and "offset_size \<le> length buf"
  shows "\<exists>out. serialize_offset bo buf = Inr out \<and> deserialize_offset out = Inr bo
           \<and> serialized_offset_to_block_num out = Inr (block_num bo)
           \<and> serialized_offset_to_bytes out = Inr (bytes bo)
           \<and> drop offset_size out = drop offset_size buf"
  using assms deserialize_prefix [OF assms(1), of "drop 8 buf"]
  by (auto simp: serialize_offset_def overwrite_def offset_size_def to_ByteArray_def bo_u32_def
      serialized_offset_to_block_num_def serialized_offset_to_bytes_def)

theorem block_offset_roundtrip_witness:
  "\<exists>out. serialize_offset \<lparr>block_num = 3, bytes = 4097\<rparr> (replicate 10 7) = Inr out
     \<and> deserialize_offset out = Inr \<lparr>block_num = 3, bytes = 4097\<rparr>"
  using block_offset_roundtrip [of "\<lparr>block_num = 3, bytes = 4097\<rparr>" "replicate 10 7"]
  by (auto simp: bo_u32_def offset_size_def)

end
