(* ===== verification/Skenc.thy ===== *)
theory Skenc
  imports Prelude
begin

text \<open>
  Hashing and authenticated encryption (\<open>common/crypto/hash.cpp\<close>, \<open>crypto_utils.cpp\<close>,
  \<open>skenc.cpp\<close>). OpenSSL is a parameter of the model: a record of the primitives the code
  calls, each as a function of its inputs. \<open>RAND_bytes\<close> is a stream: its n-th call returns
  what \<open>rand_bytes\<close> gives for n, and the state is the number of calls made so far.
\<close>

section \<open>OpenSSL as a parameter\<close>

record openssl =
  evp_sha256 :: "bytes \<Rightarrow> bytes"
  evp_hmac_sha256 :: "bytes \<Rightarrow> bytes \<Rightarrow> bytes"
  evp_gcm_encrypt :: "bytes \<Rightarrow> bytes \<Rightarrow> bytes \<Rightarrow> error + (bytes \<times> bytes)"
  evp_gcm_decrypt :: "bytes \<Rightarrow> bytes \<Rightarrow> bytes \<Rightarrow> bytes \<Rightarrow> error + bytes"
  rand_bytes :: "nat \<Rightarrow> nat \<Rightarrow> error + bytes"

definition SHA256_DIGEST_LENGTH :: nat where
  "SHA256_DIGEST_LENGTH = 32"

definition IV_LEN :: nat where
  "IV_LEN = 12"

definition SYM_KEY_LEN :: nat where
  "SYM_KEY_LEN = 16"

definition TAG_LEN :: nat where
  "TAG_LEN = 16"

section \<open>The code's operations\<close>

definition ComputeMessageHash :: "openssl \<Rightarrow> bytes \<Rightarrow> bytes" where
  "ComputeMessageHash ssl message = evp_sha256 ssl message"

definition ComputeMessageHMAC :: "openssl \<Rightarrow> bytes \<Rightarrow> bytes \<Rightarrow> bytes" where
  "ComputeMessageHMAC ssl key message = evp_hmac_sha256 ssl key message"

definition RandomBitString :: "openssl \<Rightarrow> nat \<Rightarrow> (nat, bytes) m" where
  "RandomBitString ssl len draws =
     (if len < 1
      then Some (Inl (ValueError ''Crypto Error (RandomBitString): length argument must be at least 1''), draws)
      else Some (rand_bytes ssl draws len, Suc draws))"

definition GenerateKey :: "openssl \<Rightarrow> (nat, bytes) m" where
  "GenerateKey ssl = RandomBitString ssl SYM_KEY_LEN"

definition GenerateIV :: "openssl \<Rightarrow> string \<Rightarrow> (nat, bytes) m" where
  "GenerateIV ssl IVstring =
     (if IVstring = '''' then RandomBitString ssl IV_LEN
      else ret (take IV_LEN (evp_sha256 ssl (map of_char IVstring))))"

text \<open>
  The lengths are \<open>int\<close>s. The buffer for the ciphertext, 32 bytes longer than the message, is
  allocated before the arguments are checked: adding the 32 bytes may overflow, and a vector of
  negative size is an exception. What OpenSSL does with a negative length is not documented.
\<close>

definition EVP_MAX_BLOCK_LENGTH :: int where
  "EVP_MAX_BLOCK_LENGTH = 32"

definition EncryptMessage_iv :: "openssl \<Rightarrow> bytes \<Rightarrow> bytes \<Rightarrow> bytes \<Rightarrow> error + bytes" where
  "EncryptMessage_iv ssl key iv message =
     (let pt_len = to_int32 (length message);
          ct_buf_len = pt_len + EVP_MAX_BLOCK_LENGTH
      in if 2147483647 < ct_buf_len then Inl (Undefined ''ct_buf_len overflows'')
      else if ct_buf_len < 0 then Inl (StdException ''vector of negative size'')
      else if length key \<noteq> SYM_KEY_LEN
      then Inl (ValueError ''Crypto Error (EncryptMessage): Wrong AES-GCM key length'')
      else if length iv \<noteq> IV_LEN
      then Inl (ValueError ''Crypto Error (EncryptMessage): Wrong AES-GCM IV length'')
      else if length message = 0
      then Inl (ValueError ''Crypto Error (EncryptMessage): Cannot encrypt the empty message'')
      else if pt_len < 0 then Inl (Undefined ''negative length for EVP_EncryptUpdate'')
      else (case evp_gcm_encrypt ssl key iv (take (nat pt_len) message) of
              Inl e \<Rightarrow> Inl e
            | Inr (ct, tag) \<Rightarrow> Inr (tag @ ct)))"

definition EncryptMessage :: "openssl \<Rightarrow> bytes \<Rightarrow> bytes \<Rightarrow> (nat, bytes) m" where
  "EncryptMessage ssl key message =
     (if length message = 0
      then throw (ValueError ''Crypto Error (EncryptMessage): Cannot encrypt the empty message'')
      else if length key \<noteq> SYM_KEY_LEN
      then throw (ValueError ''Crypto Error (EncryptMessage): Wrong AES-GCM key length'')
      else bindM (GenerateIV ssl '''') (\<lambda>iv.
           bindM (liftE (EncryptMessage_iv ssl key iv message)) (\<lambda>ct.
           ret (iv @ ct))))"

definition DecryptMessage_iv :: "openssl \<Rightarrow> bytes \<Rightarrow> bytes \<Rightarrow> bytes \<Rightarrow> error + bytes" where
  "DecryptMessage_iv ssl key iv message =
     (let ct_len = to_int32 (length message); enc_len = ct_len - int TAG_LEN
      in if ct_len < 0 then Inl (StdException ''vector of negative size'')
      else if length key \<noteq> SYM_KEY_LEN
      then Inl (ValueError ''Crypto Error (DecryptMessage): Wrong AES-GCM key length'')
      else if length iv \<noteq> IV_LEN
      then Inl (ValueError ''Crypto Error (DecryptMessage): Wrong AES-GCM IV length'')
      else if length message < TAG_LEN
      then Inl (ValueError ''Crypto Error (DecryptMessage): AES-GCM message smaller than minimum length (TAG length)'')
      else if enc_len < 0 then Inl (Undefined ''negative length for EVP_DecryptUpdate'')
      else evp_gcm_decrypt ssl key iv (take (nat enc_len) (drop TAG_LEN message)) (take TAG_LEN message))"

definition DecryptMessage :: "openssl \<Rightarrow> bytes \<Rightarrow> bytes \<Rightarrow> error + bytes" where
  "DecryptMessage ssl key message =
     (let ct_len = to_int32 (length message); enc_len = ct_len - int IV_LEN - int TAG_LEN
      in if ct_len < 0 then Inl (StdException ''vector of negative size'')
      else if length key \<noteq> SYM_KEY_LEN
      then Inl (ValueError ''Crypto Error (DecryptMessage): Wrong AES-GCM key length'')
      else if length message < IV_LEN + TAG_LEN
      then Inl (ValueError ''Crypto Error (DecryptMessage): AES-GCM message smaller than minimum length (IV length + TAG length)'')
      else if enc_len < 0 then Inl (Undefined ''negative length for EVP_DecryptUpdate'')
      else evp_gcm_decrypt ssl key (take IV_LEN message)
             (take (nat enc_len) (drop (IV_LEN + TAG_LEN) message)) (take TAG_LEN (drop IV_LEN message)))"

section \<open>What the code relies on\<close>

text \<open>
  The documented behaviour of the primitives: AES-GCM with a 16-byte key and a 12-byte IV
  encrypts every non-empty message whose length is an \<open>int\<close> into a ciphertext of the same length,
  with a 16-byte tag, and decryption of that ciphertext with that tag gives the message back;
  \<open>RAND_bytes\<close> fills the buffer it is given; SHA-256 has 32-byte digests, and so has its HMAC.
\<close>

definition gcm_correct :: "openssl \<Rightarrow> bool" where
  "gcm_correct ssl \<longleftrightarrow>
     (\<forall>key iv pt. length key = SYM_KEY_LEN \<longrightarrow> length iv = IV_LEN \<longrightarrow> pt \<noteq> [] \<longrightarrow>
        length pt < 2147483648 \<longrightarrow>
        (\<exists>ct tag. evp_gcm_encrypt ssl key iv pt = Inr (ct, tag) \<and> length tag = TAG_LEN
                \<and> length ct = length pt \<and> evp_gcm_decrypt ssl key iv ct tag = Inr pt))"

definition rand_correct :: "openssl \<Rightarrow> bool" where
  "rand_correct ssl \<longleftrightarrow> (\<forall>n len. \<exists>b. rand_bytes ssl n len = Inr b \<and> length b = len)"

definition sha256_correct :: "openssl \<Rightarrow> bool" where
  "sha256_correct ssl \<longleftrightarrow> (\<forall>msg. length (evp_sha256 ssl msg) = SHA256_DIGEST_LENGTH)"

definition hmac_correct :: "openssl \<Rightarrow> bool" where
  "hmac_correct ssl \<longleftrightarrow> (\<forall>key msg. length (evp_hmac_sha256 ssl key msg) = SHA256_DIGEST_LENGTH)"

text \<open>
  A concrete instance that has these properties, for the witnesses: the identity cipher with
  a zero tag, a digest made of the first 32 bytes of the padded message, and zero
  randomness.
\<close>

definition plain_openssl :: openssl where
  "plain_openssl =
     \<lparr>evp_sha256 = (\<lambda>msg. take 32 (msg @ replicate 32 0)),
      evp_hmac_sha256 = (\<lambda>key msg. take 32 (key @ msg @ replicate 32 0)),
      evp_gcm_encrypt = (\<lambda>key iv pt. Inr (pt, replicate 16 0)),
      evp_gcm_decrypt = (\<lambda>key iv ct tag.
         if tag = replicate 16 0 then Inr ct
         else Inl (CryptoError ''Crypto Error (DecryptMessage): AES_GCM authentication failed, plaintext is not trustworthy'')),
      rand_bytes = (\<lambda>n len. Inr (replicate len 0))\<rparr>"

lemma plain_openssl_correct:
  "gcm_correct plain_openssl" "rand_correct plain_openssl" "sha256_correct plain_openssl"
  "hmac_correct plain_openssl"
  by (simp_all add: gcm_correct_def rand_correct_def sha256_correct_def hmac_correct_def plain_openssl_def
      TAG_LEN_def SHA256_DIGEST_LENGTH_def min_def)

section \<open>Round trip\<close>

lemmas crypto_lengths = IV_LEN_def TAG_LEN_def SYM_KEY_LEN_def SHA256_DIGEST_LENGTH_def

lemma GenerateIV_run:
  assumes "rand_correct ssl"
  obtains iv where "GenerateIV ssl '''' n = Some (Inr iv, Suc n)" and "length iv = IV_LEN"
proof -
  from assms obtain iv where "rand_bytes ssl n IV_LEN = Inr iv" and "length iv = IV_LEN"
    unfolding rand_correct_def by blast
  then show ?thesis
    using that by (simp add: GenerateIV_def RandomBitString_def IV_LEN_def)
qed

text \<open>Messages short enough for the buffer's length to be an \<open>int\<close>.\<close>

definition encryptable :: "bytes \<Rightarrow> bool" where
  "encryptable msg \<longleftrightarrow> msg \<noteq> [] \<and> length msg + 32 < 2147483648"

lemma Encrypt_iv_Decrypt:
  assumes "gcm_correct ssl" and "length key = SYM_KEY_LEN" and "length iv = IV_LEN" and "encryptable msg"
  obtains ct where "EncryptMessage_iv ssl key iv msg = Inr ct"
    and "DecryptMessage_iv ssl key iv ct = Inr msg" and "DecryptMessage ssl key (iv @ ct) = Inr msg"
proof -
  have len: "to_int32 (length msg) = int (length msg)" and msg: "msg \<noteq> []"
    using assms(4) by (simp_all add: encryptable_def to_int32_id)
  have short: "length msg < 2147483648" using assms(4) by (simp add: encryptable_def)
  obtain ct tag where enc: "evp_gcm_encrypt ssl key iv msg = Inr (ct, tag)"
    and tag: "length tag = TAG_LEN" and ct: "length ct = length msg" and dec: "evp_gcm_decrypt ssl key iv ct tag = Inr msg"
    using assms(1) [unfolded gcm_correct_def, rule_format, OF assms(2,3) msg short] by blast
  show ?thesis
  proof
    show "EncryptMessage_iv ssl key iv msg = Inr (tag @ ct)"
      using enc assms(2-4) msg by (simp add: EncryptMessage_iv_def Let_def len EVP_MAX_BLOCK_LENGTH_def encryptable_def)
    show "DecryptMessage_iv ssl key iv (tag @ ct) = Inr msg"
      using assms(2-4) tag ct dec by (simp add: DecryptMessage_iv_def Let_def to_int32_id encryptable_def TAG_LEN_def)
    show "DecryptMessage ssl key (iv @ tag @ ct) = Inr msg"
      using assms(2-4) tag ct dec
      by (simp add: DecryptMessage_def Let_def to_int32_id encryptable_def TAG_LEN_def IV_LEN_def)
  qed
qed

lemma EncryptMessage_run:
  assumes "gcm_correct ssl" and "rand_correct ssl" and "length key = SYM_KEY_LEN" and "encryptable msg"
  obtains ct where "EncryptMessage ssl key msg n = Some (Inr ct, Suc n)" and "DecryptMessage ssl key ct = Inr msg"
proof -
  obtain iv where iv: "GenerateIV ssl '''' n = Some (Inr iv, Suc n)" "length iv = IV_LEN"
    using GenerateIV_run [OF assms(2)] .
  obtain ct where ct: "EncryptMessage_iv ssl key iv msg = Inr ct"
      "DecryptMessage ssl key (iv @ ct) = Inr msg"
    using Encrypt_iv_Decrypt [OF assms(1,3) iv(2) assms(4)] .
  have "EncryptMessage ssl key msg n = Some (Inr (iv @ ct), Suc n)"
    using assms(3,4) iv(1) ct(1) by (simp add: EncryptMessage_def exec_simps encryptable_def)
  with ct(2) show ?thesis using that by blast
qed

text \<open>C28: with a 16-byte key, a non-empty message that is at least 33 bytes short of 2 GB is encrypted,
  under a fresh random IV that is prepended to the tag and the ciphertext, and decryption with the
  same key gives the message back; the empty message is refused with a value error.\<close>

theorem skenc_roundtrip:
  assumes "gcm_correct ssl" and "rand_correct ssl" and "length key = SYM_KEY_LEN"
  shows "(msg \<noteq> [] \<and> length msg + 32 < 2147483648 \<longrightarrow>
      (\<exists>ct. EncryptMessage ssl key msg n = Some (Inr ct, Suc n) \<and> DecryptMessage ssl key ct = Inr msg))
    \<and> EncryptMessage ssl key [] n
        = Some (Inl (ValueError ''Crypto Error (EncryptMessage): Cannot encrypt the empty message''), n)"
  using EncryptMessage_run [OF assms, of msg n] by (fastforce simp: encryptable_def EncryptMessage_def throw_def)

theorem skenc_roundtrip_witness:
  "\<exists>ct. EncryptMessage plain_openssl (replicate 16 1) [42] 0 = Some (Inr ct, Suc 0)
      \<and> DecryptMessage plain_openssl (replicate 16 1) ct = Inr [42]"
  using skenc_roundtrip [of plain_openssl "replicate 16 1" "[42]" 0] plain_openssl_correct
  by (simp add: SYM_KEY_LEN_def)

end
