(* ===== verification/Block_Store.thy ===== *)
theory Block_Store
  imports Prelude
begin

text \<open>
  The block store (\<open>common/packages/block_store/lmdb_block_store.cpp\<close>): blocks and their
  metadata in two tables of an LMDB database. LMDB is a parameter: its calls act on a database
  state of any type and return an LMDB status, and any of them may fail. A transaction works on
  a copy of the database, which a commit that succeeds puts in its place; a transaction that is
  dropped without a commit is aborted, so the database is as it was before. The code does not look
  at the status of a commit. The lock serialises the operations, so each is one step here.
\<close>

section \<open>LMDB as a parameter\<close>

datatype mdb_status = MDB_SUCCESS | MDB_NOTFOUND | MDB_OTHER int

datatype mdb_dbi = BLOCK_DB | META_DB

text \<open>
  Beginning a transaction (read-only or not), opening a table in it, and committing: the database,
  the transaction's copy, and the database afterwards.
\<close>

record 'db lmdb =
  mdb_txn_begin :: "'db \<Rightarrow> bool \<Rightarrow> mdb_status"
  mdb_dbi_open :: "'db \<Rightarrow> mdb_dbi \<Rightarrow> mdb_status"
  mdb_txn_commit :: "'db \<Rightarrow> 'db \<Rightarrow> mdb_status \<times> 'db"
  mdb_get :: "'db \<Rightarrow> mdb_dbi \<Rightarrow> bytes \<Rightarrow> mdb_status \<times> bytes"
  mdb_put :: "'db \<Rightarrow> mdb_dbi \<Rightarrow> bytes \<Rightarrow> bytes \<Rightarrow> mdb_status \<times> 'db"

section \<open>Data\<close>

datatype pdo_err_t =
    PDO_SUCCESS | PDO_ERR_UNKNOWN | PDO_ERR_MEMORY | PDO_ERR_IO | PDO_ERR_RUNTIME
  | PDO_ERR_INDEX | PDO_ERR_DIVIDE_BY_ZERO | PDO_ERR_OVERFLOW | PDO_ERR_VALUE
  | PDO_ERR_SYSTEM | PDO_ERR_SYSTEM_BUSY | PDO_ERR_CRYPTO | PDO_ERR_NOTFOUND

text \<open>The metadata struct and its memory image, four little-endian 64-bit fields.\<close>

record BlockMetaData =
  block_size :: nat
  create_time :: nat
  expiration_time :: nat
  tag :: nat

definition metadata_image :: "BlockMetaData \<Rightarrow> bytes" where
  "metadata_image md = le_bytes 8 (block_size md) @ le_bytes 8 (create_time md)
     @ le_bytes 8 (expiration_time md) @ le_bytes 8 (tag md)"

definition metadata_of_image :: "bytes \<Rightarrow> BlockMetaData" where
  "metadata_of_image b =
     \<lparr>block_size = le_nat (take 8 b), create_time = le_nat (take 8 (drop 8 b)),
      expiration_time = le_nat (take 8 (drop 16 b)), tag = le_nat (take 8 (drop 24 b))\<rparr>"

section \<open>Operations\<close>

text \<open>The constructor of the transaction guard gives the transaction's copy or throws.\<close>

definition SafeTransaction :: "'db lmdb \<Rightarrow> bool \<Rightarrow> ('db, 'db) m" where
  "SafeTransaction L rdonly =
     bindM (get (\<lambda>db. mdb_txn_begin L db rdonly = MDB_SUCCESS
                \<and> mdb_dbi_open L db BLOCK_DB = MDB_SUCCESS \<and> mdb_dbi_open L db META_DB = MDB_SUCCESS)) (\<lambda>ok.
     bindM (throwIf (\<not> ok) (SystemError ''failed to open LMDB transaction'')) (\<lambda>_.
     get (\<lambda>db. db)))"

definition SafeTransaction_commit :: "'db lmdb \<Rightarrow> 'db \<Rightarrow> ('db, unit) m" where
  "SafeTransaction_commit L txn = modify (\<lambda>db. snd (mdb_txn_commit L db txn))"

text \<open>
  \<open>get_data\<close> copies the value into the caller's buffer; the result is the status and the
  buffer, which keeps its tail where the value is shorter than it.
\<close>

definition get_data :: "'db lmdb \<Rightarrow> 'db \<Rightarrow> mdb_dbi \<Rightarrow> bytes \<Rightarrow> bytes \<Rightarrow> pdo_err_t \<times> bytes" where
  "get_data L db dbi inId outValue =
     (case mdb_get L db dbi inId of
        (MDB_NOTFOUND, _) \<Rightarrow> (PDO_ERR_NOTFOUND, outValue)
      | (MDB_OTHER _, _) \<Rightarrow> (PDO_ERR_SYSTEM, outValue)
      | (MDB_SUCCESS, data) \<Rightarrow>
          if length outValue < length data then (PDO_ERR_SYSTEM, outValue)
          else (PDO_SUCCESS, overwrite outValue 0 data))"

definition put_data :: "'db lmdb \<Rightarrow> 'db \<Rightarrow> mdb_dbi \<Rightarrow> bytes \<Rightarrow> bytes \<Rightarrow> pdo_err_t \<times> 'db" where
  "put_data L db dbi inId inValue =
     (case mdb_put L db dbi inId inValue of
        (MDB_SUCCESS, db') \<Rightarrow> (PDO_SUCCESS, db')
      | (_, db') \<Rightarrow> (PDO_ERR_SYSTEM, db'))"

definition get_metadata :: "'db lmdb \<Rightarrow> 'db \<Rightarrow> bytes \<Rightarrow> pdo_err_t \<times> BlockMetaData" where
  "get_metadata L db inId =
     (case get_data L db META_DB inId (replicate 32 0) of
        (r, img) \<Rightarrow> (r, metadata_of_image img))"

definition put_metadata :: "'db lmdb \<Rightarrow> 'db \<Rightarrow> bytes \<Rightarrow> BlockMetaData \<Rightarrow> pdo_err_t \<times> 'db" where
  "put_metadata L db inId md = put_data L db META_DB inId (metadata_image md)"

definition BlockStoreHead :: "'db lmdb \<Rightarrow> bytes \<Rightarrow> ('db, pdo_err_t \<times> bool \<times> BlockMetaData) m" where
  "BlockStoreHead L inId =
     bindM (SafeTransaction L True) (\<lambda>stxn.
     case get_metadata L stxn inId of
       (r, md) \<Rightarrow>
         if r = PDO_ERR_NOTFOUND then bindM (SafeTransaction_commit L stxn) (\<lambda>_. ret (PDO_SUCCESS, False, md))
         else if r \<noteq> PDO_SUCCESS then ret (r, False, md)
         else bindM (SafeTransaction_commit L stxn) (\<lambda>_. ret (PDO_SUCCESS, True, md)))"

definition BlockStoreHead_size :: "'db lmdb \<Rightarrow> bytes \<Rightarrow> ('db, pdo_err_t \<times> bool \<times> nat) m" where
  "BlockStoreHead_size L inId =
     bindM (BlockStoreHead L inId) (\<lambda>(r, present, md).
     ret (r, present, if r = PDO_SUCCESS then block_size md else 0))"

definition BlockStoreGet_buffer :: "'db lmdb \<Rightarrow> bytes \<Rightarrow> bytes \<Rightarrow> ('db, pdo_err_t \<times> bytes) m" where
  "BlockStoreGet_buffer L inId outValue =
     bindM (SafeTransaction L True) (\<lambda>stxn.
     case get_metadata L stxn inId of
       (r, md) \<Rightarrow>
         if r \<noteq> PDO_SUCCESS then ret (r, outValue)
         else if length outValue < block_size md then ret (PDO_ERR_VALUE, outValue)
         else (case get_data L stxn BLOCK_DB inId outValue of
             (r, outValue) \<Rightarrow>
               if r \<noteq> PDO_SUCCESS then ret (r, outValue)
               else bindM (SafeTransaction_commit L stxn) (\<lambda>_. ret (PDO_SUCCESS, outValue))))"

definition MINIMUM_EXPIRATION_TIME :: nat where
  "MINIMUM_EXPIRATION_TIME = 60"

definition BlockStorePut_db :: "'db lmdb \<Rightarrow> nat \<Rightarrow> bytes \<Rightarrow> bytes \<Rightarrow> ('db, pdo_err_t) m" where
  "BlockStorePut_db L now inId inValue =
     bindM (SafeTransaction L False) (\<lambda>stxn.
     case put_data L stxn BLOCK_DB inId inValue of
       (r, stxn) \<Rightarrow>
         if r \<noteq> PDO_SUCCESS then ret r
         else (case put_metadata L stxn inId
                      \<lparr>block_size = length inValue, create_time = now,
                       expiration_time = now + MINIMUM_EXPIRATION_TIME, tag = 0\<rparr> of
                 (r, stxn) \<Rightarrow>
                   if r \<noteq> PDO_SUCCESS then ret r
                   else bindM (SafeTransaction_commit L stxn) (\<lambda>_. ret PDO_SUCCESS)))"

text \<open>The \<open>ByteArray\<close> form of the get: size first, then the block into a buffer of that size.\<close>

definition BlockStoreGet_db :: "'db lmdb \<Rightarrow> bytes \<Rightarrow> bytes \<Rightarrow> ('db, pdo_err_t \<times> bytes) m" where
  "BlockStoreGet_db L inId outValue =
     bindM (BlockStoreHead_size L inId) (\<lambda>(r, present, value_size).
     if r \<noteq> PDO_SUCCESS then ret (r, outValue)
     else if \<not> present then ret (PDO_ERR_VALUE, outValue)
     else BlockStoreGet_buffer L inId
            (take value_size outValue @ replicate (value_size - length outValue) 0))"

section \<open>What the code relies on, and the store it implements\<close>

text \<open>
  LMDB's documented behaviour: a successful put makes the value readable under its key in that
  table and leaves every other entry of both tables as it was; a commit that succeeds makes the
  transaction's copy the database, and one that fails discards it.
\<close>

definition lmdb_correct :: "'db lmdb \<Rightarrow> bool" where
  "lmdb_correct L \<longleftrightarrow>
     (\<forall>db dbi k v db'. mdb_put L db dbi k v = (MDB_SUCCESS, db') \<longrightarrow>
        mdb_get L db' dbi k = (MDB_SUCCESS, v) \<and>
        (\<forall>dbi' k'. (dbi', k') \<noteq> (dbi, k) \<longrightarrow> mdb_get L db' dbi' k' = mdb_get L db dbi' k'))
     \<and> (\<forall>db txn. snd (mdb_txn_commit L db txn)
          = (if fst (mdb_txn_commit L db txn) = MDB_SUCCESS then txn else db))"

text \<open>
  The store of blocks the database represents, and the invariant of the two tables: a block
  and its metadata are present together, and the metadata holds the block's size; or both are
  absent; or both reads are refused, as LMDB refuses a key of a size it does not support.
\<close>

definition store_of :: "'db lmdb \<Rightarrow> 'db \<Rightarrow> bytes \<Rightarrow> bytes option" where
  "store_of L db bid = (case mdb_get L db BLOCK_DB bid of (MDB_SUCCESS, v) \<Rightarrow> Some v | _ \<Rightarrow> None)"

definition is_refusal :: "mdb_status \<Rightarrow> bool" where
  "is_refusal st = (case st of MDB_OTHER _ \<Rightarrow> True | _ \<Rightarrow> False)"

definition db_entry_ok :: "'db lmdb \<Rightarrow> 'db \<Rightarrow> bytes \<Rightarrow> bool" where
  "db_entry_ok L db bid \<longleftrightarrow>
     (fst (mdb_get L db BLOCK_DB bid) = MDB_NOTFOUND \<and> fst (mdb_get L db META_DB bid) = MDB_NOTFOUND)
     \<or> (is_refusal (fst (mdb_get L db BLOCK_DB bid)) \<and> is_refusal (fst (mdb_get L db META_DB bid)))
     \<or> (\<exists>v md. mdb_get L db BLOCK_DB bid = (MDB_SUCCESS, v)
            \<and> mdb_get L db META_DB bid = (MDB_SUCCESS, metadata_image md)
            \<and> block_size md = length v \<and> length v < 18446744073709551616)"

definition db_ok :: "'db lmdb \<Rightarrow> 'db \<Rightarrow> bool" where
  "db_ok L db \<longleftrightarrow> (\<forall>bid. db_entry_ok L db bid)"

text \<open>A transaction can be opened.\<close>

definition txn_opens :: "'db lmdb \<Rightarrow> bool \<Rightarrow> 'db \<Rightarrow> bool" where
  "txn_opens L rdonly db \<longleftrightarrow> mdb_txn_begin L db rdonly = MDB_SUCCESS
     \<and> mdb_dbi_open L db BLOCK_DB = MDB_SUCCESS \<and> mdb_dbi_open L db META_DB = MDB_SUCCESS"

lemma length_metadata_image [simp]: "length (metadata_image md) = 32"
  by (simp add: metadata_image_def)

lemma block_size_of_image [simp]:
  "block_size md < 18446744073709551616 \<Longrightarrow>
   block_size (metadata_of_image (metadata_image md)) = block_size md"
  by (simp add: metadata_of_image_def metadata_image_def)

lemma SafeTransaction_run:
  "SafeTransaction L rdonly db =
     Some (if txn_opens L rdonly db then Inr db else Inl (SystemError ''failed to open LMDB transaction''), db)"
  by (simp add: SafeTransaction_def txn_opens_def exec_simps)

lemma SafeTransaction_commit_run:
  "lmdb_correct L \<Longrightarrow> SafeTransaction_commit L txn db =
     Some (Inr (), if fst (mdb_txn_commit L db txn) = MDB_SUCCESS then txn else db)"
  by (simp add: SafeTransaction_commit_def modify_def lmdb_correct_def)

lemma get_metadata_present:
  assumes "mdb_get L db META_DB bid = (MDB_SUCCESS, metadata_image md)"
  shows "get_metadata L db bid = (PDO_SUCCESS, metadata_of_image (metadata_image md))"
  using assms by (simp add: get_metadata_def get_data_def overwrite_def)

lemma get_metadata_absent:
  assumes "fst (mdb_get L db META_DB bid) = st" and "st \<noteq> MDB_SUCCESS"
  shows "\<exists>md. get_metadata L db bid = (if st = MDB_NOTFOUND then PDO_ERR_NOTFOUND else PDO_ERR_SYSTEM, md)"
  using assms by (cases "mdb_get L db META_DB bid"; cases st) (auto simp: get_metadata_def get_data_def)

text \<open>What a get answers: the block, or an error that depends on whether the key was refused.\<close>

definition get_answer :: "'db lmdb \<Rightarrow> 'db \<Rightarrow> bytes \<Rightarrow> bytes \<Rightarrow> pdo_err_t \<times> bytes" where
  "get_answer L db k out = (case store_of L db k of Some v \<Rightarrow> (PDO_SUCCESS, v)
     | None \<Rightarrow> (if is_refusal (fst (mdb_get L db BLOCK_DB k)) then PDO_ERR_SYSTEM else PDO_ERR_VALUE, out))"

lemma BlockStoreGet_db_spec:
  assumes "lmdb_correct L" and "db_ok L db"
  shows "BlockStoreGet_db L bid out db = Some (if txn_opens L True db then Inr (get_answer L db bid out)
    else Inl (SystemError ''failed to open LMDB transaction''), db)"
proof (cases "txn_opens L True db")
  case False
  then show ?thesis
    by (simp add: BlockStoreGet_db_def BlockStoreHead_size_def BlockStoreHead_def SafeTransaction_run bindM_def)
next
  case True
  note run = BlockStoreGet_db_def BlockStoreHead_size_def BlockStoreHead_def BlockStoreGet_buffer_def
    SafeTransaction_run SafeTransaction_commit_run [OF assms(1)] bindM_def ret_def
  consider (absent) "fst (mdb_get L db BLOCK_DB bid) = MDB_NOTFOUND" "fst (mdb_get L db META_DB bid) = MDB_NOTFOUND"
    | (refused) "is_refusal (fst (mdb_get L db BLOCK_DB bid))" "is_refusal (fst (mdb_get L db META_DB bid))"
    | (present) v md where "mdb_get L db BLOCK_DB bid = (MDB_SUCCESS, v)"
        "mdb_get L db META_DB bid = (MDB_SUCCESS, metadata_image md)"
        "block_size md = length v" "length v < 18446744073709551616"
    using assms(2) unfolding db_ok_def db_entry_ok_def by metis
  then show ?thesis
  proof cases
    case absent
    then have "get_answer L db bid out = (PDO_ERR_VALUE, out)"
      by (cases "mdb_get L db BLOCK_DB bid") (simp add: get_answer_def store_of_def is_refusal_def)
    moreover obtain md where "get_metadata L db bid = (PDO_ERR_NOTFOUND, md)"
      using get_metadata_absent [OF absent(2)] by auto
    ultimately show ?thesis using True by (simp add: run)
  next
    case refused
    then have "get_answer L db bid out = (PDO_ERR_SYSTEM, out)"
      by (cases "mdb_get L db BLOCK_DB bid") (simp add: get_answer_def store_of_def is_refusal_def split: mdb_status.splits)
    moreover obtain md where "get_metadata L db bid = (PDO_ERR_SYSTEM, md)"
      using get_metadata_absent [OF refl, of L db bid] refused(2) by (auto simp: is_refusal_def split: mdb_status.splits)
    ultimately show ?thesis using True by (simp add: run)
  next
    case present
    then have "get_answer L db bid out = (PDO_SUCCESS, v)" by (simp add: get_answer_def store_of_def)
    moreover note get_metadata_present [OF present(2)]
    ultimately show ?thesis
      using present True by (simp add: run get_data_def overwrite_def)
  qed
qed

lemma BlockStorePut_db_cases:
  assumes L: "lmdb_correct L" and "BlockStorePut_db L now bid v db = Some (r, db')"
  obtains (failed) "r \<noteq> Inr PDO_SUCCESS" "db' = db"
    | (lost) txn where "r = Inr PDO_SUCCESS" "db' = db" "fst (mdb_txn_commit L db txn) \<noteq> MDB_SUCCESS"
    | (stored) md where "r = Inr PDO_SUCCESS" "block_size md = length v"
        "mdb_get L db' BLOCK_DB bid = (MDB_SUCCESS, v)"
        "mdb_get L db' META_DB bid = (MDB_SUCCESS, metadata_image md)"
        "\<And>dbi k. k \<noteq> bid \<Longrightarrow> mdb_get L db' dbi k = mdb_get L db dbi k"
proof -
  define md where "md = \<lparr>block_size = length v, create_time = now,
    expiration_time = now + MINIMUM_EXPIRATION_TIME, tag = 0\<rparr>"
  obtain st1 db1 where p1: "mdb_put L db BLOCK_DB bid v = (st1, db1)" by fastforce
  obtain st2 db2 where p2: "mdb_put L db1 META_DB bid (metadata_image md) = (st2, db2)" by fastforce
  have step: "BlockStorePut_db L now bid v db =
      (if \<not> txn_opens L False db then Some (Inl (SystemError ''failed to open LMDB transaction''), db)
       else if st1 \<noteq> MDB_SUCCESS \<or> st2 \<noteq> MDB_SUCCESS then Some (Inr PDO_ERR_SYSTEM, db)
       else Some (Inr PDO_SUCCESS, if fst (mdb_txn_commit L db db2) = MDB_SUCCESS then db2 else db))"
    using p1 p2
    by (cases st1; cases st2)
      (simp_all add: BlockStorePut_db_def put_data_def put_metadata_def md_def SafeTransaction_run
        SafeTransaction_commit_run [OF L] bindM_def ret_def)
  show ?thesis
  proof (cases "txn_opens L False db \<and> st1 = MDB_SUCCESS \<and> st2 = MDB_SUCCESS \<and> fst (mdb_txn_commit L db db2) = MDB_SUCCESS")
    case False
    with step assms(2) show ?thesis using failed lost [of db2] by (auto split: if_splits)
  next
    case True
    with p1 p2 have ok: "mdb_put L db BLOCK_DB bid v = (MDB_SUCCESS, db1)"
      "mdb_put L db1 META_DB bid (metadata_image md) = (MDB_SUCCESS, db2)" by auto
    from True step assms(2) have res: "r = Inr PDO_SUCCESS" "db' = db2" by auto
    note l1 = conjunct1 [OF L [unfolded lmdb_correct_def], rule_format, OF ok(1)]
    note l2 = conjunct1 [OF L [unfolded lmdb_correct_def], rule_format, OF ok(2)]
    show ?thesis
      using res l1 l2 by (intro stored [of md]) (auto simp: md_def)
  qed
qed

text \<open>
  A put stores the block, and says so; or it changes nothing, and then it reports an error, or the
  commit failed.
\<close>

lemma BlockStorePut_db_ok:
  assumes "lmdb_correct L" and "db_ok L db" and "length v < 18446744073709551616"
    and "BlockStorePut_db L now bid v db = Some (r, db')"
  shows "db_ok L db' \<and> (r = Inr PDO_SUCCESS \<and> store_of L db' = (store_of L db)(bid \<mapsto> v)
      \<or> db' = db \<and> (r \<noteq> Inr PDO_SUCCESS \<or> (\<exists>txn. fst (mdb_txn_commit L db txn) \<noteq> MDB_SUCCESS)))"
  using assms(1,4)
proof (cases rule: BlockStorePut_db_cases)
  case (stored md)
  have "db_entry_ok L db' k" for k
    using stored assms(2,3) by (cases "k = bid") (auto simp: db_ok_def db_entry_ok_def)
  moreover have "store_of L db' k = ((store_of L db)(bid \<mapsto> v)) k" for k
    using stored by (cases "k = bid") (auto simp: store_of_def)
  ultimately show ?thesis using stored(1) by (auto simp: db_ok_def)
qed (use assms(2) in auto)

section \<open>The interface of a block store\<close>

text \<open>
  What the users of \<open>block_store.h\<close> rely on, whichever implementation is linked: the contents
  are a map from block identifiers to blocks, a get that succeeds reads it, and a put changes it at
  most at its identifier, to the block, and not at all when it does not report success.
\<close>

locale block_map =
  fixes invar :: "'db \<Rightarrow> bool"
    and put :: "bytes \<Rightarrow> bytes \<Rightarrow> ('db, pdo_err_t) m"
    and fetch :: "bytes \<Rightarrow> bytes \<Rightarrow> ('db, pdo_err_t \<times> bytes) m"
    and contents :: "'db \<Rightarrow> bytes \<Rightarrow> bytes option"
  assumes fetch_contents: "invar db \<Longrightarrow> fetch k out db = Some (Inr (PDO_SUCCESS, w), db') \<Longrightarrow>
      contents db k = Some w"
    and put_contents: "invar db \<Longrightarrow> length v < 18446744073709551616 \<Longrightarrow> put k v db = Some (r, db') \<Longrightarrow>
      contents db' = contents db \<or> r = Inr PDO_SUCCESS \<and> contents db' = (contents db)(k \<mapsto> v)"
    and put_invar: "invar db \<Longrightarrow> length v < 18446744073709551616 \<Longrightarrow> put k v db = Some (r, db') \<Longrightarrow> invar db'"
begin

text \<open>A block that is read was the last one put under its identifier, or was there before.\<close>

lemma fetch_after_put:
  assumes "invar db" and "length v < 18446744073709551616" and "put k v db = Some (r, db')"
    and "fetch k' out db' = Some (Inr (PDO_SUCCESS, w), db'')"
  shows "contents db k' = Some w \<or> k' = k \<and> w = v \<and> r = Inr PDO_SUCCESS"
  using put_contents [OF assms(1-3)] fetch_contents [OF put_invar [OF assms(1-3)] assms(4)]
  by (auto split: if_splits)

end

interpretation lmdb_store: block_map "\<lambda>db. lmdb_correct L \<and> db_ok L db" "BlockStorePut_db L now"
    "BlockStoreGet_db L" "store_of L" for L :: "'db lmdb" and now
proof unfold_locales
  fix db k out w db' assume i: "lmdb_correct L \<and> db_ok L db"
    and g: "BlockStoreGet_db L k out db = Some (Inr (PDO_SUCCESS, w), db')"
  show "store_of L db k = Some w"
    using g BlockStoreGet_db_spec [OF conjunct1 [OF i] conjunct2 [OF i], of k out]
    by (auto simp: get_answer_def split: if_splits option.splits)
next
  fix db v k r db' assume "lmdb_correct L \<and> db_ok L db" "length v < 18446744073709551616"
    and "BlockStorePut_db L now k v db = Some (r, db')"
  then show "store_of L db' = store_of L db \<or> r = Inr PDO_SUCCESS \<and> store_of L db' = (store_of L db)(k \<mapsto> v)"
      and "lmdb_correct L \<and> db_ok L db'"
    using BlockStorePut_db_ok [of L db v now k r db'] by auto
qed

text \<open>C24: the LMDB block store as a map. After a put, whatever LMDB's calls returned, the tables of
  blocks and metadata are consistent and the stored map is either the old one with the block at its
  identifier, and success was reported, or the old one, and then either the put reported an error
  or LMDB failed to commit the transaction, which the code does not notice. A get on the new
  database throws when no transaction can be opened, and otherwise gives the stored block exactly as
  it was put, or an error code when the map has none.\<close>

theorem block_store_refines_map:
  assumes "lmdb_correct L" and "db_ok L db" and "length v < 18446744073709551616"
    and "BlockStorePut_db L now bid v db = Some (r, db')"
  shows "db_ok L db'
    \<and> (r = Inr PDO_SUCCESS \<and> store_of L db' = (store_of L db)(bid \<mapsto> v)
       \<or> store_of L db' = store_of L db
          \<and> (r \<noteq> Inr PDO_SUCCESS \<or> (\<exists>txn. fst (mdb_txn_commit L db txn) \<noteq> MDB_SUCCESS)))
    \<and> BlockStoreGet_db L k out db' =
        Some (if \<not> txn_opens L True db' then Inl (SystemError ''failed to open LMDB transaction'')
              else Inr (case store_of L db' k of Some w \<Rightarrow> (PDO_SUCCESS, w)
                | None \<Rightarrow> (if is_refusal (fst (mdb_get L db' BLOCK_DB k)) then PDO_ERR_SYSTEM else PDO_ERR_VALUE, out)),
              db')"
proof -
  note ok = BlockStorePut_db_ok [OF assms]
  then show ?thesis using BlockStoreGet_db_spec [OF assms(1), of db' k out] by (auto simp: get_answer_def)
qed

text \<open>A database kept in two maps, which can commit or not, for the witnesses.\<close>

definition map_lmdb :: "bool \<Rightarrow> (mdb_dbi \<Rightarrow> bytes \<Rightarrow> bytes option) lmdb" where
  "map_lmdb commits =
     \<lparr>mdb_txn_begin = (\<lambda>db rdonly. MDB_SUCCESS), mdb_dbi_open = (\<lambda>db dbi. MDB_SUCCESS),
      mdb_txn_commit = (\<lambda>db txn. if commits then (MDB_SUCCESS, txn) else (MDB_OTHER 28, db)),
      mdb_get = (\<lambda>db dbi k. if k = [] then (MDB_OTHER (- 30781), [])
        else case db dbi k of None \<Rightarrow> (MDB_NOTFOUND, []) | Some v \<Rightarrow> (MDB_SUCCESS, v)),
      mdb_put = (\<lambda>db dbi k v. if k = [] then (MDB_OTHER (- 30781), db)
        else (MDB_SUCCESS, db(dbi := (db dbi)(k \<mapsto> v))))\<rparr>"

lemma map_lmdb_correct: "lmdb_correct (map_lmdb commits)"
  by (auto simp: lmdb_correct_def map_lmdb_def split: if_splits)

lemma map_lmdb_empty_ok: "db_ok (map_lmdb commits) (\<lambda>_ _. None)"
  by (simp add: db_ok_def db_entry_ok_def map_lmdb_def is_refusal_def)

lemma map_lmdb_put:
  "\<exists>db'. BlockStorePut_db (map_lmdb commits) 5 [1] [2, 3] (\<lambda>_ _. None) = Some (Inr PDO_SUCCESS, db')
     \<and> store_of (map_lmdb commits) db' [1] = (if commits then Some [2, 3] else None)"
  by (simp add: BlockStorePut_db_def SafeTransaction_def SafeTransaction_commit_def put_data_def put_metadata_def map_lmdb_def
      store_of_def exec_simps)

theorem block_store_refines_map_witness:
  "\<exists>db'. BlockStorePut_db (map_lmdb True) 5 [1] [2, 3] (\<lambda>_ _. None) = Some (Inr PDO_SUCCESS, db')
     \<and> BlockStoreGet_db (map_lmdb True) [1] [] db' = Some (Inr (PDO_SUCCESS, [2, 3]), db')"
proof -
  obtain db' where put: "BlockStorePut_db (map_lmdb True) 5 [1] [2, 3] (\<lambda>_ _. None) = Some (Inr PDO_SUCCESS, db')"
      "store_of (map_lmdb True) db' [1] = Some [2, 3]"
    using map_lmdb_put [of True] by auto
  have "txn_opens (map_lmdb True) True db'" by (simp add: txn_opens_def map_lmdb_def)
  then show ?thesis
    using block_store_refines_map [OF map_lmdb_correct map_lmdb_empty_ok _ put(1), of "[1]" "[]"] put
    by simp
qed

text \<open>C39: a put can report success although the block is not stored: an LMDB that behaves as
  documented, but cannot commit (the disk is full, say), makes the put return the success code and
  the get that follows find nothing.\<close>

theorem put_reports_uncommitted_block:
  "\<exists>(L :: (mdb_dbi \<Rightarrow> bytes \<Rightarrow> bytes option) lmdb) db now db'. lmdb_correct L \<and> db_ok L db
     \<and> BlockStorePut_db L now [1] [2, 3] db = Some (Inr PDO_SUCCESS, db')
     \<and> BlockStoreGet_db L [1] [] db' = Some (Inr (PDO_ERR_VALUE, []), db')"
proof -
  let ?L = "map_lmdb False" and ?db = "\<lambda>_ _. None"
  have "BlockStorePut_db ?L 5 [1] [2, 3] ?db = Some (Inr PDO_SUCCESS, ?db)"
    by (simp add: BlockStorePut_db_def SafeTransaction_def SafeTransaction_commit_def put_data_def put_metadata_def map_lmdb_def
        exec_simps)
  moreover have "BlockStoreGet_db ?L [1] [] ?db = Some (Inr (PDO_ERR_VALUE, []), ?db)"
    using BlockStoreGet_db_spec [OF map_lmdb_correct map_lmdb_empty_ok, of False "[1]" "[]"]
    by (simp add: txn_opens_def get_answer_def store_of_def is_refusal_def map_lmdb_def)
  ultimately show ?thesis using map_lmdb_correct [of False] map_lmdb_empty_ok [of False] by blast
qed

end
