(* ===== verification/Sebio.thy ===== *)
theory Sebio
  imports Skenc Block_Store
begin

text \<open>
  Secure block I/O (\<open>common/state/sebio.cpp\<close>) over the block store as the enclave sees it
  (\<open>eservice/lib/libpdo_enclave/block_store.cpp\<close>). The world outside is the state: the
  contents of the block store behind the OCALLs, the blocks it was given so far, the status each
  OCALL ends with, the block the host answers it from, and the number of random draws made. The
  store is under the control of the host, so its contents are any map, any OCALL may fail, and the
  host may answer the request for a block's size and the request for the block itself from
  different blocks, neither of them the one it stored; that a block fetched under an identifier
  hashes to it is a theorem, not an assumption. The function pointers of the SeBIO context are fixed to the defaults; only tests
  install others.
\<close>

section \<open>Data\<close>

datatype state_status_t =
    STATE_SUCCESS | STATE_ERR_UNKNOWN | STATE_ERR_MEMORY | STATE_ERR_IO | STATE_ERR_RUNTIME
  | STATE_ERR_INDEX | STATE_ERR_DIVIDE_BY_ZERO | STATE_ERR_OVERFLOW | STATE_ERR_VALUE
  | STATE_ERR_SYSTEM | STATE_ERR_UNIMPLEMENTED | STATE_ERR_NOT_FOUND
  | STATE_ERR_BLOCK_AUTHENTICATION | STATE_EOD

datatype sebio_crypto_algo_e = SEBIO_NO_CRYPTO | SEBIO_AES_GCM

record sebio_ctx_t =
  sebio_key :: bytes
  sebio_crypto_algo :: sebio_crypto_algo_e

text \<open>The statically initialised context.\<close>

definition sebio_ctx :: sebio_ctx_t where
  "sebio_ctx = \<lparr>sebio_key = [], sebio_crypto_algo = SEBIO_NO_CRYPTO\<rparr>"

text \<open>
  An OCALL ends with a status of the SGX runtime and the error code of the host's function; a call
  that fails leaves the store as it was. \<open>env_reply\<close> gives, for a call and the entry of the
  store it is about, the entry the host answers from.
\<close>

datatype ocall =
    ocall_BlockStoreHead bytes
  | ocall_BlockStoreGet bytes nat
  | ocall_BlockStorePut bytes bytes

record env =
  env_store :: "bytes \<Rightarrow> bytes option"
  env_puts :: "bytes list"
  env_draws :: nat
  env_ocall :: "ocall \<Rightarrow> int \<times> pdo_err_t"
  env_reply :: "ocall \<Rightarrow> bytes option \<Rightarrow> bytes option"

text \<open>What a put does outside: the store maps the key to the block, and the block is one more that the host was given.\<close>

definition host_put :: "bytes \<Rightarrow> bytes \<Rightarrow> env \<Rightarrow> env" where
  "host_put k v e = e\<lparr>env_store := (env_store e)(k \<mapsto> v), env_puts := env_puts e @ [v]\<rparr>"

section \<open>The block store seen from the enclave\<close>

definition ocall_status :: "ocall \<Rightarrow> string \<Rightarrow> string \<Rightarrow> (env, unit) m" where
  "ocall_status q sgx_msg msg =
     bindM (get (\<lambda>e. env_ocall e q)) (\<lambda>(sgx_ret, r).
     bindM (throwIf (sgx_ret \<noteq> 0) (RuntimeError sgx_msg)) (\<lambda>_.
     throwIf (r \<noteq> PDO_SUCCESS) (RuntimeError msg)))"

definition BlockStoreHead_enclave :: "bytes \<Rightarrow> (env, pdo_err_t \<times> bool \<times> nat) m" where
  "BlockStoreHead_enclave inId =
     bindM (ocall_status (ocall_BlockStoreHead inId)
              ''sgx failed during head request on the block store''
              ''head request failed on the block store'') (\<lambda>_.
     bindM (get (\<lambda>e. env_reply e (ocall_BlockStoreHead inId) (env_store e inId))) (\<lambda>reply.
     ret (case reply of None \<Rightarrow> (PDO_SUCCESS, False, 0) | Some v \<Rightarrow> (PDO_SUCCESS, True, length v))))"

definition BlockStoreGet_enclave :: "bytes \<Rightarrow> nat \<Rightarrow> (env, pdo_err_t \<times> bytes) m" where
  "BlockStoreGet_enclave inId value_size =
     bindM (ocall_status (ocall_BlockStoreGet inId value_size)
              ''sgx failed during get request on the block store''
              ''get request failed on the block store'') (\<lambda>_.
     bindM (get (\<lambda>e. env_reply e (ocall_BlockStoreGet inId value_size) (env_store e inId))) (\<lambda>reply.
     ret (PDO_SUCCESS, overwrite (replicate value_size 0) 0 (take value_size (case reply of None \<Rightarrow> [] | Some v \<Rightarrow> v)))))"

definition BlockStorePut :: "bytes \<Rightarrow> bytes \<Rightarrow> (env, pdo_err_t) m" where
  "BlockStorePut inId inValue =
     bindM (ocall_status (ocall_BlockStorePut inId inValue)
              ''sgx failed during put to the block store''
              ''failed to put to the block store'') (\<lambda>_.
     bindM (modify (host_put inId inValue)) (\<lambda>_.
     ret PDO_SUCCESS))"

definition BlockStoreGet :: "bytes \<Rightarrow> (env, pdo_err_t \<times> bytes) m" where
  "BlockStoreGet inId =
     bindM (BlockStoreHead_enclave inId) (\<lambda>(r, isPresent, value_size).
     if r \<noteq> PDO_SUCCESS then ret (r, [])
     else if \<not> isPresent then ret (PDO_ERR_VALUE, [])
     else BlockStoreGet_enclave inId value_size)"

definition enclave_encrypt :: "openssl \<Rightarrow> bytes \<Rightarrow> bytes \<Rightarrow> (env, bytes) m" where
  "enclave_encrypt ssl key msg = zoom env_draws (\<lambda>n. env_draws_update (\<lambda>_. n)) (EncryptMessage ssl key msg)"

section \<open>Fetch and evict\<close>

definition sebio_fetch_from_block_store ::
    "openssl \<Rightarrow> sebio_ctx_t \<Rightarrow> bytes \<Rightarrow> sebio_crypto_algo_e \<Rightarrow> (env, state_status_t \<times> bytes) m" where
  "sebio_fetch_from_block_store ssl cx block_id crypto_algo =
     bindM (BlockStoreGet block_id) (\<lambda>(r, block).
       if r \<noteq> PDO_SUCCESS then ret (STATE_ERR_NOT_FOUND, block)
       else if block_id \<noteq> ComputeMessageHash ssl block then ret (STATE_ERR_BLOCK_AUTHENTICATION, block)
       else (case crypto_algo of
               SEBIO_NO_CRYPTO \<Rightarrow> ret (STATE_SUCCESS, block)
             | SEBIO_AES_GCM \<Rightarrow>
                 bindM (throwIf (sebio_crypto_algo cx \<noteq> crypto_algo)
                         (RuntimeError ''sebio_fetch, crypto-algo does not match'')) (\<lambda>_.
                 bindM (liftE (DecryptMessage ssl (sebio_key cx) block)) (\<lambda>pt.
                 ret (STATE_SUCCESS, pt)))))"

definition sebio_evict_to_block_store ::
    "openssl \<Rightarrow> sebio_ctx_t \<Rightarrow> bytes \<Rightarrow> sebio_crypto_algo_e \<Rightarrow> (env, state_status_t \<times> bytes) m" where
  "sebio_evict_to_block_store ssl cx block crypto_algo =
     (case crypto_algo of
        SEBIO_NO_CRYPTO \<Rightarrow>
          (let idOnEviction = ComputeMessageHash ssl block in
           bindM (BlockStorePut idOnEviction block) (\<lambda>r.
           ret (if r \<noteq> PDO_SUCCESS then STATE_ERR_UNKNOWN else STATE_SUCCESS, idOnEviction)))
      | SEBIO_AES_GCM \<Rightarrow>
          bindM (throwIf (sebio_crypto_algo cx \<noteq> crypto_algo)
                  (RuntimeError ''sebio_evict, crypto-algo does not match'')) (\<lambda>_.
          bindM (enclave_encrypt ssl (sebio_key cx) block) (\<lambda>baEncryptedBlock.
          let idOnEviction = ComputeMessageHash ssl baEncryptedBlock in
          bindM (BlockStorePut idOnEviction baEncryptedBlock) (\<lambda>r.
          ret (if r \<noteq> PDO_SUCCESS then STATE_ERR_UNKNOWN else STATE_SUCCESS, idOnEviction)))))"

definition sebio_fetch :: "openssl \<Rightarrow> bytes \<Rightarrow> sebio_crypto_algo_e \<Rightarrow> (env, state_status_t \<times> bytes) m" where
  "sebio_fetch ssl = sebio_fetch_from_block_store ssl sebio_ctx"

definition sebio_evict :: "openssl \<Rightarrow> bytes \<Rightarrow> sebio_crypto_algo_e \<Rightarrow> (env, state_status_t \<times> bytes) m" where
  "sebio_evict ssl = sebio_evict_to_block_store ssl sebio_ctx"

section \<open>Properties\<close>

text \<open>All OCALLs succeed and are answered from the store: the host provides the service it is asked for.\<close>

definition ocalls_ok :: "env \<Rightarrow> bool" where
  "ocalls_ok e \<longleftrightarrow> (\<forall>q. env_ocall e q = (0, PDO_SUCCESS)) \<and> (\<forall>q entry. env_reply e q entry = entry)"

lemma ocalls_ok_update [simp]:
  "ocalls_ok (env_store_update f e) = ocalls_ok e" "ocalls_ok (env_draws_update g e) = ocalls_ok e"
  "ocalls_ok (host_put k v e) = ocalls_ok e"
  by (simp_all add: ocalls_ok_def host_put_def)

lemma host_put_sel [simp]:
  "env_store (host_put k v e) = (env_store e)(k \<mapsto> v)" "env_puts (host_put k v e) = env_puts e @ [v]"
  "env_draws (host_put k v e) = env_draws e"
  by (simp_all add: host_put_def)

lemma ocall_status_run: "ocalls_ok e \<Longrightarrow> ocall_status q sgx_msg msg e = Some (Inr (), e)"
  by (simp add: ocall_status_def ocalls_ok_def exec_simps)

lemma BlockStoreGet_run:
  "ocalls_ok e \<Longrightarrow> BlockStoreGet inId e =
     Some (Inr (case env_store e inId of None \<Rightarrow> (PDO_ERR_VALUE, []) | Some v \<Rightarrow> (PDO_SUCCESS, v)), e)"
  by (auto simp: BlockStoreGet_def BlockStoreHead_enclave_def BlockStoreGet_enclave_def ocall_status_run
      overwrite_def exec_simps ocalls_ok_def split: option.splits)

lemma BlockStorePut_run:
  "ocalls_ok e \<Longrightarrow> BlockStorePut inId inValue e =
     Some (Inr PDO_SUCCESS, host_put inId inValue e)"
  by (simp add: BlockStorePut_def ocall_status_run exec_simps)

text \<open>The block store behind the OCALLs has the interface of a block store.\<close>

interpretation enclave_store: block_map ocalls_ok BlockStorePut "\<lambda>k out. BlockStoreGet k" env_store
  by unfold_locales (auto simp: BlockStoreGet_run BlockStorePut_run split: option.splits)

lemma sebio_fetch_run:
  "ocalls_ok e \<Longrightarrow> sebio_fetch ssl bid SEBIO_NO_CRYPTO e =
     Some (Inr (case env_store e bid of
                  None \<Rightarrow> (STATE_ERR_NOT_FOUND, [])
                | Some b \<Rightarrow> (if bid \<noteq> evp_sha256 ssl b then STATE_ERR_BLOCK_AUTHENTICATION else STATE_SUCCESS, b)), e)"
  by (auto simp: sebio_fetch_def sebio_fetch_from_block_store_def BlockStoreGet_run exec_simps
      ComputeMessageHash_def split: option.splits)

lemma sebio_evict_run:
  "ocalls_ok e \<Longrightarrow> sebio_evict ssl block SEBIO_NO_CRYPTO e =
     Some (Inr (STATE_SUCCESS, evp_sha256 ssl block), host_put (evp_sha256 ssl block) block e)"
  by (simp add: sebio_evict_def sebio_evict_to_block_store_def BlockStorePut_run exec_simps
      ComputeMessageHash_def Let_def)

lemma enclave_encrypt_run:
  assumes "gcm_correct ssl" and "rand_correct ssl" and "length key = SYM_KEY_LEN" and "encryptable msg"
  obtains ct where "enclave_encrypt ssl key msg e = Some (Inr ct, e\<lparr>env_draws := Suc (env_draws e)\<rparr>)"
    and "DecryptMessage ssl key ct = Inr msg"
  using EncryptMessage_run [OF assms, of "env_draws e"] that by (auto simp: enclave_encrypt_def zoom_def)

text \<open>C18: whatever the host puts in the block store, a fetch that reports success without the
  SeBIO cipher returns a block whose hash is the identifier it was asked for.\<close>

theorem sebio_fetch_authentic:
  assumes "sebio_fetch ssl bid SEBIO_NO_CRYPTO e = Some (Inr (STATE_SUCCESS, block), e')"
  shows "ComputeMessageHash ssl block = bid \<and> e' = e"
proof -
  have unchanged: "t = e" if "BlockStoreGet bid e = Some (Inr x, t)" for x t
    using that
    by (auto simp: BlockStoreGet_def BlockStoreHead_enclave_def BlockStoreGet_enclave_def ocall_status_def
        bindM_def get_def ret_def throwIf_def throw_def split: if_splits option.splits prod.splits)
  obtain r b t where got: "BlockStoreGet bid e = Some (Inr (r, b), t)"
      "(if r \<noteq> PDO_SUCCESS then ret (STATE_ERR_NOT_FOUND, b)
        else if bid \<noteq> ComputeMessageHash ssl b then ret (STATE_ERR_BLOCK_AUTHENTICATION, b)
        else ret (STATE_SUCCESS, b)) t = Some (Inr (STATE_SUCCESS, block), e')"
    using assms unfolding sebio_fetch_def sebio_fetch_from_block_store_def sebio_crypto_algo_e.case
    by (auto split: prod.splits elim!: bindM_InrD)
  with unchanged [OF got(1)] show ?thesis by (auto simp: ret_def split: if_splits)
qed

theorem sebio_fetch_authentic_witness:
  "ComputeMessageHash plain_openssl [] = replicate 32 0
   \<and> (\<exists>e. sebio_fetch plain_openssl (replicate 32 0) SEBIO_NO_CRYPTO e = Some (Inr (STATE_SUCCESS, []), e))"
proof -
  let ?e = "\<lparr>env_store = [replicate 32 0 \<mapsto> []], env_puts = [], env_draws = 0, env_ocall = (\<lambda>_. (0, PDO_SUCCESS)),
    env_reply = (\<lambda>_ entry. entry)\<rparr>"
  have "ocalls_ok ?e" by (simp add: ocalls_ok_def)
  then have run: "sebio_fetch plain_openssl (replicate 32 0) SEBIO_NO_CRYPTO ?e = Some (Inr (STATE_SUCCESS, []), ?e)"
    by (simp add: sebio_fetch_run plain_openssl_def)
  from sebio_fetch_authentic [OF run] run show ?thesis by blast
qed

text \<open>C25: with a host that provides its service, a block that is evicted in clear is fetched back
  unchanged under the identifier the eviction returned, and so is a non-empty block of less than
  2 GB (less the 33 bytes the cipher's int length needs) evicted under the context's 16-byte
  AES-GCM key. The eviction changes the store at that identifier only.\<close>

theorem sebio_evict_fetch:
  assumes "gcm_correct ssl" and "rand_correct ssl" and "ocalls_ok e"
    and "algo = SEBIO_AES_GCM \<longrightarrow> sebio_crypto_algo cx = SEBIO_AES_GCM \<and> length (sebio_key cx) = SYM_KEY_LEN
      \<and> block \<noteq> [] \<and> length block + 32 < 2147483648"
  shows "\<exists>bid e'. sebio_evict_to_block_store ssl cx block algo e = Some (Inr (STATE_SUCCESS, bid), e')
     \<and> sebio_fetch_from_block_store ssl cx bid algo e' = Some (Inr (STATE_SUCCESS, block), e')
     \<and> (\<forall>k. k \<noteq> bid \<longrightarrow> env_store e' k = env_store e k)"
proof (cases algo)
  case SEBIO_NO_CRYPTO
  then show ?thesis
    using assms(3)
    by (auto simp: sebio_evict_to_block_store_def sebio_fetch_from_block_store_def BlockStorePut_run
        BlockStoreGet_run exec_simps Let_def)
next
  case SEBIO_AES_GCM
  with assms(4) have cx: "sebio_crypto_algo cx = SEBIO_AES_GCM" "length (sebio_key cx) = SYM_KEY_LEN"
    and block: "encryptable block" by (auto simp: encryptable_def)
  obtain ct where ct: "enclave_encrypt ssl (sebio_key cx) block e =
        Some (Inr ct, e\<lparr>env_draws := Suc (env_draws e)\<rparr>)" "DecryptMessage ssl (sebio_key cx) ct = Inr block"
    using enclave_encrypt_run [OF assms(1,2) cx(2) block] .
  show ?thesis
    using SEBIO_AES_GCM cx ct assms(3)
    by (auto simp: sebio_evict_to_block_store_def sebio_fetch_from_block_store_def BlockStorePut_run
        BlockStoreGet_run exec_simps Let_def)
qed

text \<open>An environment with an empty block store and a host that answers, for the witnesses.\<close>

definition good_env :: env where
  "good_env = \<lparr>env_store = Map.empty, env_puts = [], env_draws = 0, env_ocall = (\<lambda>_. (0, PDO_SUCCESS)),
    env_reply = (\<lambda>_ entry. entry)\<rparr>"

lemma good_env_ok: "ocalls_ok good_env"
  by (simp add: good_env_def ocalls_ok_def)

theorem sebio_evict_fetch_witness:
  "\<exists>bid e'. sebio_evict_to_block_store plain_openssl
        \<lparr>sebio_key = replicate 16 9, sebio_crypto_algo = SEBIO_AES_GCM\<rparr> [1, 2] SEBIO_AES_GCM
        good_env = Some (Inr (STATE_SUCCESS, bid), e')
     \<and> sebio_fetch_from_block_store plain_openssl
        \<lparr>sebio_key = replicate 16 9, sebio_crypto_algo = SEBIO_AES_GCM\<rparr> bid SEBIO_AES_GCM e'
        = Some (Inr (STATE_SUCCESS, [1, 2]), e')"
  using sebio_evict_fetch [of plain_openssl good_env SEBIO_AES_GCM
      "\<lparr>sebio_key = replicate 16 9, sebio_crypto_algo = SEBIO_AES_GCM\<rparr>" "[1, 2]"] plain_openssl_correct good_env_ok
  by (auto simp: SYM_KEY_LEN_def)

end
