(* ===== verification/Encodings.thy ===== *)
theory Encodings
  imports Prelude
begin

unbundle bit_operations_syntax

text \<open>
  Text encodings of byte arrays: hexadecimal (\<open>common/hex_string.cpp\<close>) and Base64
  (\<open>common/packages/base64/base64.cpp\<close>), and the conversions of \<open>common/types.cpp\<close> that call
  them. Block identifiers, keys and signatures cross every interface in these forms, so both
  directions have to be inverse to each other.
\<close>

section \<open>Hexadecimal\<close>

definition toupper :: "char \<Rightarrow> char" where
  "toupper c = (if 97 \<le> (of_char c :: nat) \<and> (of_char c :: nat) \<le> 122 then char_of ((of_char c :: nat) - 32) else c)"

definition HexToNibble :: "char \<Rightarrow> error + nat" where
  "HexToNibble hex =
     (let h = (of_char (toupper hex) :: nat) in
      if 65 \<le> h \<and> h \<le> 70 then Inr (10 + (h - 65))
      else if 48 \<le> h \<and> h \<le> 57 then Inr (h - 48)
      else Inl (ValueError ''Hex digit is not valid''))"

definition HexToByte :: "char \<Rightarrow> char \<Rightarrow> error + byte" where
  "HexToByte h1 h2 =
     (case HexToNibble h1 of Inl e \<Rightarrow> Inl e
      | Inr c1 \<Rightarrow> (case HexToNibble h2 of Inl e \<Rightarrow> Inl e
          | Inr c2 \<Rightarrow> Inr (push_bit 4 (word_of_nat c1) OR word_of_nat c2)))"

text \<open>The conversion loop, two digits at a time.\<close>

fun hex_loop :: "string \<Rightarrow> error + bytes" where
  "hex_loop (h1 # h2 # hs) =
     (case HexToByte h1 h2 of Inl e \<Rightarrow> Inl e
      | Inr b \<Rightarrow> (case hex_loop hs of Inl e \<Rightarrow> Inl e | Inr bs \<Rightarrow> Inr (b # bs)))"
| "hex_loop _ = Inr []"

definition HexStringToBinary :: "string \<Rightarrow> error + bytes" where
  "HexStringToBinary inHexString =
     (if length inHexString mod 2 \<noteq> 0 then Inl (ValueError ''Hex encoded string is not an even length'')
      else hex_loop inHexString)"

definition hexDigits :: string where
  "hexDigits = ''0123456789ABCDEF''"

definition hex_of_byte :: "byte \<Rightarrow> string" where
  "hex_of_byte b = [hexDigits ! unat (drop_bit 4 b), hexDigits ! unat (b AND 0x0F)]"

definition BinaryToHexString :: "bytes \<Rightarrow> string" where
  "BinaryToHexString inBinaryData = concat (map hex_of_byte inBinaryData)"

definition ByteArrayToHexEncodedString :: "bytes \<Rightarrow> string" where
  "ByteArrayToHexEncodedString buf = BinaryToHexString buf"

definition HexEncodedStringToByteArray :: "string \<Rightarrow> error + bytes" where
  "HexEncodedStringToByteArray encoded = HexStringToBinary encoded"

definition ByteArrayToString :: "bytes \<Rightarrow> string" where
  "ByteArrayToString inArray = map (\<lambda>b. char_of (unat b)) inArray"

section \<open>Base64\<close>

definition base64_chars :: string where
  "base64_chars = ''ABCDEFGHIJKLMNOPQRSTUVWXYZ'' @ ''abcdefghijklmnopqrstuvwxyz'' @ ''0123456789+/''"

definition isalnum :: "char \<Rightarrow> bool" where
  "isalnum c = (let n = (of_char c :: nat) in
     48 \<le> n \<and> n \<le> 57 \<or> 65 \<le> n \<and> n \<le> 90 \<or> 97 \<le> n \<and> n \<le> 122)"

definition is_base64 :: "char \<Rightarrow> bool" where
  "is_base64 c \<longleftrightarrow> isalnum c \<or> c = CHR ''+'' \<or> c = CHR ''/''"

text \<open>The sextets of a group of three bytes.\<close>

definition sextet0 :: "byte \<Rightarrow> byte" where
  "sextet0 a = drop_bit 2 (a AND 0xfc)"

definition sextet1 :: "byte \<Rightarrow> byte \<Rightarrow> byte" where
  "sextet1 a b = push_bit 4 (a AND 0x03) + drop_bit 4 (b AND 0xf0)"

definition sextet2 :: "byte \<Rightarrow> byte \<Rightarrow> byte" where
  "sextet2 b c = push_bit 2 (b AND 0x0f) + drop_bit 6 (c AND 0xc0)"

definition sextet3 :: "byte \<Rightarrow> byte" where
  "sextet3 c = c AND 0x3f"

definition base64_char :: "byte \<Rightarrow> char" where
  "base64_char s = base64_chars ! unat s"

text \<open>
  The encoding loop: \<open>grp\<close> holds the bytes of \<open>char_array_3\<close> filled so far, \<open>acc\<close> the output.
\<close>

fun encode_loop :: "bytes \<Rightarrow> bytes \<Rightarrow> string \<Rightarrow> string \<times> bytes" where
  "encode_loop [] grp acc = (acc, grp)"
| "encode_loop (x # xs) grp acc =
     (let grp = grp @ [x] in
      if length grp = 3
      then encode_loop xs [] (acc @ map base64_char
             [sextet0 (grp ! 0), sextet1 (grp ! 0) (grp ! 1), sextet2 (grp ! 1) (grp ! 2), sextet3 (grp ! 2)])
      else encode_loop xs grp acc)"

definition encode_bytes :: "bytes \<Rightarrow> string" where
  "encode_bytes buf =
     (case encode_loop buf [] '''' of (acc, grp) \<Rightarrow>
        if grp = [] then acc
        else let i = length grp; g = grp @ replicate (3 - i) 0 in
             acc @ map base64_char (take (i + 1) [sextet0 (g ! 0), sextet1 (g ! 0) (g ! 1), sextet2 (g ! 1) (g ! 2)])
                 @ replicate (3 - i) (CHR ''=''))"

text \<open>
  The number of bytes is kept in an \<open>int\<close>, which the loop counts down to zero. A negative number is
  counted down to the least \<open>int\<close> and past it, which is undefined; a buffer whose size is read as a
  negative number is longer than the bytes the loop takes until then.
\<close>

definition base64_encode :: "bytes \<Rightarrow> error + string" where
  "base64_encode buf =
     (let in_len = to_int32 (length buf) in
      if in_len < 0 then Inl (Undefined ''in_len counted below the least int'')
      else Inr (encode_bytes (take (nat in_len) buf)))"

fun find_char :: "string \<Rightarrow> char \<Rightarrow> nat" where
  "find_char [] c = 0"
| "find_char (x # xs) c = (if x = c then 0 else Suc (find_char xs c))"

text \<open>
  \<open>base64_chars.find\<close>, stored in an \<open>unsigned char\<close>; it is asked for characters of the alphabet
  only, so the case of a character that is not found does not arise.
\<close>

definition base64_index :: "char \<Rightarrow> byte" where
  "base64_index c = word_of_nat (find_char base64_chars c)"

definition octet0 :: "byte \<Rightarrow> byte \<Rightarrow> byte" where
  "octet0 p q = push_bit 2 p + drop_bit 4 (q AND 0x30)"

definition octet1 :: "byte \<Rightarrow> byte \<Rightarrow> byte" where
  "octet1 q r = push_bit 4 (q AND 0xf) + drop_bit 2 (r AND 0x3c)"

definition octet2 :: "byte \<Rightarrow> byte \<Rightarrow> byte" where
  "octet2 r s = push_bit 6 (r AND 0x3) + s"

fun decode_loop :: "string \<Rightarrow> string \<Rightarrow> bytes \<Rightarrow> bytes \<times> string" where
  "decode_loop [] grp acc = (acc, grp)"
| "decode_loop (x # xs) grp acc =
     (if x = CHR ''='' \<or> \<not> is_base64 x then (acc, grp)
      else let grp = grp @ [x] in
        if length grp = 4
        then let v = map base64_index grp in
             decode_loop xs [] (acc @ [octet0 (v ! 0) (v ! 1), octet1 (v ! 1) (v ! 2), octet2 (v ! 2) (v ! 3)])
        else decode_loop xs grp acc)"

text \<open>
  The tail of an incomplete group: of the two bytes computed, as many as the group determines are
  kept. The array elements past the group are not initialised in the code; they only reach a byte
  that is not kept, and are zero here.
\<close>

definition decode_string :: "string \<Rightarrow> bytes" where
  "decode_string encoded_string =
     (case decode_loop encoded_string '''' [] of (acc, grp) \<Rightarrow>
        if grp = '''' then acc
        else let i = length grp; v = map base64_index grp @ replicate (4 - i) 0 in
             acc @ take (i - 1) [octet0 (v ! 0) (v ! 1), octet1 (v ! 1) (v ! 2)])"

text \<open>
  The length is an \<open>int\<close> here too. Counting down from a negative number, the loop either meets a
  character that ends it or passes the least \<open>int\<close>.
\<close>

definition base64_decode :: "string \<Rightarrow> error + bytes" where
  "base64_decode encoded_string =
     (let in_len = to_int32 (length encoded_string) in
      if 0 \<le> in_len then Inr (decode_string (take (nat in_len) encoded_string))
      else if list_all (\<lambda>c. c \<noteq> CHR ''='' \<and> is_base64 c) (take (nat (in_len + 2147483648)) encoded_string)
      then Inl (Undefined ''in_len counted below the least int'')
      else Inr (decode_string encoded_string))"

definition ByteArrayToBase64EncodedString :: "bytes \<Rightarrow> error + string" where
  "ByteArrayToBase64EncodedString buf = base64_encode buf"

definition Base64EncodedStringToByteArray :: "string \<Rightarrow> error + bytes" where
  "Base64EncodedStringToByteArray encoded = base64_decode encoded"

section \<open>Masks and shifts\<close>

lemma mask_take:
  "a AND 0x03 = take_bit 2 a" "a AND 0x0f = take_bit 4 a" "a AND 0x3f = take_bit 6 (a :: byte)"
  by (simp_all add: take_bit_eq_mask mask_eq_exp_minus_1)

lemma byte_bit_less: "bit (a :: byte) n \<Longrightarrow> n < 8"
  using bit_imp_le_length [of a n] by simp

lemma byte_eqI:
  assumes "bit a 0 = bit b 0" "bit a 1 = bit b 1" "bit a 2 = bit b 2" "bit a 3 = bit b 3"
    "bit a 4 = bit b 4" "bit a 5 = bit b 5" "bit a 6 = bit b 6" "bit a 7 = bit (b :: byte) 7"
  shows "a = b"
proof (rule bit_word_eqI)
  fix n assume "n < LENGTH(8)"
  then consider "n = 0" | "n = 1" | "n = 2" | "n = 3" | "n = 4" | "n = 5" | "n = 6" | "n = 7" by fastforce
  then show "bit a n = bit b n" using assms by cases simp_all
qed

lemma byte_bits_above: "8 \<le> n \<Longrightarrow> \<not> bit (a :: byte) n"
  using byte_bit_less [of a n] by auto

lemma take_bit_bound: "take_bit k s = (s :: byte) \<Longrightarrow> unat s < 2 ^ k"
  by (metis unsigned_take_bit_eq take_bit_nat_less_exp)

lemma drop_mask:
  "drop_bit k m = (mask n :: byte) \<Longrightarrow> drop_bit k (a AND m) = take_bit n (drop_bit k a)"
  by (simp only: drop_bit_and take_bit_eq_mask)

lemma take_drop_all: "8 \<le> n + k \<Longrightarrow> take_bit n (drop_bit k (a :: byte)) = drop_bit k a"
  by (rule bit_word_eqI) (auto simp: bit_simps dest: byte_bit_less)

lemma mask_drop:
  "drop_bit 2 (a AND 0xfc) = drop_bit 2 (a :: byte)" "drop_bit 4 (a AND 0xf0) = drop_bit 4 a"
  "drop_bit 6 (a AND 0xc0) = drop_bit 6 a" "drop_bit 4 (a AND 0x30) = take_bit 2 (drop_bit 4 a)"
  "drop_bit 2 (a AND 0x3c) = take_bit 4 (drop_bit 2 a)"
proof -
  have "drop_bit 2 (0xfc :: byte) = mask 6" "drop_bit 4 (0xf0 :: byte) = mask 4"
      "drop_bit 6 (0xc0 :: byte) = mask 2" "drop_bit 4 (0x30 :: byte) = mask 2" "drop_bit 2 (0x3c :: byte) = mask 4"
    by (simp_all add: mask_eq_exp_minus_1)
  note drop_mask [OF this(1)] drop_mask [OF this(2)] drop_mask [OF this(3)] drop_mask [OF this(4)] drop_mask [OF this(5)]
  then show "drop_bit 2 (a AND 0xfc) = drop_bit 2 (a :: byte)" "drop_bit 4 (a AND 0xf0) = drop_bit 4 a"
      "drop_bit 6 (a AND 0xc0) = drop_bit 6 a" "drop_bit 4 (a AND 0x30) = take_bit 2 (drop_bit 4 a)"
      "drop_bit 2 (a AND 0x3c) = take_bit 4 (drop_bit 2 a)"
    by (simp_all only: take_drop_all numeral_plus_numeral) (simp_all add: take_drop_all)
qed

lemma byte_of_nibbles: "push_bit 4 (drop_bit 4 b) OR (b AND 0x0F) = (b :: byte)"
  unfolding mask_take by (rule bit_word_eqI) (auto simp: bit_simps)

section \<open>Hexadecimal round trip\<close>

lemma hex_digits_map: "map HexToNibble hexDigits = map Inr [0..<16]"
  by (simp add: HexToNibble_def hexDigits_def toupper_def upt_rec)

lemma HexToNibble_digit: "n < 16 \<Longrightarrow> HexToNibble (hexDigits ! n) = Inr n"
proof -
  assume n: "n < 16"
  have "length hexDigits = 16" by (simp add: hexDigits_def)
  then have "HexToNibble (hexDigits ! n) = map HexToNibble hexDigits ! n" using n by simp
  then show ?thesis using n by (simp add: hex_digits_map)
qed

lemma nibble_bounds: "unat (drop_bit 4 (b :: byte)) < 16" "unat (b AND 0x0F) < 16"
proof -
  have "take_bit 4 (drop_bit 4 b) = drop_bit 4 b" by (simp only: take_drop_all)
  from take_bit_bound [OF this] show "unat (drop_bit 4 b) < 16" by simp
  have "take_bit 4 (take_bit 4 b) = take_bit 4 b" by simp
  from take_bit_bound [OF this] show "unat (b AND 0x0F) < 16" unfolding mask_take by simp
qed

lemma HexToByte_hex: "HexToByte (hexDigits ! unat (drop_bit 4 b)) (hexDigits ! unat (b AND 0x0F)) = Inr b"
  using nibble_bounds [of b] by (simp add: HexToByte_def HexToNibble_digit byte_of_nibbles)

lemma hex_loop_encoded: "hex_loop (concat (map hex_of_byte bs)) = Inr bs"
  by (induction bs) (simp_all add: hex_of_byte_def HexToByte_hex)

lemma length_BinaryToHexString [simp]: "length (BinaryToHexString bs) = 2 * length bs"
  by (induction bs) (simp_all add: BinaryToHexString_def hex_of_byte_def)

lemma hex_roundtrip_eq: "HexStringToBinary (BinaryToHexString bs) = Inr bs"
  using hex_loop_encoded [of bs]
  by (simp add: HexStringToBinary_def) (simp add: BinaryToHexString_def)

text \<open>C27: the hexadecimal form of every byte array converts back to that array, and a string with an
  odd number of digits is refused with a value error.\<close>

theorem hex_roundtrip:
  "HexEncodedStringToByteArray (ByteArrayToHexEncodedString bs) = Inr bs
   \<and> (odd (length s) \<longrightarrow> HexEncodedStringToByteArray s = Inl (ValueError ''Hex encoded string is not an even length''))"
  by (simp add: HexEncodedStringToByteArray_def ByteArrayToHexEncodedString_def hex_roundtrip_eq)
    (auto simp: HexStringToBinary_def odd_iff_mod_2_eq_one)

theorem hex_roundtrip_witness:
  "HexEncodedStringToByteArray ''ABC'' = Inl (ValueError ''Hex encoded string is not an even length'')"
  using hex_roundtrip [of "[]" "''ABC''"] by simp

section \<open>Base64 round trip\<close>

lemma base64_alphabet:
  "length base64_chars = 64" "list_all (\<lambda>c. is_base64 c \<and> c \<noteq> CHR ''='') base64_chars"
  "map (find_char base64_chars) base64_chars = [0..<64]"
  by (simp_all add: base64_chars_def is_base64_def isalnum_def upt_rec)

lemma base64_char_props:
  assumes "unat s < 64"
  shows "is_base64 (base64_char s)" "base64_char s \<noteq> CHR ''=''" "base64_index (base64_char s) = s"
proof -
  have "base64_char s \<in> set base64_chars" using assms base64_alphabet(1) by (simp add: base64_char_def)
  then show "is_base64 (base64_char s)" "base64_char s \<noteq> CHR ''=''"
    using base64_alphabet(2) by (auto simp: list_all_iff)
  have "find_char base64_chars (base64_chars ! unat s) = map (find_char base64_chars) base64_chars ! unat s"
    using assms base64_alphabet(1) by (simp only: nth_map)
  also have "\<dots> = unat s" using assms by (simp add: base64_alphabet(3))
  finally show "base64_index (base64_char s) = s" by (simp add: base64_index_def base64_char_def)
qed

lemma sextet_or:
  "sextet0 a = drop_bit 2 a" "sextet1 a b = push_bit 4 (take_bit 2 a) OR drop_bit 4 b"
  "sextet2 b c = push_bit 2 (take_bit 4 b) OR drop_bit 6 c" "sextet3 c = take_bit 6 c"
  unfolding sextet0_def sextet1_def sextet2_def sextet3_def mask_take mask_drop
  by (simp_all only: refl)
    (rule disjunctive_add_eq_or, rule byte_eqI; simp add: bit_simps byte_bits_above)+

lemma octet_or:
  "octet0 p q = push_bit 2 p OR take_bit 2 (drop_bit 4 q)"
  "octet1 q r = push_bit 4 (take_bit 4 q) OR take_bit 4 (drop_bit 2 r)"
proof -
  have f: "q AND 0xf = take_bit 4 q" using mask_take(2) by simp
  show "octet0 p q = push_bit 2 p OR take_bit 2 (drop_bit 4 q)"
    "octet1 q r = push_bit 4 (take_bit 4 q) OR take_bit 4 (drop_bit 2 r)"
    unfolding octet0_def octet1_def mask_drop f
    by (rule disjunctive_add_eq_or, rule byte_eqI; simp add: bit_simps)+
qed

lemma octet2_or: "octet2 (sextet2 b c) (sextet3 c) = push_bit 6 (take_bit 2 (sextet2 b c)) OR sextet3 c"
proof -
  have f: "q AND 0x3 = take_bit 2 q" for q :: byte using mask_take(1) by simp
  show ?thesis
    unfolding octet2_def f by (rule disjunctive_add_eq_or, rule byte_eqI) (simp_all add: bit_simps sextet_or)
qed

lemma octets:
  "octet0 (sextet0 a) (sextet1 a b) = a" "octet1 (sextet1 a b) (sextet2 b c) = b"
  "octet2 (sextet2 b c) (sextet3 c) = c"
  unfolding octet2_or unfolding octet_or sextet_or
  by (rule byte_eqI; simp add: bit_simps byte_bits_above)+

lemma sextet_bounds:
  "unat (sextet0 a) < 64" "unat (sextet1 a b) < 64" "unat (sextet2 a b) < 64" "unat (sextet3 a) < 64"
proof -
  have "take_bit 6 (sextet0 a) = sextet0 a" "take_bit 6 (sextet1 a b) = sextet1 a b"
    "take_bit 6 (sextet2 a b) = sextet2 a b" "take_bit 6 (sextet3 a) = sextet3 a"
    unfolding sextet_or by (rule byte_eqI; simp add: bit_simps byte_bits_above)+
  from this [THEN take_bit_bound]
  show "unat (sextet0 a) < 64" "unat (sextet1 a b) < 64" "unat (sextet2 a b) < 64" "unat (sextet3 a) < 64"
    by simp_all
qed

lemmas sextet_char = base64_char_props [OF sextet_bounds(1)] base64_char_props [OF sextet_bounds(2)]
  base64_char_props [OF sextet_bounds(3)] base64_char_props [OF sextet_bounds(4)]

text \<open>The encoding as a recursion over groups of three, and the loops against it.\<close>

lemma encode_loop_group:
  "encode_loop (a # b # c # xs) [] acc =
   encode_loop xs [] (acc @ map base64_char [sextet0 a, sextet1 a b, sextet2 b c, sextet3 c])"
  by simp

lemma decode_loop_group:
  "decode_loop (map base64_char [sextet0 a, sextet1 a b, sextet2 b c, sextet3 c] @ s) [] acc =
   decode_loop s [] (acc @ [a, b, c])"
  by (simp add: sextet_char octets)

lemma base64_group:
  "encode_bytes (a # b # c # xs) = map base64_char [sextet0 a, sextet1 a b, sextet2 b c, sextet3 c] @ encode_bytes xs"
proof -
  have acc: "encode_loop xs grp (p @ acc) = (case encode_loop xs grp acc of (r, g) \<Rightarrow> (p @ r, g))" for xs grp p acc
    by (induction xs grp acc rule: encode_loop.induct) (auto simp: Let_def split: if_splits)
  show ?thesis
    unfolding encode_bytes_def encode_loop_group
    using acc [of xs "[]" "map base64_char [sextet0 a, sextet1 a b, sextet2 b c, sextet3 c]" "[]"]
    by (simp split: prod.splits) (auto simp: Let_def)
qed

lemma decode_loop_acc: "decode_loop s grp (p @ acc) = (case decode_loop s grp acc of (r, g) \<Rightarrow> (p @ r, g))"
  by (induction s grp acc rule: decode_loop.induct) (auto simp: Let_def split: if_splits)

lemma decode_string_group:
  "decode_string (map base64_char [sextet0 a, sextet1 a b, sextet2 b c, sextet3 c] @ s) = [a, b, c] @ decode_string s"
  unfolding decode_string_def decode_loop_group append_Nil
  using decode_loop_acc [of s "[]" "[a, b, c]" "[]"]
  by (simp split: prod.splits) (auto simp: Let_def)

lemma base64_tail_1: "decode_string (encode_bytes [a]) = [a]"
  using octets(1) [of a 0]
  by (simp add: encode_bytes_def decode_string_def Let_def sextet_char numeral_2_eq_2)

lemma base64_tail_2: "decode_string (encode_bytes [a, b]) = [a, b]"
  using octets(1) [of a b] octets(2) [of a b 0]
  by (simp add: encode_bytes_def decode_string_def Let_def sextet_char)

lemma triples_induct:
  assumes "P []" and "\<And>a. P [a]" and "\<And>a b. P [a, b]"
    and "\<And>a b c xs. P xs \<Longrightarrow> P (a # b # c # xs)"
  shows "P (bs :: bytes)"
proof (induction bs rule: length_induct)
  case (1 bs)
  consider "bs = []" | a where "bs = [a]" | a b where "bs = [a, b]" | a b c xs where "bs = a # b # c # xs"
    by (cases bs rule: remdups_adj.cases) (metis neq_Nil_conv)+
  then show ?case by cases (use 1 assms in simp_all)
qed

lemma decode_encode_bytes: "decode_string (encode_bytes bs) = bs"
proof (induction bs rule: triples_induct)
  case 1
  show ?case by (simp add: encode_bytes_def decode_string_def)
next
  case (4 a b c xs)
  then show ?case by (simp only: base64_group decode_string_group) simp
qed (simp_all only: base64_tail_1 base64_tail_2)

text \<open>Every character of an encoding is in the alphabet or a padding character.\<close>

definition base64_string :: "string \<Rightarrow> bool" where
  "base64_string s = list_all (\<lambda>c. is_base64 c \<or> c = CHR ''='') s"

lemma base64_string_encode: "base64_string (encode_bytes bs)"
proof (induction bs rule: triples_induct)
  case (4 a b c xs)
  then show ?case by (simp only: base64_group) (simp add: base64_string_def sextet_char)
qed (simp_all add: base64_string_def encode_bytes_def Let_def sextet_char numeral_2_eq_2)

lemma length_encode_bytes: "length (encode_bytes bs) = 4 * ((length bs + 2) div 3)"
proof (induction bs rule: triples_induct)
  case (4 a b c xs)
  have "Suc (Suc (Suc (length xs + 2))) div 3 = Suc ((length xs + 2) div 3)" by simp
  with 4 show ?case by (simp only: base64_group) simp
qed (simp_all add: encode_bytes_def Let_def)

text \<open>Arrays whose encoding has a length that is an \<open>int\<close>.\<close>

definition encodable :: "bytes \<Rightarrow> bool" where
  "encodable bs \<longleftrightarrow> 4 * ((length bs + 2) div 3) < 2147483648"

lemma encodable_small: "length bs < 1073741824 \<Longrightarrow> encodable bs"
  unfolding encodable_def by linarith

lemma encode_run: "encodable bs \<Longrightarrow> ByteArrayToBase64EncodedString bs = Inr (encode_bytes bs)"
proof -
  assume "encodable bs"
  then have "length bs < 2147483648" unfolding encodable_def by linarith
  then show ?thesis by (simp add: ByteArrayToBase64EncodedString_def base64_encode_def to_int32_id)
qed

lemma decode_run: "encodable bs \<Longrightarrow> Base64EncodedStringToByteArray (encode_bytes bs) = Inr bs"
  by (simp add: Base64EncodedStringToByteArray_def base64_decode_def to_int32_id length_encode_bytes
      encodable_def decode_encode_bytes)

text \<open>A buffer of \<open>2^32\<close> bytes has the length zero.\<close>

lemma base64_encode_wraps: "length bs = 4294967296 \<Longrightarrow> ByteArrayToBase64EncodedString bs = Inr ''''"
  by (simp add: ByteArrayToBase64EncodedString_def base64_encode_def to_int32_wraps encode_bytes_def)

text \<open>C26: a byte array whose Base64 form is shorter than 2 GB, the greatest length the code's int can
  hold, is encoded, and decoding the result gives the array back.\<close>

theorem base64_roundtrip:
  assumes "4 * ((length bs + 2) div 3) < 2147483648"
  shows "\<exists>s. ByteArrayToBase64EncodedString bs = Inr s \<and> length s = 4 * ((length bs + 2) div 3)
    \<and> Base64EncodedStringToByteArray s = Inr bs"
  using assms encode_run [of bs] decode_run [of bs] by (auto simp: encodable_def length_encode_bytes)

theorem base64_roundtrip_witness:
  "\<exists>s. ByteArrayToBase64EncodedString [1, 2, 3, 255] = Inr s \<and> length s = 8
    \<and> Base64EncodedStringToByteArray s = Inr [1, 2, 3, 255]"
  using base64_roundtrip [of "[1, 2, 3, 255]"] by simp

end
