(* ===== verification/Data_Node.thy ===== *)
theory Data_Node
  imports Block_Offset Sebio Encodings
begin

text \<open>
  Data nodes (\<open>common/state/data_node.h\<close>, \<open>data_node.cpp\<close>): the 8 KB blocks the key-value
  store writes its bytes into, each with an eight-byte header (its block number and the number
  of bytes not yet used at its end), and \<open>advance_block_offset\<close>, the arithmetic that moves a
  block offset over the bytes of consecutive data nodes.
\<close>

section \<open>Data and operations\<close>

definition FIXED_DATA_NODE_BYTE_SIZE :: nat where
  "FIXED_DATA_NODE_BYTE_SIZE = 8192"

definition data_begin_index :: nat where
  "data_begin_index = 4 + 4"

definition data_end_index :: nat where
  "data_end_index = FIXED_DATA_NODE_BYTE_SIZE"

lemma data_begin_index_eq [simp]: "data_begin_index = 8"
  by (simp add: data_begin_index_def)

lemma data_end_index_eq [simp]: "data_end_index = 8192"
  by (simp add: data_end_index_def FIXED_DATA_NODE_BYTE_SIZE_def)

record data_node =
  dn_data :: bytes
  dn_original_id :: bytes
  dn_block_num :: nat
  dn_free_bytes :: nat

definition make_offset :: "nat \<Rightarrow> nat \<Rightarrow> bytes" where
  "make_offset bn bytes_off = le_bytes 4 bn @ le_bytes 4 bytes_off"

definition new_data_node :: "nat \<Rightarrow> data_node" where
  "new_data_node bn =
     \<lparr>dn_data = replicate data_end_index 0, dn_original_id = [], dn_block_num = bn,
      dn_free_bytes = data_end_index - data_begin_index\<rparr>"

definition cursor :: "data_node \<Rightarrow> block_offset_t" where
  "cursor dn = \<lparr>block_num = dn_block_num dn, bytes = u32_sub data_end_index (dn_free_bytes dn)\<rparr>"

definition serialize_data_header :: "data_node \<Rightarrow> data_node" where
  "serialize_data_header dn =
     dn\<lparr>dn_data := overwrite (dn_data dn) 0 (make_offset (dn_block_num dn) (dn_free_bytes dn))\<rparr>"

definition decrypt_and_deserialize_data :: "openssl \<Rightarrow> bytes \<Rightarrow> bytes \<Rightarrow> (data_node, unit) m" where
  "decrypt_and_deserialize_data ssl inEncryptedData state_encryption_key =
     bindM (liftE (DecryptMessage ssl state_encryption_key inEncryptedData)) (\<lambda>pt.
     bindM (modify (dn_data_update (\<lambda>_. pt))) (\<lambda>_.
     bindM (liftE (serialized_offset_to_block_num pt)) (\<lambda>bn.
     bindM (modify (dn_block_num_update (\<lambda>_. bn))) (\<lambda>_.
     bindM (liftE (serialized_offset_to_bytes pt)) (\<lambda>fb.
     modify (dn_free_bytes_update (\<lambda>_. fb)))))))"

definition deserialize_original_encrypted_data_id :: "bytes \<Rightarrow> data_node \<Rightarrow> data_node" where
  "deserialize_original_encrypted_data_id bid dn = dn\<lparr>dn_original_id := bid\<rparr>"

definition consume_free_space :: "nat \<Rightarrow> (data_node, unit) m" where
  "consume_free_space len dn =
     (if len > dn_free_bytes dn
      then throw (RuntimeError ''cannot consume more bytes than available free space'') dn
      else Some (Inr (), dn\<lparr>dn_free_bytes := dn_free_bytes dn - len\<rparr>))"

definition advance_block_offset :: "block_offset_t \<Rightarrow> nat \<Rightarrow> block_offset_t" where
  "advance_block_offset bo len =
     (let len = u32 len;
          block_data_len = data_end_index - data_begin_index;
          blocks_to_add = len div block_data_len;
          bn = u32 (block_num bo + blocks_to_add);
          len = len - blocks_to_add * block_data_len;
          b = u32 (bytes bo + len)
      in if b \<ge> data_end_index
         then \<lparr>block_num = u32 (bn + 1), bytes = data_begin_index + (b - data_end_index)\<rparr>
         else \<lparr>block_num = bn, bytes = b\<rparr>)"

definition write_at :: "bytes \<Rightarrow> nat \<Rightarrow> block_offset_t \<Rightarrow> (data_node, nat) m" where
  "write_at buffer write_from bo_at dn =
     (if dn_block_num dn \<noteq> block_num bo_at then throw (RuntimeError ''write, bad block num'') dn
      else
        let cur = bytes bo_at;
            buffer_size = u32_sub (length buffer) write_from;
            writeable_bytes = u32_sub data_end_index cur;
            bytes_to_write = (if buffer_size \<le> writeable_bytes then buffer_size else writeable_bytes)
        in if write_from + bytes_to_write > length buffer \<or> cur + bytes_to_write > length (dn_data dn)
           then throw (Undefined ''write_at copies past the end'') dn
           else
             let data = overwrite (dn_data dn) cur (slice buffer write_from bytes_to_write);
                 cur = u32 (cur + bytes_to_write);
                 old_cursor = u32_sub data_end_index (dn_free_bytes dn);
                 free_bytes = (if old_cursor \<le> cur then u32_sub data_end_index cur else dn_free_bytes dn)
             in Some (Inr bytes_to_write, dn\<lparr>dn_data := data, dn_free_bytes := free_bytes\<rparr>))"

definition read_at :: "block_offset_t \<Rightarrow> nat \<Rightarrow> (data_node, bytes) m" where
  "read_at bo_at len dn =
     (if dn_block_num dn \<noteq> block_num bo_at then throw (RuntimeError ''read, bad block num'') dn
      else
        let bytes_to_endof_data = u32_sub data_end_index (bytes bo_at);
            bytes_to_read = (if len \<le> bytes_to_endof_data then len else bytes_to_endof_data)
        in if bytes bo_at + bytes_to_read > length (dn_data dn)
           then throw (Undefined ''read_at reads past the end'') dn
           else Some (Inr (slice (dn_data dn) (bytes bo_at) bytes_to_read), dn))"

text \<open>
  Loading and unloading act on a data node and the world outside together. The eviction writes the
  new identifier into the node before it hands the block to the host, which may fail.
\<close>

definition dn_load :: "openssl \<Rightarrow> bytes \<Rightarrow> (data_node \<times> env, unit) m" where
  "dn_load ssl state_encryption_key =
     bindM (get (\<lambda>(dn, _). dn_original_id dn)) (\<lambda>bid.
     bindM (zoom snd (\<lambda>e (dn, _). (dn, e)) (sebio_fetch ssl bid SEBIO_NO_CRYPTO)) (\<lambda>(r, encrypted_buffer).
     bindM (throwIf (r \<noteq> STATE_SUCCESS) (ValueError (''data node load, sebio returned an error-'' @ ByteArrayToHexEncodedString bid))) (\<lambda>_.
     zoom fst (\<lambda>dn (_, e). (dn, e))
       (decrypt_and_deserialize_data ssl encrypted_buffer state_encryption_key))))"

definition dn_unload :: "openssl \<Rightarrow> bytes \<Rightarrow> (data_node \<times> env, bytes) m" where
  "dn_unload ssl state_encryption_key =
     bindM (modify (\<lambda>(dn, e). (serialize_data_header dn, e))) (\<lambda>_.
     bindM (get (\<lambda>(dn, _). dn_data dn)) (\<lambda>data.
     bindM (zoom snd (\<lambda>e (dn, _). (dn, e)) (enclave_encrypt ssl state_encryption_key data)) (\<lambda>baEncryptedData.
     bindM (modify (\<lambda>(dn, e). (dn\<lparr>dn_original_id := ComputeMessageHash ssl baEncryptedData\<rparr>, e))) (\<lambda>_.
     bindM (zoom snd (\<lambda>e (dn, _). (dn, e)) (sebio_evict ssl baEncryptedData SEBIO_NO_CRYPTO)) (\<lambda>(r, bid).
     bindM (throwIf (r \<noteq> STATE_SUCCESS) (ValueError ''data node unload, sebio returned an error'')) (\<lambda>_.
     ret bid))))))"

section \<open>Linear addresses\<close>

text \<open>
  The bytes of consecutive data nodes, headers left out, form one array. \<open>lin\<close> is the position
  of a block offset in it. The end of one block and the start of the data of the next are the
  same position; an offset is canonical when it is not the end of a block.
\<close>

definition lin :: "block_offset_t \<Rightarrow> nat" where
  "lin bo = block_num bo * 8184 + (bytes bo - 8)"

definition wf_offset :: "block_offset_t \<Rightarrow> bool" where
  "wf_offset bo \<longleftrightarrow> 8 \<le> bytes bo \<and> bytes bo \<le> 8192"

definition canonical_offset :: "block_offset_t \<Rightarrow> bool" where
  "canonical_offset bo \<longleftrightarrow> 8 \<le> bytes bo \<and> bytes bo < 8192"

definition offset_at :: "nat \<Rightarrow> block_offset_t" where
  "offset_at a = \<lparr>block_num = a div 8184, bytes = 8 + a mod 8184\<rparr>"

text \<open>Every address in use lies in a block whose number is an \<open>unsigned int\<close>.\<close>

definition addr_limit :: nat where
  "addr_limit = 4294967296 * 8184"

lemma canonical_wf: "canonical_offset bo \<Longrightarrow> wf_offset bo"
  by (simp add: canonical_offset_def wf_offset_def)

lemma lin_offset_at [simp]: "lin (offset_at a) = a"
  by (simp add: lin_def offset_at_def)

lemma canonical_offset_at [simp]: "canonical_offset (offset_at a)"
  by (simp add: canonical_offset_def offset_at_def)

lemma offset_at_lin: "canonical_offset bo \<Longrightarrow> offset_at (lin bo) = bo"
proof -
  assume c: "canonical_offset bo"
  then obtain k where k: "bytes bo = 8 + k" "k < 8184"
    using le_Suc_ex [of 8 "bytes bo"] by (auto simp: canonical_offset_def)
  then show ?thesis by (cases bo) (simp add: lin_def offset_at_def)
qed

lemma offset_at_inject [simp]: "offset_at a = offset_at b \<longleftrightarrow> a = b"
  by (metis lin_offset_at)

lemma block_num_offset_at [simp]: "block_num (offset_at a) = a div 8184"
  by (simp add: offset_at_def)

lemma bytes_offset_at [simp]: "bytes (offset_at a) = 8 + a mod 8184"
  by (simp add: offset_at_def)

lemma canonical_block_num: "canonical_offset bo \<Longrightarrow> lin bo div 8184 = block_num bo"
  by (auto simp: canonical_offset_def lin_def)

lemma advance_block_offset_lin:
  assumes "wf_offset bo" and "lin bo + n < addr_limit" and "n < 4294967296"
  shows "lin (advance_block_offset bo n) = lin bo + n \<and> canonical_offset (advance_block_offset bo n)"
proof -
  define q where "q = n div 8184"
  define r where "r = n mod 8184"
  have n: "n = q * 8184 + r" and r: "r < 8184" by (simp_all add: q_def r_def)
  have w: "8 \<le> bytes bo" "bytes bo \<le> 8192" using assms(1) by (auto simp: wf_offset_def)
  have lim: "block_num bo * 8184 + (bytes bo - 8) + (q * 8184 + r) < 4294967296 * 8184"
    using assms(2) n by (simp add: lin_def addr_limit_def)
  then have "(block_num bo + q) * 8184 < 4294967296 * 8184" by (simp add: algebra_simps)
  then have bq: "block_num bo + q < 4294967296" by simp
  show ?thesis
  proof (cases "bytes bo + r \<ge> 8192")
    case True
    have "(block_num bo + q + 1) * 8184 + (bytes bo + r - 8192) =
        block_num bo * 8184 + (bytes bo - 8) + (q * 8184 + r)"
      using w True by (simp add: algebra_simps)
    with lim have "(block_num bo + q + 1) * 8184 < 4294967296 * 8184" by linarith
    then have bq1: "block_num bo + q + 1 < 4294967296" by simp
    have "advance_block_offset bo n = \<lparr>block_num = block_num bo + q + 1, bytes = 8 + (bytes bo + r - 8192)\<rparr>"
      using True w r bq bq1
      by (simp add: advance_block_offset_def Let_def u32_id [OF assms(3)] u32_id minus_div_mult_eq_mod q_def r_def)
    then show ?thesis
      using True w r n by (auto simp: lin_def canonical_offset_def)
  next
    case False
    have "advance_block_offset bo n = \<lparr>block_num = block_num bo + q, bytes = bytes bo + r\<rparr>"
      using False w r bq
      by (simp add: advance_block_offset_def Let_def u32_id [OF assms(3)] u32_id minus_div_mult_eq_mod q_def r_def)
    then show ?thesis
      using False w r n by (simp add: lin_def canonical_offset_def)
  qed
qed

lemma advance_offset_at:
  assumes "wf_offset bo" and "lin bo + n < addr_limit" and "n < 4294967296"
  shows "advance_block_offset bo n = offset_at (lin bo + n)"
  using advance_block_offset_lin [OF assms] offset_at_lin by metis

lemma advance_u32: "advance_block_offset bo (u32 n) = advance_block_offset bo n"
  by (simp add: advance_block_offset_def u32_def)

text \<open>C20: advancing a block offset over n bytes, n taken as the unsigned int it is in the code, moves
  it n positions in the array of data bytes, across as many blocks as that takes, and the result
  points at a data byte, never at a header and never at the end of a block, provided the position
  lies in a block with a 32-bit number.\<close>

theorem advance_block_offset_linear:
  assumes "wf_offset bo" and "lin bo + u32 n < addr_limit"
  shows "lin (advance_block_offset bo n) = lin bo + u32 n
    \<and> data_begin_index \<le> bytes (advance_block_offset bo n)
    \<and> bytes (advance_block_offset bo n) < data_end_index"
  using advance_block_offset_lin [OF assms u32_less] by (auto simp: canonical_offset_def advance_u32)

theorem advance_block_offset_linear_witness:
  "lin (advance_block_offset \<lparr>block_num = 2, bytes = 8190\<rparr> 20000) = lin \<lparr>block_num = 2, bytes = 8190\<rparr> + 20000"
  using advance_block_offset_linear [of "\<lparr>block_num = 2, bytes = 8190\<rparr>" 20000]
  by (simp add: wf_offset_def lin_def addr_limit_def u32_def)

text \<open>C29: advancing twice is advancing once by the sum, where the sum is an unsigned int that does not
  wrap; a sum that wraps to zero leaves the offset at the position it has.\<close>

theorem advance_block_offset_add:
  assumes "wf_offset bo" and "lin bo + m + n < addr_limit" and "m + n < 4294967296"
  shows "advance_block_offset (advance_block_offset bo m) n = advance_block_offset bo (m + n)
    \<and> lin (advance_block_offset bo 4294967296) = lin bo"
proof -
  from assms have "lin bo + m < addr_limit" "m < 4294967296" by simp_all
  note m = advance_block_offset_lin [OF assms(1) this]
  have "lin (advance_block_offset bo 4294967296) = lin bo"
    using advance_block_offset_lin [OF assms(1), of 0] assms advance_u32 [of bo 4294967296] by (simp add: u32_def)
  then show ?thesis
    using m assms advance_offset_at [of "advance_block_offset bo m" n] advance_offset_at [of bo "m + n"]
    by (simp add: canonical_wf add.assoc)
qed

theorem advance_block_offset_add_witness:
  "advance_block_offset (advance_block_offset \<lparr>block_num = 0, bytes = 8\<rparr> 8184) 10
     = advance_block_offset \<lparr>block_num = 0, bytes = 8\<rparr> (8184 + 10)"
  using advance_block_offset_add [of "\<lparr>block_num = 0, bytes = 8\<rparr>" 8184 10]
  by (simp add: wf_offset_def lin_def addr_limit_def)

section \<open>Reading and writing one data node\<close>

definition wf_data_node :: "data_node \<Rightarrow> bool" where
  "wf_data_node dn \<longleftrightarrow> length (dn_data dn) = 8192 \<and> dn_free_bytes dn \<le> 8184
     \<and> dn_block_num dn < 4294967296"

lemma wf_new_data_node: "bn < 4294967296 \<Longrightarrow> wf_data_node (new_data_node bn)"
  by (simp add: wf_data_node_def new_data_node_def)

lemma new_data_node_sel [simp]:
  "dn_block_num (new_data_node bn) = bn" "dn_free_bytes (new_data_node bn) = 8184"
  "dn_data (new_data_node bn) = replicate 8192 0"
  by (simp_all add: new_data_node_def)

lemma cursor_eq: "wf_data_node dn \<Longrightarrow>
   cursor dn = \<lparr>block_num = dn_block_num dn, bytes = 8192 - dn_free_bytes dn\<rparr>"
  by (simp add: wf_data_node_def cursor_def u32_sub_id)

lemma write_at_run:
  assumes "wf_data_node dn" and "block_num bo = dn_block_num dn" and "wf_offset bo"
    and "from \<le> length buf" and "length buf < 4294967296"
    and n: "n = min (length buf - from) (8192 - bytes bo)"
  shows "write_at buf from bo dn = Some (Inr n,
     dn\<lparr>dn_data := overwrite (dn_data dn) (bytes bo) (slice buf from n),
        dn_free_bytes := min (dn_free_bytes dn) (8192 - (bytes bo + n))\<rparr>)"
proof -
  have sub: "u32_sub (length buf) from = length buf - from" "u32_sub 8192 (bytes bo) = 8192 - bytes bo"
      "u32_sub 8192 (dn_free_bytes dn) = 8192 - dn_free_bytes dn"
    using assms by (simp_all add: u32_sub_id wf_offset_def wf_data_node_def)
  have le: "bytes bo + n \<le> 8192" "from + n \<le> length buf" "bytes bo \<le> 8192" "dn_free_bytes dn \<le> 8192"
    using assms by (auto simp: wf_offset_def wf_data_node_def)
  then have cur: "u32 (bytes bo + n) = bytes bo + n" "u32_sub 8192 (bytes bo + n) = 8192 - (bytes bo + n)"
    by (simp_all add: u32_id u32_sub_id)
  have btw: "(if length buf - from \<le> 8192 - bytes bo then length buf - from else 8192 - bytes bo) = n"
    using n by simp
  have "(if 8192 - dn_free_bytes dn \<le> bytes bo + n then 8192 - (bytes bo + n) else dn_free_bytes dn)
      = min (dn_free_bytes dn) (8192 - (bytes bo + n))"
    using le by auto
  then show ?thesis
    unfolding write_at_def Let_def data_end_index_eq sub btw cur
    using assms(1,2) le by (simp add: wf_data_node_def)
qed

lemma write_at_wf:
  assumes "wf_data_node dn" and "wf_offset bo" and "from \<le> length buf"
    and "n = min (length buf - from) (8192 - bytes bo)"
  shows "wf_data_node (dn\<lparr>dn_data := overwrite (dn_data dn) (bytes bo) (slice buf from n),
        dn_free_bytes := min (dn_free_bytes dn) (8192 - (bytes bo + n))\<rparr>)"
proof -
  have "length (slice buf from n) = n" "bytes bo + n \<le> 8192"
    using assms(2,3,4) by (auto simp: wf_offset_def)
  then show ?thesis using assms(1) by (auto simp: wf_data_node_def)
qed

lemma read_at_run:
  assumes "wf_data_node dn" and "block_num bo = dn_block_num dn" and "wf_offset bo"
    and n: "n = min len (8192 - bytes bo)"
  shows "read_at bo len dn = Some (Inr (slice (dn_data dn) (bytes bo) n), dn)"
proof -
  have sub: "u32_sub 8192 (bytes bo) = 8192 - bytes bo"
    using assms by (simp add: u32_sub_id wf_offset_def)
  have btr: "(if len \<le> 8192 - bytes bo then len else 8192 - bytes bo) = n"
    using n by simp
  have le: "bytes bo + n \<le> 8192" using assms by (auto simp: wf_offset_def)
  show ?thesis
    using assms(1,2) le by (simp add: read_at_def Let_def sub btr wf_data_node_def)
qed

section \<open>Unloading and loading\<close>

text \<open>The plaintext a data node is unloaded as: its header, brought up to date, and its data bytes.\<close>

definition dn_image :: "data_node \<Rightarrow> bytes" where
  "dn_image dn = make_offset (dn_block_num dn) (dn_free_bytes dn) @ drop 8 (dn_data dn)"

lemma length_make_offset [simp]: "length (make_offset a b) = 8"
  by (simp add: make_offset_def)

lemma length_dn_image: "wf_data_node dn \<Longrightarrow> length (dn_image dn) = 8192"
  by (simp add: dn_image_def wf_data_node_def)

lemma dn_image_nonempty [simp]: "dn_image dn \<noteq> []"
proof
  assume "dn_image dn = []"
  then have "length (dn_image dn) = 0" by simp
  then show False by (simp add: dn_image_def)
qed

lemma encryptable_image: "wf_data_node dn \<Longrightarrow> encryptable (dn_image dn)"
  by (simp add: encryptable_def length_dn_image)

lemma serialize_data_header_eq:
  "wf_data_node dn \<Longrightarrow> serialize_data_header dn = dn\<lparr>dn_data := dn_image dn\<rparr>"
  by (simp add: serialize_data_header_def dn_image_def overwrite_def)

lemma image_header:
  assumes "bn < 4294967296" and "fb < 4294967296"
  shows "serialized_offset_to_block_num (make_offset bn fb @ rest) = Inr bn"
    and "serialized_offset_to_bytes (make_offset bn fb @ rest) = Inr fb"
  using assms
  by (simp_all add: serialized_offset_to_block_num_def serialized_offset_to_bytes_def make_offset_def
      offset_size_def)

lemma dn_unload_run:
  assumes "gcm_correct ssl" and "rand_correct ssl" and "length key = SYM_KEY_LEN" and "wf_data_node dn"
    and "ocalls_ok e"
  obtains ct where
    "dn_unload ssl key (dn, e) = Some (Inr (evp_sha256 ssl ct),
       (dn\<lparr>dn_data := dn_image dn, dn_original_id := evp_sha256 ssl ct\<rparr>,
        host_put (evp_sha256 ssl ct) ct (e\<lparr>env_draws := Suc (env_draws e)\<rparr>)))"
    and "DecryptMessage ssl key ct = Inr (dn_image dn)"
proof -
  obtain ct where ct: "enclave_encrypt ssl key (dn_image dn) e = Some (Inr ct, e\<lparr>env_draws := Suc (env_draws e)\<rparr>)"
      "DecryptMessage ssl key ct = Inr (dn_image dn)"
    using enclave_encrypt_run [OF assms(1-3) encryptable_image [OF assms(4)]] .
  show ?thesis
  proof
    show "DecryptMessage ssl key ct = Inr (dn_image dn)" by (rule ct(2))
    show "dn_unload ssl key (dn, e) = Some (Inr (evp_sha256 ssl ct),
       (dn\<lparr>dn_data := dn_image dn, dn_original_id := evp_sha256 ssl ct\<rparr>,
        host_put (evp_sha256 ssl ct) ct (e\<lparr>env_draws := Suc (env_draws e)\<rparr>)))"
      using ct(1) assms(4,5)
      by (simp add: dn_unload_def bindM_def modify_def get_def zoom_def sebio_evict_run
          serialize_data_header_eq throwIf_def ret_def ComputeMessageHash_def)
  qed
qed

lemma dn_load_run:
  assumes "ocalls_ok e" and "env_store e (dn_original_id dn) = Some ct" and "evp_sha256 ssl ct = dn_original_id dn"
    and "DecryptMessage ssl key ct = Inr (make_offset bn fb @ payload)"
    and "bn < 4294967296" and "fb < 4294967296"
  shows "dn_load ssl key (dn, e) = Some (Inr (),
    (dn\<lparr>dn_data := make_offset bn fb @ payload, dn_block_num := bn, dn_free_bytes := fb\<rparr>, e))"
  using assms
  by (simp add: dn_load_def bindM_def modify_def get_def zoom_def sebio_fetch_run throwIf_def ret_def
      decrypt_and_deserialize_data_def liftE_def image_header)

text \<open>C19: a data node that is unloaded under a 16-byte key and loaded into any cache slot under the
  identifier the unload returned has the same block number, the same amount of free space and the
  same data bytes as before.\<close>

theorem data_node_unload_load:
  assumes "gcm_correct ssl" and "rand_correct ssl" and "length key = SYM_KEY_LEN" and "wf_data_node dn"
    and "ocalls_ok e"
  shows "\<exists>bid dn1 e1 dn2. dn_unload ssl key (dn, e) = Some (Inr bid, (dn1, e1))
     \<and> dn_load ssl key (deserialize_original_encrypted_data_id bid slot, e1) = Some (Inr (), (dn2, e1))
     \<and> dn_block_num dn2 = dn_block_num dn \<and> dn_free_bytes dn2 = dn_free_bytes dn
     \<and> drop data_begin_index (dn_data dn2) = drop data_begin_index (dn_data dn)"
proof -
  obtain ct where un: "dn_unload ssl key (dn, e) = Some (Inr (evp_sha256 ssl ct),
       (dn\<lparr>dn_data := dn_image dn, dn_original_id := evp_sha256 ssl ct\<rparr>,
        host_put (evp_sha256 ssl ct) ct (e\<lparr>env_draws := Suc (env_draws e)\<rparr>)))"
    and dec: "DecryptMessage ssl key ct = Inr (dn_image dn)"
    using dn_unload_run [OF assms] .
  have "dn_block_num dn < 4294967296" "dn_free_bytes dn < 4294967296"
    using assms(4) by (simp_all add: wf_data_node_def)
  from dn_load_run [OF _ _ _ dec [unfolded dn_image_def] this,
      of "host_put (evp_sha256 ssl ct) ct (e\<lparr>env_draws := Suc (env_draws e)\<rparr>)"
         "deserialize_original_encrypted_data_id (evp_sha256 ssl ct) slot"]
  show ?thesis
    using un assms(5) by (simp add: deserialize_original_encrypted_data_id_def)
qed

theorem data_node_unload_load_witness:
  "\<exists>bid dn1 e1 dn2. dn_unload plain_openssl (replicate 16 0) (new_data_node 3, good_env)
        = Some (Inr bid, (dn1, e1))
     \<and> dn_load plain_openssl (replicate 16 0) (deserialize_original_encrypted_data_id bid (new_data_node 0), e1)
        = Some (Inr (), (dn2, e1)) \<and> dn_block_num dn2 = 3"
  using data_node_unload_load [of plain_openssl "replicate 16 0" "new_data_node 3"
      good_env "new_data_node 0"] plain_openssl_correct good_env_ok
  by (auto simp: SYM_KEY_LEN_def wf_new_data_node)

end
