(* ===== verification/Warehouse.thy ===== *)
theory Warehouse
  imports Skenc Encodings
begin

text \<open>
  The root block of the key-value store: the list of the identifiers of all data blocks
  (\<open>common/state/block_warehouse.cpp\<close>), and the state node that turns it into a JSON document with
  an authenticator (\<open>common/state/StateUtils.cpp\<close>). The JSON library is a parameter: what the
  code relies on is that a document it printed parses back.
\<close>

section \<open>State nodes\<close>

definition STATE_BLOCK_ID_LENGTH :: nat where
  "STATE_BLOCK_ID_LENGTH = SHA256_DIGEST_LENGTH"

record StateNode =
  blockId :: bytes
  stateBlock :: bytes
  ChildrenArray :: "bytes list"
  hasParent :: bool

definition new_StateNode :: StateNode where
  "new_StateNode = \<lparr>blockId = [], stateBlock = [], ChildrenArray = [], hasParent = False\<rparr>"

text \<open>
  A parsed JSON document as the code looks at it: whether it is an object, the array under
  \<open>BlockIds\<close> (an element that is not a string is \<open>None\<close>), and the string under \<open>BlockIdsAuth\<close>.
\<close>

record json_root =
  jr_is_object :: bool
  jr_BlockIds :: "string option list option"
  jr_BlockIdsAuth :: "string option"

record parson =
  json_root_print :: "string list \<Rightarrow> string \<Rightarrow> string"
  json_root_parse :: "string \<Rightarrow> json_root option"

definition SetHasParent :: "StateNode \<Rightarrow> StateNode" where
  "SetHasParent node = node\<lparr>hasParent := True\<rparr>"

definition AppendChild :: "StateNode \<Rightarrow> StateNode \<Rightarrow> StateNode \<times> StateNode" where
  "AppendChild node childNode =
     (node\<lparr>ChildrenArray := ChildrenArray node @ [blockId childNode]\<rparr>, SetHasParent childNode)"

definition AppendChildId :: "bytes \<Rightarrow> StateNode \<Rightarrow> StateNode" where
  "AppendChildId childId node = node\<lparr>ChildrenArray := ChildrenArray node @ [childId]\<rparr>"

definition ClearChildren :: "StateNode \<Rightarrow> StateNode" where
  "ClearChildren node = node\<lparr>ChildrenArray := []\<rparr>"

definition GetChildrenBlocks :: "StateNode \<Rightarrow> bytes list" where
  "GetChildrenBlocks node = ChildrenArray node"

fun cumulative_hash :: "openssl \<Rightarrow> bytes \<Rightarrow> bytes list \<Rightarrow> bytes" where
  "cumulative_hash ssl acc [] = acc"
| "cumulative_hash ssl acc (child # children) =
     cumulative_hash ssl (ComputeMessageHash ssl (acc @ child)) children"

text \<open>The buffer has one byte more than the document, the terminating null.\<close>

definition BlockifyChildren :: "openssl \<Rightarrow> parson \<Rightarrow> bytes \<Rightarrow> (StateNode, unit) m" where
  "BlockifyChildren ssl J state_encryption_key =
     bindM (modify (stateBlock_update (\<lambda>_. []))) (\<lambda>_.
     bindM (get ChildrenArray) (\<lambda>children.
     bindM (liftE (mapE ByteArrayToBase64EncodedString children)) (\<lambda>j_block_ids_array.
     bindM (modify (ChildrenArray_update (\<lambda>_. []))) (\<lambda>_.
     let block_ids_hmac = ComputeMessageHMAC ssl state_encryption_key (cumulative_hash ssl [] children) in
     bindM (liftE (ByteArrayToBase64EncodedString block_ids_hmac)) (\<lambda>auth.
     modify (stateBlock_update (\<lambda>_. map of_char (json_root_print J j_block_ids_array auth) @ [0])))))))"

text \<open>
  The loop of \<open>UnBlockifyChildren\<close>: it appends to the children the node already has, and hashes
  the child at the loop's index.
\<close>

fun unblockify_loop :: "openssl \<Rightarrow> nat \<Rightarrow> string option list \<Rightarrow> bytes \<Rightarrow> (StateNode, bytes) m" where
  "unblockify_loop ssl i [] hash = ret hash"
| "unblockify_loop ssl i (None # rest) hash = throw (Undefined ''string from a null pointer'')"
| "unblockify_loop ssl i (Some s # rest) hash =
     bindM (liftE (Base64EncodedStringToByteArray s)) (\<lambda>child_id.
     bindM (modify (\<lambda>node. node\<lparr>ChildrenArray := ChildrenArray node @ [child_id]\<rparr>)) (\<lambda>_.
     bindM (get (\<lambda>node. ChildrenArray node ! i)) (\<lambda>child.
     unblockify_loop ssl (Suc i) rest (ComputeMessageHash ssl (hash @ child)))))"

definition c_str :: "string \<Rightarrow> string" where
  "c_str s = takeWhile (\<lambda>c. c \<noteq> CHR 0x00) s"

text \<open>The number of elements is kept in an \<open>int\<close>; the loop takes as many of them as that says.\<close>

definition UnBlockifyChildren :: "openssl \<Rightarrow> parson \<Rightarrow> bytes \<Rightarrow> (StateNode, unit) m" where
  "UnBlockifyChildren ssl J state_encryption_key =
     bindM (get stateBlock) (\<lambda>block.
     bindM (throwIf (block = []) (ValueError ''Can't unblockify state node, block is empty'')) (\<lambda>_.
     case json_root_parse J (c_str (ByteArrayToString block)) of
       None \<Rightarrow> throw (RuntimeError ''Failed to parse json root block value'')
     | Some j_root \<Rightarrow>
         bindM (throwIf (\<not> jr_is_object j_root) (ValueError ''Failed on retrieval of json root block object value'')) (\<lambda>_.
         case jr_BlockIds j_root of
           None \<Rightarrow> throw (ValueError ''Failed to parse the block ids, expecting array'')
         | Some j_block_ids_array \<Rightarrow>
             let block_ids_count = to_int32 (length j_block_ids_array) in
             bindM (unblockify_loop ssl 0 (take (nat block_ids_count) j_block_ids_array) []) (\<lambda>cumulative_block_ids_hash.
             case jr_BlockIdsAuth j_root of
               None \<Rightarrow> throw (ValueError ''Failed to get BlockIdsAuth'')
             | Some b64_auth \<Rightarrow>
                 bindM (liftE (Base64EncodedStringToByteArray b64_auth)) (\<lambda>expected_block_ids_hmac.
                 throwIf (expected_block_ids_hmac
                            \<noteq> ComputeMessageHMAC ssl state_encryption_key cumulative_block_ids_hash)
                   (RuntimeError ''invalid block-ids authenticator''))))))"

section \<open>The block warehouse\<close>

record block_warehouse =
  blockIds :: "bytes list"
  state_encryption_key :: bytes

definition serialize_block_ids :: "openssl \<Rightarrow> parson \<Rightarrow> block_warehouse \<Rightarrow> (StateNode, unit) m" where
  "serialize_block_ids ssl J bw =
     bindM (modify ClearChildren) (\<lambda>_.
     bindM (modify (fold AppendChildId (blockIds bw))) (\<lambda>_.
     BlockifyChildren ssl J (state_encryption_key bw)))"

definition deserialize_block_ids :: "openssl \<Rightarrow> parson \<Rightarrow> (block_warehouse \<times> StateNode, unit) m" where
  "deserialize_block_ids ssl J =
     bindM (get (\<lambda>(bw, _). state_encryption_key bw)) (\<lambda>key.
     bindM (zoom snd (\<lambda>node (bw, _). (bw, node)) (UnBlockifyChildren ssl J key)) (\<lambda>_.
     modify (\<lambda>(bw, node). (bw\<lparr>blockIds := GetChildrenBlocks node\<rparr>, node))))"

definition update_datablock_id :: "nat \<Rightarrow> bytes \<Rightarrow> (block_warehouse, unit) m" where
  "update_datablock_id data_block_num newId =
     bindM (throwIf (length newId \<noteq> STATE_BLOCK_ID_LENGTH) (RuntimeError ''bad block id'')) (\<lambda>_.
     bindM (get blockIds) (\<lambda>ids.
     bindM (throwIf (length ids \<le> data_block_num) (Undefined ''block number out of range'')) (\<lambda>_.
     modify (blockIds_update (\<lambda>ids. ids[data_block_num := newId])))))"

definition add_block_id :: "bytes \<Rightarrow> (block_warehouse, unit) m" where
  "add_block_id bid =
     bindM (throwIf (length bid \<noteq> STATE_BLOCK_ID_LENGTH) (RuntimeError ''bad block id'')) (\<lambda>_.
     modify (blockIds_update (\<lambda>ids. ids @ [bid])))"

fun remove_empty_loop :: "bytes \<Rightarrow> bytes list \<Rightarrow> bytes list" where
  "remove_empty_loop emptyId [] = []"
| "remove_empty_loop emptyId (bid # ids) =
     (if bid = emptyId then remove_empty_loop emptyId ids else bid # remove_empty_loop emptyId ids)"

definition remove_empty_block_ids :: "block_warehouse \<Rightarrow> block_warehouse" where
  "remove_empty_block_ids bw =
     bw\<lparr>blockIds := remove_empty_loop (replicate STATE_BLOCK_ID_LENGTH 0) (blockIds bw)\<rparr>"

definition remove_block_id_from_datablock_num :: "nat \<Rightarrow> (block_warehouse, unit) m" where
  "remove_block_id_from_datablock_num data_block_num =
     bindM (get blockIds) (\<lambda>ids.
     bindM (throwIf (length ids \<le> data_block_num) (Undefined ''block number out of range'')) (\<lambda>_.
     modify (blockIds_update (\<lambda>ids. take data_block_num ids @ drop (Suc data_block_num) ids))))"

definition get_datablock_id_from_datablock_num :: "nat \<Rightarrow> (block_warehouse, bytes) m" where
  "get_datablock_id_from_datablock_num data_block_num =
     bindM (get blockIds) (\<lambda>ids.
     if data_block_num < length ids then ret (ids ! data_block_num)
     else throw (Undefined ''block number out of range''))"

definition get_root_block_num :: nat where
  "get_root_block_num = 0"

definition get_last_block_num :: "block_warehouse \<Rightarrow> nat" where
  "get_last_block_num bw = u32_sub (length (blockIds bw)) 1"

section \<open>Running the loops\<close>

lemma fold_AppendChildId: "fold AppendChildId ids node = node\<lparr>ChildrenArray := ChildrenArray node @ ids\<rparr>"
  by (induction ids arbitrary: node) (simp_all add: AppendChildId_def)

lemma remove_empty_loop_filter: "remove_empty_loop e ids = filter (\<lambda>bid. bid \<noteq> e) ids"
  by (induction ids) auto

lemma unblockify_loop_run:
  assumes "length (ChildrenArray node) = i" and "list_all2 (\<lambda>s b. Base64EncodedStringToByteArray s = Inr b) ss bs"
  shows "unblockify_loop ssl i (map Some ss) hash node =
    Some (Inr (cumulative_hash ssl hash bs), node\<lparr>ChildrenArray := ChildrenArray node @ bs\<rparr>)"
  using assms(2,1)
  by (induction arbitrary: i hash node rule: list_all2_induct) (simp_all add: exec_simps nth_append)

text \<open>When the loop ends normally, every element of the array was a string, and it decoded to a child.\<close>

lemma unblockify_loop_strings:
  "unblockify_loop ssl i xs hash node = Some (Inr h, node') \<Longrightarrow>
   \<exists>ss bs. xs = map Some ss \<and> list_all2 (\<lambda>s b. Base64EncodedStringToByteArray s = Inr b) ss bs"
proof (induction ssl i xs hash arbitrary: node rule: unblockify_loop.induct)
  case (1 ssl i hash)
  then show ?case by (auto intro: exI [of _ "[]"])
next
  case (2 ssl i rest hash)
  then show ?case by (simp add: exec_simps)
next
  case (3 ssl i s rest hash)
  then obtain b where b: "Base64EncodedStringToByteArray s = Inr b"
    by (cases "Base64EncodedStringToByteArray s") (simp_all add: exec_simps)
  obtain ss bs where "rest = map Some ss" "list_all2 (\<lambda>s b. Base64EncodedStringToByteArray s = Inr b) ss bs"
    using 3 b by (simp add: exec_simps) blast
  with b show ?case by (intro exI [of _ "s # ss"] exI [of _ "b # bs"]) simp
qed

lemma unat_of_char: "unat (of_char c :: byte) = of_char c"
proof -
  have "unat (of_nat (of_char c) :: byte) = of_char c mod 256" by (simp only: unat_of_nat) simp
  then show ?thesis by (simp add: of_nat_of_char)
qed

lemma c_str_terminated: "CHR 0x00 \<notin> set s \<Longrightarrow> c_str (ByteArrayToString (map of_char s @ [0])) = s"
proof -
  assume n: "CHR 0x00 \<notin> set s"
  have "char_of (0 :: nat) = CHR 0x00" by (simp add: char_of_def)
  then have "ByteArrayToString (map of_char s @ [0]) = s @ [CHR 0x00]"
    by (simp add: ByteArrayToString_def comp_def unat_of_char)
  moreover have "takeWhile (\<lambda>c. c \<noteq> CHR 0x00) s = s" using n by (auto simp: takeWhile_eq_all_conv)
  ultimately show ?thesis using n by (simp add: c_str_def takeWhile_append)
qed

section \<open>Base64 strings in JSON documents\<close>

text \<open>
  What the code relies on of the JSON library: a document with Base64 strings, which need no
  escapes, parses back to what was printed, and its text has no null character.
\<close>

definition parson_correct :: "parson \<Rightarrow> bool" where
  "parson_correct J \<longleftrightarrow> (\<forall>ids auth. list_all base64_string ids \<longrightarrow> base64_string auth \<longrightarrow>
     json_root_parse J (json_root_print J ids auth)
       = Some \<lparr>jr_is_object = True, jr_BlockIds = Some (map Some ids), jr_BlockIdsAuth = Some auth\<rparr>
     \<and> CHR 0x00 \<notin> set (json_root_print J ids auth))"

section \<open>Properties\<close>

text \<open>The root block of a list of identifiers.\<close>

definition root_block :: "openssl \<Rightarrow> parson \<Rightarrow> bytes \<Rightarrow> bytes list \<Rightarrow> bytes" where
  "root_block ssl J key ids = map of_char (json_root_print J (map encode_bytes ids)
     (encode_bytes (ComputeMessageHMAC ssl key (cumulative_hash ssl [] ids)))) @ [0]"

lemma encodable_hmac: "hmac_correct ssl \<Longrightarrow> encodable (ComputeMessageHMAC ssl key msg)"
  by (rule encodable_small) (simp add: hmac_correct_def ComputeMessageHMAC_def SHA256_DIGEST_LENGTH_def)

lemma BlockifyChildren_run:
  assumes "hmac_correct ssl" and "list_all encodable (ChildrenArray node)"
  shows "BlockifyChildren ssl J key node =
    Some (Inr (), node\<lparr>ChildrenArray := [], stateBlock := root_block ssl J key (ChildrenArray node)\<rparr>)"
proof -
  have "mapE ByteArrayToBase64EncodedString (ChildrenArray node) = Inr (map encode_bytes (ChildrenArray node))"
    using assms(2) by (intro mapE_map) (simp add: encode_run list_all_iff)
  then show ?thesis
    by (simp add: BlockifyChildren_def exec_simps Let_def encode_run [OF encodable_hmac [OF assms(1)]] root_block_def)
qed

lemma serialize_block_ids_run:
  assumes "hmac_correct ssl" and "list_all encodable (blockIds bw)"
  shows "serialize_block_ids ssl J bw node = Some (Inr (), node\<lparr>ChildrenArray := [],
     stateBlock := root_block ssl J (state_encryption_key bw) (blockIds bw)\<rparr>)"
  using assms BlockifyChildren_run [OF assms(1), of "fold AppendChildId (blockIds bw) (ClearChildren node)"]
  by (simp add: serialize_block_ids_def exec_simps fold_AppendChildId ClearChildren_def)

lemma UnBlockifyChildren_root_block:
  assumes J: "parson_correct J" and h: "hmac_correct ssl" and ids: "list_all encodable ids" "length ids < 2147483648"
    and n: "stateBlock n = root_block ssl J key ids" "ChildrenArray n = []"
  shows "UnBlockifyChildren ssl J key n = Some (Inr (), n\<lparr>ChildrenArray := ids\<rparr>)"
proof -
  let ?ids = "map encode_bytes ids"
  let ?auth = "encode_bytes (ComputeMessageHMAC ssl key (cumulative_hash ssl [] ids))"
  have "list_all base64_string ?ids" "base64_string ?auth"
    by (simp_all add: list_all_iff base64_string_encode)
  with J have J: "json_root_parse J (json_root_print J ?ids ?auth)
       = Some \<lparr>jr_is_object = True, jr_BlockIds = Some (map Some ?ids), jr_BlockIdsAuth = Some ?auth\<rparr>"
      "CHR 0x00 \<notin> set (json_root_print J ?ids ?auth)"
    unfolding parson_correct_def by blast+
  have block: "stateBlock n = map of_char (json_root_print J ?ids ?auth) @ [0]"
    using n(1) by (simp add: root_block_def)
  have "list_all2 (\<lambda>s b. Base64EncodedStringToByteArray s = Inr b) ?ids ids"
    using ids(1) by (auto simp: list_all2_map1 list_all_iff decode_run intro: list.rel_refl_strong)
  from unblockify_loop_run [OF _ this, of n 0 ssl "[]"] n(2)
  have loop: "unblockify_loop ssl 0 (map Some ?ids) [] n =
     Some (Inr (cumulative_hash ssl [] ids), n\<lparr>ChildrenArray := ids\<rparr>)" by simp
  show ?thesis
    using loop decode_run [OF encodable_hmac [OF h]] ids(2)
    by (simp add: UnBlockifyChildren_def exec_simps block c_str_terminated [OF J(2)] J(1) to_int32_id Let_def del: map_map)
qed


text \<open>A JSON library for the witnesses: the strings, each ended by a quotation mark.\<close>

fun quoted :: "string \<Rightarrow> string \<Rightarrow> string list" where
  "quoted acc [] = []"
| "quoted acc (c # cs) = (if c = CHR 0x22 then acc # quoted [] cs else quoted (acc @ [c]) cs)"

definition plain_parson :: parson where
  "plain_parson =
     \<lparr>json_root_print = (\<lambda>ids auth. concat (map (\<lambda>s. s @ [CHR 0x22]) (auth # ids))),
      json_root_parse = (\<lambda>s. case quoted [] s of [] \<Rightarrow> None
        | auth # ids \<Rightarrow> Some \<lparr>jr_is_object = True, jr_BlockIds = Some (map Some ids), jr_BlockIdsAuth = Some auth\<rparr>)\<rparr>"

lemma quoted_string: "CHR 0x22 \<notin> set s \<Longrightarrow> quoted acc (s @ CHR 0x22 # cs) = (acc @ s) # quoted [] cs"
  by (induction s arbitrary: acc) auto

lemma base64_string_chars: "base64_string s \<Longrightarrow> CHR 0x22 \<notin> set s \<and> CHR 0x00 \<notin> set s"
  by (auto simp: base64_string_def list_all_iff is_base64_def isalnum_def)

lemma plain_parson_correct: "parson_correct plain_parson"
proof -
  have q: "list_all base64_string ss \<Longrightarrow> quoted [] (concat (map (\<lambda>s. s @ [CHR 0x22]) ss)) = ss" for ss
    by (induction ss) (simp_all add: quoted_string base64_string_chars)
  have z: "list_all base64_string ss \<Longrightarrow> CHR 0x00 \<notin> set (concat (map (\<lambda>s. s @ [CHR 0x22]) ss))" for ss
    by (induction ss) (auto simp: base64_string_chars)
  have "json_root_parse plain_parson (json_root_print plain_parson ids auth)
       = Some \<lparr>jr_is_object = True, jr_BlockIds = Some (map Some ids), jr_BlockIdsAuth = Some auth\<rparr>
     \<and> CHR 0x00 \<notin> set (json_root_print plain_parson ids auth)"
    if "list_all base64_string ids" "base64_string auth" for ids auth
    using q [of "auth # ids"] z [of "auth # ids"] that by (simp only: plain_parson_def parson.simps) simp
  then show ?thesis by (simp add: parson_correct_def)
qed


text \<open>C14: whatever document the host supplies as the root block, the identifiers are accepted only if
  the document carries the message authentication code, under the state encryption key, of the
  cumulative hash of exactly these identifiers.\<close>

theorem block_ids_authenticated:
  assumes "deserialize_block_ids ssl J (bw, new_StateNode\<lparr>stateBlock := block\<rparr>) = Some (Inr (), (bw', node'))"
  shows "\<exists>j auth. json_root_parse J (c_str (ByteArrayToString block)) = Some j \<and> jr_BlockIdsAuth j = Some auth
    \<and> Base64EncodedStringToByteArray auth
        = Inr (ComputeMessageHMAC ssl (state_encryption_key bw) (cumulative_hash ssl [] (blockIds bw')))"
proof -
  let ?n = "new_StateNode\<lparr>stateBlock := block\<rparr>"
  obtain n' where un: "UnBlockifyChildren ssl J (state_encryption_key bw) ?n = Some (Inr (), n')"
      and ids: "blockIds bw' = ChildrenArray n'"
    using assms
    by (auto simp: deserialize_block_ids_def bindM_def get_def zoom_def modify_def GetChildrenBlocks_def
        split: sum.splits bind_splits)
  obtain j xs h n'' auth where j: "json_root_parse J (c_str (ByteArrayToString block)) = Some j"
      and loop: "unblockify_loop ssl 0 xs [] ?n = Some (Inr h, n'')" and a: "jr_BlockIdsAuth j = Some auth"
      and eq: "Base64EncodedStringToByteArray auth = Inr (ComputeMessageHMAC ssl (state_encryption_key bw) h)" "n' = n''"
    using un
    by (auto simp: UnBlockifyChildren_def Let_def bindM_def get_def liftE_def throwIf_def throw_def ret_def
        split: sum.splits bind_splits option.splits if_splits)
  obtain ss bs where "xs = map Some ss" "list_all2 (\<lambda>s b. Base64EncodedStringToByteArray s = Inr b) ss bs"
    using unblockify_loop_strings [OF loop] by blast
  with loop have "h = cumulative_hash ssl [] (ChildrenArray n'')"
    using unblockify_loop_run [of ?n 0 ss bs ssl "[]"] by (auto simp: new_StateNode_def)
  with j a eq ids show ?thesis by auto
qed

theorem block_ids_authenticated_witness:
  "\<exists>block bw' node' auth. deserialize_block_ids plain_openssl plain_parson
        (\<lparr>blockIds = [], state_encryption_key = [1]\<rparr>, new_StateNode\<lparr>stateBlock := block\<rparr>) = Some (Inr (), (bw', node'))
     \<and> blockIds bw' = [replicate 32 7]
     \<and> Base64EncodedStringToByteArray auth
         = Inr (ComputeMessageHMAC plain_openssl [1] (cumulative_hash plain_openssl [] [replicate 32 7]))"
proof -
  let ?bw = "\<lparr>blockIds = [replicate 32 7], state_encryption_key = [1]\<rparr>"
  let ?block = "root_block plain_openssl plain_parson [1] [replicate 32 7]"
  let ?n = "new_StateNode\<lparr>stateBlock := ?block\<rparr>"
  have "UnBlockifyChildren plain_openssl plain_parson [1] ?n = Some (Inr (), ?n\<lparr>ChildrenArray := [replicate 32 7]\<rparr>)"
    by (rule UnBlockifyChildren_root_block [OF plain_parson_correct plain_openssl_correct(4)])
      (simp_all add: new_StateNode_def encodable_def)
  then have run: "deserialize_block_ids plain_openssl plain_parson (\<lparr>blockIds = [], state_encryption_key = [1]\<rparr>, ?n)
      = Some (Inr (), (?bw, ?n\<lparr>ChildrenArray := [replicate 32 7]\<rparr>))"
    by (simp add: deserialize_block_ids_def exec_simps GetChildrenBlocks_def)
  from block_ids_authenticated [OF this] obtain auth
    where "Base64EncodedStringToByteArray auth
      = Inr (ComputeMessageHMAC plain_openssl [1] (cumulative_hash plain_openssl [] [replicate 32 7]))" by auto
  with run show ?thesis by (intro exI [of _ ?block] exI conjI) (assumption, simp, assumption)
qed

text \<open>The messages that are hashed on the way to the cumulative hash of a list.\<close>

fun hash_inputs :: "openssl \<Rightarrow> bytes \<Rightarrow> bytes list \<Rightarrow> bytes list" where
  "hash_inputs ssl acc [] = []"
| "hash_inputs ssl acc (child # children) =
     (acc @ child) # hash_inputs ssl (ComputeMessageHash ssl (acc @ child)) children"

lemma cumulative_hash_snoc:
  "cumulative_hash ssl acc (ids @ [bid]) = ComputeMessageHash ssl (cumulative_hash ssl acc ids @ bid)"
  by (induction ids arbitrary: acc) simp_all

lemma hash_inputs_snoc:
  "hash_inputs ssl acc (ids @ [bid]) = hash_inputs ssl acc ids @ [cumulative_hash ssl acc ids @ bid]"
  by (induction ids arbitrary: acc) simp_all

text \<open>C16: the cumulative hash binds the list: two lists of block identifiers with the same cumulative
  hash are equal, or two different messages with the same SHA-256 hash are among those hashed for
  the one list and for the other. This covers reordered, dropped and repeated blocks.\<close>

theorem cumulative_hash_binding:
  assumes "sha256_correct ssl" and "\<forall>bid \<in> set ids \<union> set ids'. length bid = STATE_BLOCK_ID_LENGTH"
    and "cumulative_hash ssl [] ids = cumulative_hash ssl [] ids'"
  shows "ids = ids' \<or> (\<exists>x \<in> set (hash_inputs ssl [] ids). \<exists>y \<in> set (hash_inputs ssl [] ids').
      x \<noteq> y \<and> ComputeMessageHash ssl x = ComputeMessageHash ssl y)"
  using assms(2,3)
proof (induction ids arbitrary: ids' rule: rev_induct)
  have ne: "ComputeMessageHash ssl m \<noteq> []" for m
    using assms(1) by (auto simp: sha256_correct_def ComputeMessageHash_def SHA256_DIGEST_LENGTH_def dest: spec [of _ m])
  have ne': "[] \<noteq> ComputeMessageHash ssl m" for m using ne [of m] by metis
  {
    case Nil
    then show ?case using ne' by (cases ids' rule: rev_cases) (auto simp: cumulative_hash_snoc)
  next
    case (snoc x ids)
    show ?case
    proof (cases ids' rule: rev_cases)
      case Nil
      then show ?thesis using snoc.prems(2) ne by (auto simp: cumulative_hash_snoc)
    next
      case (snoc js y)
      let ?m = "cumulative_hash ssl [] ids @ x" and ?m' = "cumulative_hash ssl [] js @ y"
      have h: "ComputeMessageHash ssl ?m = ComputeMessageHash ssl ?m'"
        using \<open>cumulative_hash ssl [] (ids @ [x]) = cumulative_hash ssl [] ids'\<close> snoc
        by (simp add: cumulative_hash_snoc)
      show ?thesis
      proof (cases "?m = ?m'")
        case True
        moreover have "length x = length y" using snoc.prems(1) snoc by simp
        ultimately have "cumulative_hash ssl [] ids = cumulative_hash ssl [] js" "x = y" by auto
        with snoc.IH [of js] snoc.prems(1) snoc show ?thesis by (auto simp: hash_inputs_snoc)
      next
        case False
        with h snoc show ?thesis by (auto simp: hash_inputs_snoc)
      qed
    qed
  }
qed

theorem cumulative_hash_binding_witness:
  "cumulative_hash plain_openssl [] [replicate 32 1, replicate 32 2]
     = cumulative_hash plain_openssl [] [replicate 32 1, replicate 32 3]
   \<and> (\<exists>x \<in> set (hash_inputs plain_openssl [] [replicate 32 1, replicate 32 2]).
      \<exists>y \<in> set (hash_inputs plain_openssl [] [replicate 32 1, replicate 32 3]).
        x \<noteq> y \<and> ComputeMessageHash plain_openssl x = ComputeMessageHash plain_openssl y)"
proof -
  have e: "cumulative_hash plain_openssl [] [replicate 32 1, replicate 32 2]
     = cumulative_hash plain_openssl [] [replicate 32 1, replicate 32 3]"
    by (simp add: ComputeMessageHash_def plain_openssl_def)
  moreover have "[replicate 32 1, replicate 32 (2 :: byte)] \<noteq> [replicate 32 1, replicate 32 3]"
    by (simp add: numeral_nat)
  ultimately show ?thesis
    using cumulative_hash_binding [OF plain_openssl_correct(3) _ e]
    by (simp add: STATE_BLOCK_ID_LENGTH_def SHA256_DIGEST_LENGTH_def)
qed

end
