(* ===== verification/Block_Cache.thy ===== *)
theory Block_Cache
  imports Data_Node Warehouse
begin

text \<open>
  The cache of data nodes (\<open>common/state/cache.h\<close>, \<open>cache.cpp\<close>). A fixed vector of 512 data nodes
  is the memory of the cache; a data node's address is its index in that vector. The queue holds the
  free slots, the block cache maps a block number to its entry, with the slot that holds the block.
  The cache writes the identifiers of evicted blocks into the block warehouse, so the warehouse and
  the world outside are part of its state. The record can be extended: \<open>data_node_io\<close> adds its own
  members to it.
\<close>

section \<open>State\<close>

definition CACHE_SIZE :: nat where
  "CACHE_SIZE = 2 ^ 22"

definition BLOCK_CACHE_MAX_ITEMS :: nat where
  "BLOCK_CACHE_MAX_ITEMS = CACHE_SIZE div FIXED_DATA_NODE_BYTE_SIZE"

lemma BLOCK_CACHE_MAX_ITEMS_eq [simp]: "BLOCK_CACHE_MAX_ITEMS = 512"
  by (simp add: BLOCK_CACHE_MAX_ITEMS_def CACHE_SIZE_def FIXED_DATA_NODE_BYTE_SIZE_def)

record block_cache_entry_t =
  pinned :: bool
  refs :: nat
  is_modified :: bool
  clock :: nat
  slot :: nat

record cache =
  warehouse :: block_warehouse
  world :: env
  block_cache :: "(nat \<times> block_cache_entry_t) list"
  data_nodes :: "data_node list"
  dn_queue :: "nat list"
  cache_clock :: nat
  synced_count :: nat

definition new_cache :: "block_warehouse \<Rightarrow> env \<Rightarrow> cache" where
  "new_cache bw e =
     \<lparr>warehouse = bw, world = e, block_cache = [],
      data_nodes = replicate BLOCK_CACHE_MAX_ITEMS (new_data_node 0), dn_queue = [0..<BLOCK_CACHE_MAX_ITEMS],
      cache_clock = 0, synced_count = 0\<rparr>"

text \<open>Running an operation of the warehouse, and one on the data node of a slot.\<close>

definition in_warehouse :: "(block_warehouse, 'a) m \<Rightarrow> ('z cache_scheme, 'a) m" where
  "in_warehouse = zoom warehouse (\<lambda>bw. warehouse_update (\<lambda>_. bw))"

definition in_slot :: "nat \<Rightarrow> (data_node, 'a) m \<Rightarrow> ('z cache_scheme, 'a) m" where
  "in_slot d = zoom (\<lambda>s. data_nodes s ! d) (\<lambda>dn. data_nodes_update (\<lambda>ns. ns[d := dn]))"

definition in_slot_world :: "nat \<Rightarrow> (data_node \<times> env, 'a) m \<Rightarrow> ('z cache_scheme, 'a) m" where
  "in_slot_world d =
     zoom (\<lambda>s. (data_nodes s ! d, world s)) (\<lambda>(dn, e) s. s\<lparr>data_nodes := (data_nodes s)[d := dn], world := e\<rparr>)"

definition set_entry :: "nat \<Rightarrow> block_cache_entry_t \<Rightarrow> ('z cache_scheme, unit) m" where
  "set_entry k bce = modify (block_cache_update (map_put k bce))"

section \<open>Operations\<close>

definition slots_allocate :: "('z cache_scheme, nat) m" where
  "slots_allocate =
     bindM (get dn_queue) (\<lambda>q. case q of
         [] \<Rightarrow> throw (RuntimeError ''cache full -- cannot allocate additional cache slots, queue empty'')
       | d # q' \<Rightarrow> bindM (modify (dn_queue_update (\<lambda>_. q'))) (\<lambda>_. ret d))"

definition slots_release :: "nat \<Rightarrow> ('z cache_scheme, unit) m" where
  "slots_release d =
     bindM (get (\<lambda>s. length (dn_queue s) \<ge> length (data_nodes s))) (\<lambda>full.
     bindM (throwIf full (RuntimeError ''cache empty -- nothing to release, nothing to return to queue'')) (\<lambda>_.
     modify (dn_queue_update (\<lambda>q. q @ [d]))))"

definition available_slots :: "'z cache_scheme \<Rightarrow> nat" where
  "available_slots s = length (dn_queue s)"

definition drop_entry :: "nat \<Rightarrow> ('z cache_scheme, unit) m" where
  "drop_entry k =
     bindM (get block_cache) (\<lambda>m. case map_of m k of
         None \<Rightarrow> throw (Undefined ''drop_entry dereferences the end iterator'')
       | Some bce \<Rightarrow>
           bindM (slots_release (slot bce)) (\<lambda>_.
           modify (block_cache_update (map_erase k))))"

definition sync_entry :: "openssl \<Rightarrow> nat \<Rightarrow> ('z cache_scheme, unit) m" where
  "sync_entry ssl k =
     bindM (get block_cache) (\<lambda>m. case map_of m k of
         None \<Rightarrow> throw (RuntimeError ''cache sync entry, entry not found'')
       | Some bce \<Rightarrow>
           if is_modified bce then
             bindM (get (\<lambda>s. state_encryption_key (warehouse s))) (\<lambda>key.
             bindM (in_slot_world (slot bce) (dn_unload ssl key)) (\<lambda>new_data_node_id.
             bindM (in_warehouse (update_datablock_id k new_data_node_id)) (\<lambda>_.
             bindM (set_entry k (bce\<lparr>is_modified := False\<rparr>)) (\<lambda>_.
             modify (synced_count_update (\<lambda>n. u32 (n + 1)))))))
           else ret ())"

definition flush_entry :: "openssl \<Rightarrow> nat \<Rightarrow> ('z cache_scheme, unit) m" where
  "flush_entry ssl k = bindM (sync_entry ssl k) (\<lambda>_. drop_entry k)"

text \<open>The number of the first block in the order of the map.\<close>

definition first_key :: "('z cache_scheme, nat) m" where
  "first_key = get (\<lambda>s. fst (hd (block_cache s)))"

definition cache_drop :: "('z cache_scheme, unit) m" where
  "cache_drop = loop_m (\<lambda>_ s. block_cache s \<noteq> []) (\<lambda>_. bindM first_key drop_entry) ()"

definition cache_flush :: "openssl \<Rightarrow> ('z cache_scheme, unit) m" where
  "cache_flush ssl = loop_m (\<lambda>_ s. block_cache s \<noteq> []) (\<lambda>_. bindM first_key (flush_entry ssl)) ()"

text \<open>Synchronizing an entry does not change which entries there are, so the loop visits the keys it starts with.\<close>

fun sync_keys :: "openssl \<Rightarrow> nat list \<Rightarrow> ('z cache_scheme, unit) m" where
  "sync_keys ssl [] = ret ()"
| "sync_keys ssl (k # ks) = bindM (sync_entry ssl k) (\<lambda>_. sync_keys ssl ks)"

definition cache_sync :: "openssl \<Rightarrow> ('z cache_scheme, unit) m" where
  "cache_sync ssl = bindM (get (\<lambda>s. map fst (block_cache s))) (sync_keys ssl)"

text \<open>The block number goes through an \<open>int\<close>, for which -1 is no block.\<close>

definition of_int32 :: "int \<Rightarrow> nat" where
  "of_int32 i = nat (i mod 4294967296)"

fun mru_scan :: "(nat \<times> block_cache_entry_t) list \<Rightarrow> int \<Rightarrow> nat \<Rightarrow> int" where
  "mru_scan [] index_to_remove clk = index_to_remove"
| "mru_scan ((k, bce) # m) index_to_remove clk =
     (if \<not> pinned bce \<and> refs bce = 0 \<and> (index_to_remove = -1 \<or> clock bce > clk)
      then mru_scan m (to_int32 k) (clock bce)
      else mru_scan m index_to_remove clk)"

definition replacement_policy_MRU :: "openssl \<Rightarrow> ('z cache_scheme, unit) m" where
  "replacement_policy_MRU ssl =
     bindM (get (\<lambda>s. mru_scan (block_cache s) (-1) 0)) (\<lambda>index_to_remove.
     bindM (throwIf (index_to_remove = -1) (RuntimeError ''cache replacement MRU, no item to replace'')) (\<lambda>_.
     flush_entry ssl (of_int32 index_to_remove)))"

definition replacement_loop :: "openssl \<Rightarrow> ('z cache_scheme, unit) m" where
  "replacement_loop ssl =
     loop_m (\<lambda>_ s. length (block_cache s) \<ge> BLOCK_CACHE_MAX_ITEMS) (\<lambda>_. replacement_policy_MRU ssl) ()"

definition replacement_policy :: "openssl \<Rightarrow> ('z cache_scheme, unit) m" where
  "replacement_policy ssl =
     bindM (get (\<lambda>s. length (block_cache s) + available_slots s)) (\<lambda>n.
     bindM (throwIf (n \<noteq> BLOCK_CACHE_MAX_ITEMS) (RuntimeError ''cache replacement, invariant not satisfied'')) (\<lambda>_.
     replacement_loop ssl))"

definition cache_put :: "nat \<Rightarrow> nat \<Rightarrow> ('z cache_scheme, unit) m" where
  "cache_put k d =
     bindM (get (\<lambda>s. map_of (block_cache s) k \<noteq> None)) (\<lambda>present.
     bindM (if present then drop_entry k else ret ()) (\<lambda>_.
     bindM (get cache_clock) (\<lambda>clk.
     bindM (modify (cache_clock_update (\<lambda>n. u64 (n + 1)))) (\<lambda>_.
     set_entry k \<lparr>pinned = False, refs = 0, is_modified = False, clock = clk, slot = d\<rparr>))))"

text \<open>The operations that look an entry up and change it.\<close>

definition update_entry :: "nat \<Rightarrow> (block_cache_entry_t \<Rightarrow> block_cache_entry_t) \<Rightarrow> ('z cache_scheme, unit) m" where
  "update_entry k f =
     bindM (get block_cache) (\<lambda>m. case map_of m k of
         None \<Rightarrow> throw (RuntimeError ''cache done, item not in cache'')
       | Some bce \<Rightarrow> set_entry k (f bce))"

definition cache_pin :: "nat \<Rightarrow> ('z cache_scheme, unit) m" where
  "cache_pin k = update_entry k (\<lambda>bce. bce\<lparr>pinned := True\<rparr>)"

definition cache_unpin :: "nat \<Rightarrow> ('z cache_scheme, unit) m" where
  "cache_unpin k = update_entry k (\<lambda>bce. bce\<lparr>pinned := False\<rparr>)"

definition cache_modified :: "nat \<Rightarrow> ('z cache_scheme, unit) m" where
  "cache_modified k = update_entry k (\<lambda>bce. bce\<lparr>is_modified := True\<rparr>)"

definition cache_done :: "nat \<Rightarrow> bool \<Rightarrow> ('z cache_scheme, unit) m" where
  "cache_done k modified =
     update_entry k (\<lambda>bce. bce\<lparr>refs := u32_sub (refs bce) 1, is_modified := is_modified bce \<or> modified\<rparr>)"

definition synced_entries :: "'z cache_scheme \<Rightarrow> nat" where
  "synced_entries s = synced_count s"

text \<open>Retrieving a block: on a miss, a slot is freed if necessary and the block is loaded into it.\<close>

definition fetch_block :: "openssl \<Rightarrow> nat \<Rightarrow> ('z cache_scheme, nat) m" where
  "fetch_block ssl k =
     bindM (in_warehouse (get_datablock_id_from_datablock_num k)) (\<lambda>data_node_id.
     bindM slots_allocate (\<lambda>d.
     bindM (in_slot d (modify (deserialize_original_encrypted_data_id data_node_id))) (\<lambda>_.
     bindM (get (\<lambda>s. state_encryption_key (warehouse s))) (\<lambda>key.
     bindM (in_slot_world d (dn_load ssl key)) (\<lambda>_.
     ret d)))))"

definition load_block :: "openssl \<Rightarrow> nat \<Rightarrow> bool \<Rightarrow> ('z cache_scheme, unit) m" where
  "load_block ssl k pin =
     bindM (replacement_policy ssl) (\<lambda>_.
     bindM (fetch_block ssl k) (\<lambda>d.
     bindM (cache_put k d) (\<lambda>_.
     if pin then cache_pin k else ret ())))"

definition grab :: "nat \<Rightarrow> ('z cache_scheme, nat) m" where
  "grab k =
     bindM (update_entry k (\<lambda>bce. bce\<lparr>refs := u32 (refs bce + 1)\<rparr>)) (\<lambda>_.
     get (\<lambda>s. case map_of (block_cache s) k of None \<Rightarrow> 0 | Some bce \<Rightarrow> slot bce))"

definition retrieve :: "openssl \<Rightarrow> nat \<Rightarrow> bool \<Rightarrow> ('z cache_scheme, nat) m" where
  "retrieve ssl k pin =
     bindM (get (\<lambda>s. map_of (block_cache s) k = None)) (\<lambda>miss.
     bindM (if miss then load_block ssl k pin else ret ()) (\<lambda>_.
     grab k))"

section \<open>Collisions, and operations that always return\<close>

text \<open>
  A store keyed by SHA-256 hashes is sound as long as no two of the blocks it was given have the same
  hash. That cannot be assumed for all blocks; the theorems assume it for the blocks that were
  handed to the host up to the state they speak about.
\<close>

definition intact :: "openssl \<Rightarrow> env \<Rightarrow> bool" where
  "intact ssl e \<longleftrightarrow> inj_on (evp_sha256 ssl) (set (env_puts e))"

definition world_intact :: "openssl \<Rightarrow> 'z cache_scheme \<Rightarrow> bool" where
  "world_intact ssl s \<longleftrightarrow> intact ssl (world s)"

lemma intact_host_put: "\<not> intact ssl e \<Longrightarrow> \<not> intact ssl (host_put k v e)"
  by (auto simp: intact_def inj_on_def)

lemma intact_draws [simp]: "intact ssl (env_draws_update f e) = intact ssl e"
  by (simp add: intact_def)

lemma dn_unload_lost: "preserves (\<lambda>(dn, e). \<not> intact ssl e) (dn_unload ssl' key)"
proof -
  have put: "\<not> intact ssl e' " if "\<not> intact ssl e" "sebio_evict ssl' ct SEBIO_NO_CRYPTO e = Some (r, e')" for e r e' ct
    using that
    by (auto simp: sebio_evict_def sebio_evict_to_block_store_def Let_def BlockStorePut_def ocall_status_def
        bindM_def get_def throwIf_def throw_def ret_def modify_def intact_host_put split: if_splits prod.splits)
  show ?thesis
    unfolding dn_unload_def
    by (intro preserve_intros) (auto simp: enclave_encrypt_def zoom_def dest: put)
qed

lemma dn_load_world:
  assumes "dn_load ssl key (dn, e) = Some (r, (dn', e'))"
  shows "e' = e"
proof -
  have "t = x" if "sebio_fetch ssl bid SEBIO_NO_CRYPTO x = Some (r, t)" for bid r t x
    using that
    by (auto simp: sebio_fetch_def sebio_fetch_from_block_store_def BlockStoreGet_def BlockStoreHead_enclave_def
        BlockStoreGet_enclave_def ocall_status_def bindM_def get_def throwIf_def throw_def ret_def
        split: if_splits prod.splits option.splits)
  then have "preserves (\<lambda>(dn, x). x = e) (dn_load ssl key)"
    unfolding dn_load_def by (intro preserve_intros) (auto simp: zoom_def)
  from preservesD [OF this _ assms] show ?thesis by simp
qed

lemma lost_in_slot_unload [preserve_intros]:
  "preserves (\<lambda>s. \<not> world_intact ssl s) (in_slot_world d (dn_unload ssl' key))"
  unfolding in_slot_world_def world_intact_def
  by (intro preserve_intros) (use preservesD [OF dn_unload_lost] in fastforce)

lemma lost_in_slot_load [preserve_intros]:
  "preserves (\<lambda>s. \<not> world_intact ssl s) (in_slot_world d (dn_load ssl' key))"
  unfolding in_slot_world_def world_intact_def
  by (intro preserve_intros) (auto dest: dn_load_world)

lemma lost_modify [preserve_intros]:
  "(\<And>s. world (f s) = world s) \<Longrightarrow> preserves (\<lambda>s. \<not> world_intact ssl s) (modify f)"
  by (intro preserve_intros) (simp add: world_intact_def)

lemma lost_zoom [preserve_intros]:
  "preserves (\<lambda>s. \<not> world_intact ssl s) (in_warehouse m)" "preserves (\<lambda>s. \<not> world_intact ssl s) (in_slot d n)"
  unfolding in_warehouse_def in_slot_def by (intro preserve_intros; simp add: world_intact_def)+

lemma lost_basic [preserve_intros]:
  "preserves (\<lambda>s. \<not> world_intact ssl s) (set_entry k bce)"
  "preserves (\<lambda>s. \<not> world_intact ssl s) slots_allocate"
  "preserves (\<lambda>s. \<not> world_intact ssl s) (slots_release d)"
  unfolding set_entry_def slots_allocate_def slots_release_def by (intro preserve_intros; simp)+

lemma lost_entries [preserve_intros]:
  "preserves (\<lambda>s. \<not> world_intact ssl s) (update_entry k f)"
  "preserves (\<lambda>s. \<not> world_intact ssl s) (drop_entry k)"
  "preserves (\<lambda>s. \<not> world_intact ssl s) (sync_entry ssl' k)"
  unfolding update_entry_def drop_entry_def sync_entry_def by (intro preserve_intros; simp)+

lemma lost_flush_entry [preserve_intros]: "preserves (\<lambda>s. \<not> world_intact ssl s) (flush_entry ssl' k)"
  unfolding flush_entry_def by (intro preserve_intros)

text \<open>The entries stay in the order of their keys, and with that every operation returns.\<close>

abbreviation in_order :: "'z cache_scheme \<Rightarrow> bool" where
  "in_order s \<equiv> ordered (block_cache s)"

lemma order_modify [preserve_intros]:
  "(\<And>s. block_cache (f s) = block_cache s) \<Longrightarrow> preserves in_order (modify f)"
  by (intro preserve_intros) simp

lemma order_zoom [preserve_intros]:
  "preserves in_order (in_warehouse m)" "preserves in_order (in_slot d n)" "preserves in_order (in_slot_world d p)"
  unfolding in_warehouse_def in_slot_def in_slot_world_def
  by (intro preserve_intros; auto split: prod.splits)+

lemma order_basic [preserve_intros]:
  "preserves in_order (set_entry k bce)" "preserves in_order slots_allocate" "preserves in_order (slots_release d)"
  unfolding set_entry_def slots_allocate_def slots_release_def
  by (intro preserve_intros; simp add: ordered_map_put)+

lemma order_entries [preserve_intros]:
  "preserves in_order (update_entry k f)" "preserves in_order (drop_entry k)" "preserves in_order (sync_entry ssl k)"
  unfolding update_entry_def drop_entry_def sync_entry_def
  by (intro preserve_intros; simp add: ordered_map_erase)+

lemma order_flush_entry [preserve_intros]: "preserves in_order (flush_entry ssl k)"
  unfolding flush_entry_def by (intro preserve_intros)

lemma total_warehouse [total_intros]:
  "total_on P (update_datablock_id k bid)" "total_on P (get_datablock_id_from_datablock_num k)"
  "total_on P (add_block_id bid)" "total_on P (remove_block_id_from_datablock_num k)"
  unfolding update_datablock_id_def get_datablock_id_from_datablock_num_def add_block_id_def
    remove_block_id_from_datablock_num_def
  by (simp_all add: total_on_def bindM_def get_def throwIf_def throw_def ret_def modify_def)

lemma total_world [total_intros]: "total_on P (dn_unload ssl key)" "total_on P (dn_load ssl key)"
proof -
  have e: "total_on Q (enclave_encrypt ssl key msg)" "total_on Q (sebio_evict ssl blk SEBIO_NO_CRYPTO)"
    "total_on Q (sebio_fetch ssl bid SEBIO_NO_CRYPTO)" for Q :: "env \<Rightarrow> bool" and msg blk bid
    by (auto simp: total_on_def enclave_encrypt_def zoom_def EncryptMessage_def GenerateIV_def RandomBitString_def
        sebio_evict_def sebio_evict_to_block_store_def Let_def BlockStorePut_def sebio_fetch_def
        sebio_fetch_from_block_store_def BlockStoreGet_def BlockStoreHead_enclave_def BlockStoreGet_enclave_def
        ocall_status_def bindM_def get_def throwIf_def throw_def ret_def modify_def liftE_def
        split: if_splits prod.splits option.splits sum.splits bind_splits)
  have d: "total_on Q (decrypt_and_deserialize_data ssl msg key)" for Q msg
    unfolding decrypt_and_deserialize_data_def
    by (auto simp: total_on_def bindM_def liftE_def modify_def split: sum.splits)
  have "total_on (\<lambda>_. True) (dn_unload ssl key)" "total_on (\<lambda>_. True) (dn_load ssl key)"
    unfolding dn_unload_def dn_load_def
    by (intro total_intros e d | simp add: preserves_def)+
  then show "total_on P (dn_unload ssl key)" "total_on P (dn_load ssl key)"
    by (simp_all add: total_on_def)
qed

lemma total_parts [total_intros]:
  "total_on (\<lambda>_. True) m \<Longrightarrow> total_on P (in_warehouse m)" "total_on (\<lambda>_. True) n \<Longrightarrow> total_on P (in_slot d n)"
  "total_on (\<lambda>_. True) p \<Longrightarrow> total_on P (in_slot_world d p)"
  unfolding in_warehouse_def in_slot_def in_slot_world_def by (intro total_intros; assumption)+

lemma total_basic [total_intros]:
  "total_on in_order (set_entry k bce)" "total_on in_order slots_allocate" "total_on in_order (slots_release d)"
  unfolding set_entry_def slots_allocate_def slots_release_def
  by (intro total_intros preserve_intros; simp)+

lemma total_entries [total_intros]:
  "total_on in_order (update_entry k f)" "total_on in_order (drop_entry k)" "total_on in_order (sync_entry ssl k)"
  unfolding update_entry_def drop_entry_def sync_entry_def
  by (intro total_intros preserve_intros; simp)+

lemma total_flush_entry [total_intros]: "total_on in_order (flush_entry ssl k)"
  unfolding flush_entry_def by (intro total_intros preserve_intros)

text \<open>The two loops that evict entries: the map shrinks.\<close>

lemma sync_entry_length:
  assumes "in_order s" and "sync_entry ssl k s = Some (Inr x, t)"
  shows "length (block_cache t) = length (block_cache s) \<and> in_order t \<and> map_of (block_cache t) k \<noteq> None"
  using assms
  by (auto simp: sync_entry_def bindM_def get_def throw_def ret_def in_slot_world_def in_warehouse_def zoom_def
      set_entry_def modify_def length_map_put_old ordered_map_put
      split: option.splits if_splits sum.splits bind_splits prod.splits)

lemma drop_entry_length:
  assumes "drop_entry k s = Some (Inr x, t)"
  shows "length (block_cache s) = Suc (length (block_cache t))"
  using assms
  by (auto simp: drop_entry_def slots_release_def bindM_def get_def throwIf_def throw_def ret_def modify_def
      intro!: length_map_erase split: option.splits if_splits)

lemma flush_entry_length:
  assumes "in_order s" and "flush_entry ssl k s = Some (Inr x, t)"
  shows "length (block_cache s) = Suc (length (block_cache t))"
proof -
  obtain u where "sync_entry ssl k s = Some (Inr (), u)" "drop_entry k u = Some (Inr x, t)"
    using assms(2) unfolding flush_entry_def by (elim bindM_InrD) simp
  with sync_entry_length [OF assms(1)] drop_entry_length show ?thesis by metis
qed

lemma order_MRU [preserve_intros]: "preserves in_order (replacement_policy_MRU ssl)"
  unfolding replacement_policy_MRU_def by (intro preserve_intros)

lemma total_MRU [total_intros]: "total_on in_order (replacement_policy_MRU ssl)"
  unfolding replacement_policy_MRU_def by (intro total_intros preserve_intros)

lemma lost_MRU [preserve_intros]: "preserves (\<lambda>s. \<not> world_intact ssl s) (replacement_policy_MRU ssl')"
  unfolding replacement_policy_MRU_def by (intro preserve_intros)

lemma MRU_length:
  assumes "in_order s" and "replacement_policy_MRU ssl s = Some (Inr x, t)"
  shows "length (block_cache s) = Suc (length (block_cache t))"
  using assms flush_entry_length
  by (auto simp: replacement_policy_MRU_def bindM_def get_def throwIf_def throw_def ret_def split: if_splits)

lemma total_first_key [total_intros]: "total_on P (bindM first_key f)" if "\<And>x. total_on P (f x)"
  unfolding first_key_def using that by (intro total_intros preserve_intros)

lemma order_first_key [preserve_intros]: "preserves P (bindM first_key f)" if "\<And>x. preserves P (f x)"
  unfolding first_key_def using that by (intro preserve_intros)

lemma total_shrinking:
  assumes "total_on in_order c" and "preserves in_order c"
    and "\<And>s x t. in_order s \<Longrightarrow> c s = Some (Inr x, t) \<Longrightarrow> length (block_cache t) < length (block_cache s)"
  shows "total_on in_order (loop_m b (\<lambda>_. c) ())"
  unfolding total_on_def
proof (intro allI impI)
  fix s :: "'a cache_scheme" assume "in_order s"
  have "\<exists>r s'. loop_m b (\<lambda>_. c) () s = Some (r, s')"
  proof (rule loop_returns [where I = "\<lambda>_. in_order" and f = "\<lambda>_ s. length (block_cache s)"])
    fix s :: "'a cache_scheme" assume o: "in_order s"
    obtain q t where q: "c s = Some (q, t)" using total_onD [OF assms(1) o] by blast
    with o assms(3) preservesD [OF assms(2) o q]
    show "\<exists>q t. c s = Some (q, t) \<and> (\<forall>l'. q = Inr l' \<longrightarrow> in_order t \<and> length (block_cache t) < length (block_cache s))"
      by blast
  qed fact
  then show "loop_m b (\<lambda>_. c) () s \<noteq> None" by auto
qed

lemma total_loops [total_intros]:
  "total_on in_order (replacement_loop ssl)" "total_on in_order (cache_flush ssl)" "total_on in_order cache_drop"
proof -
  show "total_on in_order (replacement_loop ssl)"
    unfolding replacement_loop_def
    by (rule total_shrinking) (auto intro: total_intros preserve_intros dest: MRU_length)
  show "total_on in_order (cache_flush ssl)"
    unfolding cache_flush_def
    by (rule total_shrinking)
      (auto intro: total_intros preserve_intros simp: first_key_def exec_simps dest: flush_entry_length)
  show "total_on in_order cache_drop"
    unfolding cache_drop_def
    by (rule total_shrinking)
      (auto intro: total_intros preserve_intros simp: first_key_def exec_simps dest: drop_entry_length)
qed

lemma order_loops [preserve_intros]:
  "preserves in_order (replacement_loop ssl)" "preserves in_order (cache_flush ssl)"
  unfolding replacement_loop_def cache_flush_def by (intro preserve_intros)+

lemma lost_loops [preserve_intros]:
  "preserves (\<lambda>s. \<not> world_intact ssl s) (replacement_loop ssl')"
  "preserves (\<lambda>s. \<not> world_intact ssl s) (cache_flush ssl')"
  unfolding replacement_loop_def cache_flush_def by (intro preserve_intros)+

lemma policy_structure [total_intros, preserve_intros]:
  "total_on in_order (replacement_policy ssl)" "preserves in_order (replacement_policy ssl)"
  "preserves (\<lambda>s. \<not> world_intact ssl' s) (replacement_policy ssl)"
  unfolding replacement_policy_def by (intro total_intros preserve_intros)+

lemma put_structure [total_intros, preserve_intros]:
  "total_on in_order (cache_put k d)" "preserves in_order (cache_put k d)"
  "preserves (\<lambda>s. \<not> world_intact ssl s) (cache_put k d)"
  unfolding cache_put_def by (intro total_intros preserve_intros; simp)+

lemma entry_structure [total_intros, preserve_intros]:
  "total_on in_order (cache_pin k)" "preserves in_order (cache_pin k)" "preserves (\<lambda>s. \<not> world_intact ssl s) (cache_pin k)"
  "total_on in_order (cache_unpin k)" "preserves in_order (cache_unpin k)" "preserves (\<lambda>s. \<not> world_intact ssl s) (cache_unpin k)"
  "total_on in_order (cache_modified k)" "preserves in_order (cache_modified k)"
  "preserves (\<lambda>s. \<not> world_intact ssl s) (cache_modified k)"
  "total_on in_order (cache_done k b)" "preserves in_order (cache_done k b)"
  "preserves (\<lambda>s. \<not> world_intact ssl s) (cache_done k b)"
  unfolding cache_pin_def cache_unpin_def cache_modified_def cache_done_def by (intro total_intros preserve_intros)+

lemma fetch_structure [total_intros, preserve_intros]:
  "total_on in_order (fetch_block ssl k)" "preserves in_order (fetch_block ssl k)"
  "preserves (\<lambda>s. \<not> world_intact ssl' s) (fetch_block ssl k)"
  unfolding fetch_block_def by (intro total_intros preserve_intros)+

lemma load_structure [total_intros, preserve_intros]:
  "total_on in_order (load_block ssl k pin)" "preserves in_order (load_block ssl k pin)"
  "preserves (\<lambda>s. \<not> world_intact ssl' s) (load_block ssl k pin)"
  unfolding load_block_def by (intro total_intros preserve_intros)+

lemma grab_structure [total_intros, preserve_intros]:
  "total_on in_order (grab k)" "preserves in_order (grab k)" "preserves (\<lambda>s. \<not> world_intact ssl s) (grab k)"
  unfolding grab_def by (intro total_intros preserve_intros)+

lemma retrieve_structure [total_intros, preserve_intros]:
  "total_on in_order (retrieve ssl k pin)" "preserves in_order (retrieve ssl k pin)"
  "preserves (\<lambda>s. \<not> world_intact ssl' s) (retrieve ssl k pin)"
  unfolding retrieve_def by (intro total_intros preserve_intros)+

end
