(* ===== verification/Cache_Contents.thy ===== *)
theory Cache_Contents
  imports Block_Cache "HOL-Library.Multiset"
begin

text \<open>
  What the cache stands for. \<open>contents ssl s Ms\<close> says that the state \<open>s\<close> of cache, warehouse and
  host holds the blocks \<open>Ms\<close>: each block is in its slot, or can be loaded from the host's store under
  its identifier. The lemmas show that evicting, synchronizing and loading blocks change where a
  block is and never what it holds, and that the slots are always accounted for.
\<close>

lemmas run_defs = bindM_def get_def throwIf_def throw_def ret_def modify_def

lemma bindM_SomeD:
  assumes "bindM m f s = Some (r, s')"
  shows "(\<exists>e. m s = Some (Inl e, s') \<and> r = Inl e) \<or> (\<exists>x t. m s = Some (Inr x, t) \<and> f x t = Some (r, s'))"
proof (cases "m s")
  case None
  with assms show ?thesis by (simp add: bindM_def)
next
  case (Some p)
  with assms show ?thesis by (cases p; cases "fst p") (auto simp: bindM_def)
qed

section \<open>Multisets of entries\<close>

lemma mset_map_erase: "map_of m k = Some v \<Longrightarrow> mset m = add_mset (k, v) (mset (map_erase k m))"
  by (induction k m rule: map_erase.induct) (auto split: if_splits)

lemma mset_map_put_new: "map_of m k = None \<Longrightarrow> mset (map_put k v m) = add_mset (k, v) (mset m)"
  by (induction k v m rule: map_put.induct) (auto split: if_splits)

lemma map_put_old:
  "ordered m \<Longrightarrow> map_of m k = Some v \<Longrightarrow> f v = f v' \<Longrightarrow> map (\<lambda>x. f (snd x)) (map_put k v' m) = map (\<lambda>x. f (snd x)) m"
  by (induction k v' m rule: map_put.induct)
    (auto simp: ordered_Cons map_of_ordered_None split: if_splits dest!: map_of_SomeD)

lemma map_erase_put: "ordered m \<Longrightarrow> map_of m k = Some v \<Longrightarrow> map_erase k (map_put k v' m) = map_erase k m"
  by (induction k v' m rule: map_put.induct) (auto simp: ordered_Cons split: if_splits dest!: map_of_SomeD)

section \<open>The invariant\<close>

text \<open>Every slot is in the queue or belongs to one entry.\<close>

definition slots_ok :: "'z cache_scheme \<Rightarrow> bool" where
  "slots_ok s \<longleftrightarrow> in_order s \<and> length (data_nodes s) = 512
     \<and> mset (dn_queue s) + mset (map (\<lambda>x. slot (snd x)) (block_cache s)) = mset [0..<512]"

text \<open>The host answers, and its store has every block it was given under the hash of the block.\<close>

definition store_ok :: "openssl \<Rightarrow> env \<Rightarrow> bool" where
  "store_ok ssl e \<longleftrightarrow> (\<forall>b \<in> set (env_puts e). env_store e (evp_sha256 ssl b) = Some b)"

definition world_ok :: "openssl \<Rightarrow> 'z cache_scheme \<Rightarrow> bool" where
  "world_ok ssl s \<longleftrightarrow> ocalls_ok (world s) \<and> store_ok ssl (world s)
     \<and> length (state_encryption_key (warehouse s)) = SYM_KEY_LEN"

definition crypto_ok :: "openssl \<Rightarrow> bool" where
  "crypto_ok ssl \<longleftrightarrow> gcm_correct ssl \<and> rand_correct ssl \<and> sha256_correct ssl"

text \<open>A block with its free space can be loaded from the host; a data node holds a block.\<close>

definition persisted :: "openssl \<Rightarrow> 'z cache_scheme \<Rightarrow> nat \<Rightarrow> bytes \<Rightarrow> nat \<Rightarrow> bool" where
  "persisted ssl s k pl fb \<longleftrightarrow> (\<exists>ct \<in> set (env_puts (world s)). evp_sha256 ssl ct = blockIds (warehouse s) ! k
     \<and> DecryptMessage ssl (state_encryption_key (warehouse s)) ct = Inr (make_offset k fb @ pl))"

definition on_host :: "openssl \<Rightarrow> 'z cache_scheme \<Rightarrow> nat \<Rightarrow> bytes \<Rightarrow> bool" where
  "on_host ssl s k pl \<longleftrightarrow> (\<exists>fb \<le> 8184. persisted ssl s k pl fb)"

definition holds :: "data_node \<Rightarrow> nat \<Rightarrow> bytes \<Rightarrow> bool" where
  "holds dn k pl \<longleftrightarrow> wf_data_node dn \<and> dn_block_num dn = k \<and> drop 8 (dn_data dn) = pl"

definition block_ok :: "openssl \<Rightarrow> 'z cache_scheme \<Rightarrow> nat \<Rightarrow> bytes \<Rightarrow> bool" where
  "block_ok ssl s k pl \<longleftrightarrow> length pl = 8184 \<and>
     (case map_of (block_cache s) k of
        None \<Rightarrow> on_host ssl s k pl
      | Some bce \<Rightarrow> holds (data_nodes s ! slot bce) k pl \<and> (is_modified bce \<or> on_host ssl s k pl))"

text \<open>
  After a store is opened, the block of the free table may stay in the cache under the number that
  the next block to be appended will get; it is neither modified nor pinned.
\<close>

definition contents :: "openssl \<Rightarrow> 'z cache_scheme \<Rightarrow> bytes list \<Rightarrow> bool" where
  "contents ssl s Ms \<longleftrightarrow> slots_ok s \<and> world_ok ssl s
     \<and> length (blockIds (warehouse s)) = length Ms \<and> length Ms < 2147483648
     \<and> (\<forall>k < length Ms. block_ok ssl s k (Ms ! k))
     \<and> (\<forall>k bce. map_of (block_cache s) k = Some bce \<longrightarrow> length Ms \<le> k \<longrightarrow>
          k = length Ms \<and> \<not> is_modified bce \<and> \<not> pinned bce)"

section \<open>Consequences of the slots' partition\<close>

lemma slots_distinct:
  assumes "slots_ok s"
  shows "distinct (dn_queue s @ map (\<lambda>x. slot (snd x)) (block_cache s))"
    and "set (dn_queue s @ map (\<lambda>x. slot (snd x)) (block_cache s)) = {0..<512}"
    and "length (dn_queue s) + length (block_cache s) = 512"
proof -
  have m: "mset (dn_queue s @ map (\<lambda>x. slot (snd x)) (block_cache s)) = mset [0..<512]"
    using assms by (simp add: slots_ok_def)
  from mset_eq_imp_distinct_iff [OF m]
  show "distinct (dn_queue s @ map (\<lambda>x. slot (snd x)) (block_cache s))" by (simp only: distinct_upt)
  from mset_eq_setD [OF m] show "set (dn_queue s @ map (\<lambda>x. slot (snd x)) (block_cache s)) = {0..<512}"
    by (simp only: set_upt)
  from mset_eq_length [OF m] show "length (dn_queue s) + length (block_cache s) = 512" by simp
qed

lemma slot_bound: "slots_ok s \<Longrightarrow> map_of (block_cache s) k = Some bce \<Longrightarrow> slot bce < 512"
proof -
  assume s: "slots_ok s" and "map_of (block_cache s) k = Some bce"
  then have "slot bce \<in> set (dn_queue s @ map (\<lambda>x. slot (snd x)) (block_cache s))"
    by (force dest!: map_of_SomeD)
  then show ?thesis unfolding slots_distinct(2) [OF s] by simp
qed

lemma slot_inj:
  assumes "slots_ok s" and "map_of (block_cache s) k = Some bce" and "map_of (block_cache s) j = Some bce'"
    and "k \<noteq> j"
  shows "slot bce \<noteq> slot bce'"
proof -
  have "distinct (map (\<lambda>x. slot (snd x)) (block_cache s))" using slots_distinct(1) [OF assms(1)] by simp
  with assms(2-4) show ?thesis
    by (auto simp: distinct_map inj_on_def dest!: map_of_SomeD) (metis snd_conv prod.inject)+
qed

lemma slot_free: "slots_ok s \<Longrightarrow> map_of (block_cache s) k = Some bce \<Longrightarrow> slot bce \<notin> set (dn_queue s)"
  using slots_distinct(1) [of s] by (force dest!: map_of_SomeD)

lemma contents_slot:
  "contents ssl s Ms \<Longrightarrow> map_of (block_cache s) k = Some bce \<Longrightarrow>
   k \<le> length Ms \<and> k < 2147483648 \<and> slot bce < length (data_nodes s)"
  using slot_bound [of s k bce] by (fastforce simp: contents_def slots_ok_def)

lemma persisted_mono:
  "persisted ssl s k pl fb \<Longrightarrow> set (env_puts (world s)) \<subseteq> set (env_puts (world s')) \<Longrightarrow>
   blockIds (warehouse s') ! k = blockIds (warehouse s) ! k \<Longrightarrow>
   state_encryption_key (warehouse s') = state_encryption_key (warehouse s) \<Longrightarrow> persisted ssl s' k pl fb"
  by (auto simp: persisted_def)

lemma on_host_mono:
  "on_host ssl s k pl \<Longrightarrow> set (env_puts (world s)) \<subseteq> set (env_puts (world s')) \<Longrightarrow>
   blockIds (warehouse s') ! k = blockIds (warehouse s) ! k \<Longrightarrow>
   state_encryption_key (warehouse s') = state_encryption_key (warehouse s) \<Longrightarrow> on_host ssl s' k pl"
  by (auto simp: on_host_def intro: persisted_mono)

lemma store_ok_put:
  assumes "store_ok ssl e" and "intact ssl (host_put (evp_sha256 ssl ct) ct e)"
  shows "store_ok ssl (host_put (evp_sha256 ssl ct) ct e)"
  using assms by (auto simp: store_ok_def intact_def inj_on_def)

section \<open>Synchronizing and dropping one entry\<close>

lemma map_put_same: "ordered m \<Longrightarrow> map_of m k = Some v \<Longrightarrow> map_put k v m = m"
  by (induction k v m rule: map_put.induct) (auto simp: ordered_Cons split: if_splits dest!: map_of_SomeD)

text \<open>
  What remains of a state when blocks are evicted: the entries that stay are untouched. The
  blocks in \<open>K\<close> are left out of the comparison.
\<close>

definition evolves :: "nat set \<Rightarrow> 'z cache_scheme \<Rightarrow> 'z cache_scheme \<Rightarrow> bool" where
  "evolves K s s' \<longleftrightarrow>
     (\<forall>k bce. k \<notin> K \<longrightarrow> map_of (block_cache s') k = Some bce \<longrightarrow> map_of (block_cache s) k = Some bce
          \<and> data_nodes s' ! slot bce = data_nodes s ! slot bce
          \<and> blockIds (warehouse s') ! k = blockIds (warehouse s) ! k)
     \<and> state_encryption_key (warehouse s') = state_encryption_key (warehouse s)
     \<and> set (env_puts (world s)) \<subseteq> set (env_puts (world s')) \<and> cache.more s' = cache.more s"

definition busy :: "block_cache_entry_t \<Rightarrow> bool" where
  "busy bce \<longleftrightarrow> pinned bce \<or> refs bce \<noteq> 0"

definition keeps_busy :: "nat set \<Rightarrow> 'z cache_scheme \<Rightarrow> 'z cache_scheme \<Rightarrow> bool" where
  "keeps_busy K s s' \<longleftrightarrow> (\<forall>k bce. k \<notin> K \<longrightarrow> map_of (block_cache s) k = Some bce \<longrightarrow> busy bce \<longrightarrow>
     map_of (block_cache s') k = Some bce)"

definition spare :: "'z cache_scheme \<Rightarrow> bool" where
  "spare s \<longleftrightarrow> length (filter (\<lambda>x. busy (snd x)) (block_cache s)) < 512"

lemma evolvesD:
  "evolves K s s' \<Longrightarrow> k \<notin> K \<Longrightarrow> map_of (block_cache s') k = Some bce \<Longrightarrow>
   map_of (block_cache s) k = Some bce \<and> data_nodes s' ! slot bce = data_nodes s ! slot bce
     \<and> blockIds (warehouse s') ! k = blockIds (warehouse s) ! k"
  by (simp add: evolves_def)

lemma keeps_busyD:
  "keeps_busy K s s' \<Longrightarrow> k \<notin> K \<Longrightarrow> map_of (block_cache s) k = Some bce \<Longrightarrow> busy bce \<Longrightarrow>
   map_of (block_cache s') k = Some bce"
  by (simp add: keeps_busy_def)

lemma evolves_refl [simp]: "evolves K s s"
  by (simp add: evolves_def)

lemma evolves_trans: "evolves K s t \<Longrightarrow> evolves K t u \<Longrightarrow> evolves K s u"
  unfolding evolves_def by (metis subset_trans)

lemma evolves_mono: "evolves K s t \<Longrightarrow> K \<subseteq> K' \<Longrightarrow> evolves K' s t"
  unfolding evolves_def by blast

lemma keeps_busy_refl [simp]: "keeps_busy K s s"
  by (simp add: keeps_busy_def)

lemma keeps_busy_trans: "keeps_busy K s t \<Longrightarrow> keeps_busy K t u \<Longrightarrow> keeps_busy K s u"
  by (simp add: keeps_busy_def)

lemma keeps_busy_mono: "keeps_busy K s t \<Longrightarrow> K \<subseteq> K' \<Longrightarrow> keeps_busy K' s t"
  unfolding keeps_busy_def by blast

lemma holds_image: "holds dn k pl \<Longrightarrow> holds (dn\<lparr>dn_data := dn_image dn, dn_original_id := i\<rparr>) k pl"
  by (auto simp: holds_def wf_data_node_def dn_image_def)

lemma sync_entry_run:
  assumes cr: "crypto_ok ssl" and c: "contents ssl s Ms" and e: "map_of (block_cache s) k = Some bce"
  shows "\<exists>s'. sync_entry ssl k s = Some (Inr (), s') \<and> (world_intact ssl s' \<longrightarrow> contents ssl s' Ms)
    \<and> block_cache s' = map_put k (bce\<lparr>is_modified := False\<rparr>) (block_cache s)
    \<and> (\<forall>d. d \<noteq> slot bce \<longrightarrow> data_nodes s' ! d = data_nodes s ! d)
    \<and> (\<forall>j. j \<noteq> k \<longrightarrow> blockIds (warehouse s') ! j = blockIds (warehouse s) ! j)
    \<and> state_encryption_key (warehouse s') = state_encryption_key (warehouse s)
    \<and> set (env_puts (world s)) \<subseteq> set (env_puts (world s')) \<and> cache.more s' = cache.more s"
proof (cases "is_modified bce")
  case False
  then have "bce\<lparr>is_modified := False\<rparr> = bce" by simp
  moreover have "in_order s" using c by (simp add: contents_def slots_ok_def)
  ultimately show ?thesis
    using False e c by (simp add: sync_entry_def exec_simps map_put_same)
next
  case True
  let ?key = "state_encryption_key (warehouse s)" and ?dn = "data_nodes s ! slot bce"
  have k: "k < length Ms" using c e True by (auto simp: contents_def not_le [symmetric])
  have "block_ok ssl s k (Ms ! k)" using c k by (simp add: contents_def)
  then have h: "holds ?dn k (Ms ! k)" using e by (simp add: block_ok_def)
  have w: "world_ok ssl s" and so: "slots_ok s" and len: "length (blockIds (warehouse s)) = length Ms"
    using c by (simp_all add: contents_def)
  obtain ct where un: "dn_unload ssl ?key (?dn, world s) = Some (Inr (evp_sha256 ssl ct),
       (?dn\<lparr>dn_data := dn_image ?dn, dn_original_id := evp_sha256 ssl ct\<rparr>,
        host_put (evp_sha256 ssl ct) ct (world s\<lparr>env_draws := Suc (env_draws (world s))\<rparr>)))"
    and dec: "DecryptMessage ssl ?key ct = Inr (dn_image ?dn)"
    using dn_unload_run [of ssl ?key ?dn "world s"] cr w h
    by (auto simp: crypto_ok_def world_ok_def holds_def)
  define s' where "s' = s\<lparr>data_nodes := (data_nodes s)[slot bce := ?dn\<lparr>dn_data := dn_image ?dn, dn_original_id := evp_sha256 ssl ct\<rparr>],
       world := host_put (evp_sha256 ssl ct) ct (world s\<lparr>env_draws := Suc (env_draws (world s))\<rparr>),
       warehouse := (warehouse s)\<lparr>blockIds := (blockIds (warehouse s))[k := evp_sha256 ssl ct]\<rparr>,
       block_cache := map_put k (bce\<lparr>is_modified := False\<rparr>) (block_cache s),
       synced_count := u32 (synced_count s + 1)\<rparr>"
  have id_len: "length (evp_sha256 ssl ct) = STATE_BLOCK_ID_LENGTH"
    using cr by (simp add: crypto_ok_def sha256_correct_def STATE_BLOCK_ID_LENGTH_def)
  have run: "sync_entry ssl k s = Some (Inr (), s')"
    using True e un k len id_len
    by (simp add: sync_entry_def in_slot_world_def in_warehouse_def zoom_def update_datablock_id_def run_defs
        set_entry_def s'_def)
  have slots: "slots_ok s'"
    using so e map_put_old [of "block_cache s" k bce slot "bce\<lparr>is_modified := False\<rparr>"]
    by (simp add: slots_ok_def s'_def ordered_map_put)
  have sl: "slot bce < length (data_nodes s)" using contents_slot [OF c e] by simp
  have "contents ssl s' Ms" if i: "world_intact ssl s'"
  proof -
    have "world_ok ssl s'"
      using w i store_ok_put [of ssl "world s\<lparr>env_draws := Suc (env_draws (world s))\<rparr>" ct]
      by (simp add: world_ok_def s'_def world_intact_def) (simp add: store_ok_def)
    moreover have "block_ok ssl s' j (Ms ! j)" if j: "j < length Ms" for j
    proof (cases "j = k")
      case True
      have "persisted ssl s' k (Ms ! k) (dn_free_bytes ?dn)"
        using dec h k len by (auto simp: persisted_def s'_def dn_image_def holds_def)
      moreover have "dn_free_bytes ?dn \<le> 8184" using h by (simp add: holds_def wf_data_node_def)
      ultimately have "on_host ssl s' k (Ms ! k)" by (auto simp: on_host_def)
      then show ?thesis
        using True c k e sl holds_image [OF h] by (simp add: block_ok_def s'_def contents_def)
    next
      case False
      have old: "block_ok ssl s j (Ms ! j)" using c j by (simp add: contents_def)
      have hm: "on_host ssl s j (Ms ! j) \<Longrightarrow> on_host ssl s' j (Ms ! j)"
        by (erule on_host_mono) (use False in \<open>auto simp: s'_def\<close>)
      show ?thesis
      proof (cases "map_of (block_cache s) j")
        case None
        with old hm False show ?thesis by (auto simp: block_ok_def s'_def)
      next
        case (Some b)
        then have "slot b \<noteq> slot bce" using slot_inj [OF so Some e] False by simp
        with old hm False Some show ?thesis by (auto simp: block_ok_def s'_def)
      qed
    qed
    ultimately show ?thesis
      using c k slots by (auto simp: contents_def s'_def split: if_splits)
  qed
  with run show ?thesis by (auto simp: s'_def)
qed

lemma drop_entry_run:
  assumes c: "contents ssl s Ms" and e: "map_of (block_cache s) k = Some bce" and m: "\<not> is_modified bce"
  shows "\<exists>s'. drop_entry k s = Some (Inr (), s') \<and> contents ssl s' Ms
    \<and> s' = s\<lparr>dn_queue := dn_queue s @ [slot bce], block_cache := map_erase k (block_cache s)\<rparr>"
proof -
  let ?s = "s\<lparr>dn_queue := dn_queue s @ [slot bce], block_cache := map_erase k (block_cache s)\<rparr>"
  have so: "slots_ok s" and o: "in_order s" using c by (simp_all add: contents_def slots_ok_def)
  have "block_cache s \<noteq> []" using e by auto
  then have "length (dn_queue s) < 512" using slots_distinct(3) [OF so] by (cases "block_cache s") auto
  then have run: "drop_entry k s = Some (Inr (), ?s)"
    using e so by (simp add: drop_entry_def slots_release_def run_defs slots_ok_def)
  have "slots_ok ?s"
    using so o mset_map_erase [OF e] by (simp add: slots_ok_def ordered_map_erase)
  moreover have "block_ok ssl ?s j (Ms ! j)" if "j < length Ms" for j
  proof -
    have "block_ok ssl s j (Ms ! j)" using c that by (simp add: contents_def)
    moreover have "on_host ssl ?s j (Ms ! j) = on_host ssl s j (Ms ! j)"
      by (simp add: on_host_def persisted_def)
    ultimately show ?thesis using o e m by (auto simp: block_ok_def split: option.splits if_splits)
  qed
  ultimately have "contents ssl ?s Ms"
    using c o by (auto simp: contents_def world_ok_def split: if_splits)
  with run show ?thesis by blast
qed

lemma flush_entry_run:
  assumes cr: "crypto_ok ssl" and c: "contents ssl s Ms" and e: "map_of (block_cache s) k = Some bce"
  shows "\<exists>s'. flush_entry ssl k s = Some (Inr (), s')
    \<and> (world_intact ssl s' \<longrightarrow> contents ssl s' Ms \<and> evolves {} s s' \<and> block_cache s' = map_erase k (block_cache s))"
proof -
  obtain t where t: "sync_entry ssl k s = Some (Inr (), t)" "world_intact ssl t \<longrightarrow> contents ssl t Ms"
      "block_cache t = map_put k (bce\<lparr>is_modified := False\<rparr>) (block_cache s)"
    and d: "\<forall>d. d \<noteq> slot bce \<longrightarrow> data_nodes t ! d = data_nodes s ! d"
      "\<forall>j. j \<noteq> k \<longrightarrow> blockIds (warehouse t) ! j = blockIds (warehouse s) ! j"
      "state_encryption_key (warehouse t) = state_encryption_key (warehouse s)"
      "set (env_puts (world s)) \<subseteq> set (env_puts (world t))" "cache.more t = cache.more s"
    using sync_entry_run [OF cr c e] by blast
  have so: "slots_ok s" and o: "in_order s" using c by (simp_all add: contents_def slots_ok_def)
  have cap: "length (data_nodes t) = length (data_nodes s) \<and> dn_queue t = dn_queue s"
    using t(1) by (auto simp: sync_entry_def in_slot_world_def in_warehouse_def zoom_def run_defs set_entry_def
        split: option.splits if_splits sum.splits bind_splits prod.splits)
  let ?u = "t\<lparr>dn_queue := dn_queue t @ [slot bce], block_cache := map_erase k (block_cache t)\<rparr>"
  have "block_cache s \<noteq> []" using e by auto
  then have "length (dn_queue s) < 512" using slots_distinct(3) [OF so] by (cases "block_cache s") auto
  then have drop: "drop_entry k t = Some (Inr (), ?u)"
    using t(3) cap so by (simp add: drop_entry_def slots_release_def run_defs slots_ok_def)
  have bc: "block_cache ?u = map_erase k (block_cache s)"
    using t(3) map_erase_put [OF o e] by simp
  have "evolves {} s ?u"
    unfolding evolves_def bc
  proof (intro conjI allI impI)
    fix j b assume "j \<notin> {}" and "map_of (map_erase k (block_cache s)) j = Some b"
    with o have j: "j \<noteq> k" "map_of (block_cache s) j = Some b" by (auto split: if_splits)
    with slot_inj [OF so j(2) e] d
    show "map_of (block_cache s) j = Some b" "data_nodes ?u ! slot b = data_nodes s ! slot b"
        "blockIds (warehouse ?u) ! j = blockIds (warehouse s) ! j"
      by simp_all
  qed (use d in simp_all)
  moreover have "contents ssl ?u Ms" if "world_intact ssl ?u"
  proof -
    have ct: "contents ssl t Ms" using that t(2) by (simp add: world_intact_def)
    have et: "map_of (block_cache t) k = Some (bce\<lparr>is_modified := False\<rparr>)" using t(3) by simp
    show ?thesis using drop_entry_run [OF ct et] by auto
  qed
  ultimately show ?thesis
    using t(1) drop bc by (intro exI [of _ ?u]) (auto simp: flush_entry_def bindM_def)
qed

section \<open>The replacement policy\<close>

lemma int32: "k < 2147483648 \<Longrightarrow> to_int32 k = int k" "k < 2147483648 \<Longrightarrow> of_int32 (int k) = k"
  by (simp_all add: to_int32_def of_int32_def Let_def mod_pos_pos_trivial)

text \<open>The scan returns a candidate with the latest clock, when there is a candidate.\<close>

definition scanned :: "(nat \<times> block_cache_entry_t) list \<Rightarrow> int \<Rightarrow> nat \<Rightarrow> bool" where
  "scanned m i clk \<longleftrightarrow> (i = -1 \<and> (\<forall>x \<in> set m. busy (snd x)))
     \<or> (\<exists>k bce. i = int k \<and> (k, bce) \<in> set m \<and> \<not> busy bce \<and> clock bce = clk
          \<and> (\<forall>x \<in> set m. \<not> busy (snd x) \<longrightarrow> clock (snd x) \<le> clk))"

lemma scanned_skip:
  assumes "scanned m i clk" and "busy bce \<or> i \<noteq> -1 \<and> clock bce \<le> clk"
  shows "scanned (m @ [(k, bce)]) i clk"
  using assms unfolding scanned_def by (elim disjE; simp) metis+

lemma scanned_take:
  assumes "scanned m i clk" and "\<not> busy bce" and "i = -1 \<or> clk < clock bce"
  shows "scanned (m @ [(k, bce)]) (int k) (clock bce)"
proof -
  have "\<forall>x \<in> set m. \<not> busy (snd x) \<longrightarrow> clock (snd x) \<le> clock bce"
    using assms(1,3) unfolding scanned_def by (elim disjE) fastforce+
  then show ?thesis using assms(2) unfolding scanned_def by auto
qed

lemma mru_scan_spec:
  assumes "\<forall>x \<in> set m. fst x < 2147483648" and "scanned p i clk"
  shows "\<exists>clk'. scanned (p @ m) (mru_scan m i clk) clk'"
  using assms
proof (induction m arbitrary: i clk p)
  case Nil
  then show ?case by auto
next
  case (Cons x m)
  obtain k bce where x: "x = (k, bce)" by (cases x)
  have k: "to_int32 k = int k" using Cons.prems(1) x by (simp add: int32)
  show ?case
  proof (cases "\<not> busy bce \<and> (i = -1 \<or> clk < clock bce)")
    case True
    then have "mru_scan (x # m) i clk = mru_scan m (int k) (clock bce)"
      using x k by (simp add: busy_def)
    then show ?thesis
      using Cons.IH [OF _ scanned_take [OF Cons.prems(2), of bce k]] Cons.prems(1) True x by simp
  next
    case False
    then have "mru_scan (x # m) i clk = mru_scan m i clk" using x by (auto simp: busy_def)
    then show ?thesis
      using Cons.IH [OF _ scanned_skip [OF Cons.prems(2), of bce k]] Cons.prems(1) False x by (simp add: not_less)
  qed
qed

lemma contents_keys:
  assumes c: "contents ssl s Ms"
  shows "\<forall>x \<in> set (block_cache s). fst x < 2147483648"
proof
  fix x assume "x \<in> set (block_cache s)"
  moreover have "in_order s" using c by (simp add: contents_def slots_ok_def)
  ultimately have "map_of (block_cache s) (fst x) = Some (snd x)" using map_of_ordered [of "block_cache s" "fst x" "snd x"] by simp
  then show "fst x < 2147483648" using contents_slot [OF c] by blast
qed

lemma MRU_run:
  assumes cr: "crypto_ok ssl" and c: "contents ssl s Ms" and sp: "spare s" and full: "length (block_cache s) = 512"
  shows "\<exists>s'. replacement_policy_MRU ssl s = Some (Inr (), s')
    \<and> (world_intact ssl s' \<longrightarrow> contents ssl s' Ms \<and> evolves {} s s' \<and> keeps_busy {} s s' \<and> spare s')"
proof -
  have o: "in_order s" using c by (simp add: contents_def slots_ok_def)
  have keys: "\<forall>x \<in> set (block_cache s). fst x < 2147483648" using contents_keys [OF c] .
  have free: "\<exists>x \<in> set (block_cache s). \<not> busy (snd x)"
  proof (rule ccontr)
    assume "\<not> ?thesis"
    then have "filter (\<lambda>x. busy (snd x)) (block_cache s) = block_cache s" by (auto simp: filter_id_conv)
    with sp full show False by (simp add: spare_def)
  qed
  obtain clk where "scanned (block_cache s) (mru_scan (block_cache s) (-1) 0) clk"
    using mru_scan_spec [OF keys, of "[]" "-1" 0] by (auto simp: scanned_def)
  with free obtain k bce where k: "mru_scan (block_cache s) (-1) 0 = int k" "(k, bce) \<in> set (block_cache s)" "\<not> busy bce"
    unfolding scanned_def by blast
  have e: "map_of (block_cache s) k = Some bce" using k(2) map_of_ordered [OF o] by simp
  have i: "of_int32 (int k) = k" "int k \<noteq> -1" using contents_slot [OF c e] by (simp_all add: int32)
  obtain s' where s': "flush_entry ssl k s = Some (Inr (), s')"
      "world_intact ssl s' \<longrightarrow> contents ssl s' Ms \<and> evolves {} s s' \<and> block_cache s' = map_erase k (block_cache s)"
    using flush_entry_run [OF cr c e] by blast
  have "keeps_busy {} s s' \<and> spare s'" if b: "block_cache s' = map_erase k (block_cache s)"
  proof
    show "keeps_busy {} s s'" using b o e k(3) by (auto simp: keeps_busy_def)
    have "mset (block_cache s) = add_mset (k, bce) (mset (block_cache s'))" using mset_map_erase [OF e] b by simp
    then have "filter_mset (\<lambda>x. busy (snd x)) (mset (block_cache s')) \<subseteq># filter_mset (\<lambda>x. busy (snd x)) (mset (block_cache s))"
      by (auto intro: multiset_filter_mono)
    from size_mset_mono [OF this] sp show "spare s'"
      by (simp add: spare_def mset_filter [symmetric] del: mset_filter)
  qed
  moreover have "replacement_policy_MRU ssl s = Some (Inr (), s')"
    using s'(1) k(1) i by (simp add: replacement_policy_MRU_def run_defs)
  ultimately show ?thesis using s'(2) by blast
qed

lemma replacement_policy_triple:
  assumes cr: "crypto_ok ssl"
  shows "triple (world_intact ssl) (\<lambda>s. s = s0 \<and> contents ssl s Ms \<and> spare s) (replacement_policy ssl)
    (\<lambda>_ s. contents ssl s Ms \<and> evolves {} s0 s \<and> keeps_busy {} s0 s \<and> spare s \<and> length (block_cache s) < 512)"
proof -
  let ?I = "\<lambda>(_ :: unit) s. contents ssl s Ms \<and> evolves {} s0 s \<and> keeps_busy {} s0 s \<and> spare s"
  have "triple (world_intact ssl) (?I ()) (replacement_loop ssl)
      (\<lambda>x s. ?I x s \<and> \<not> BLOCK_CACHE_MAX_ITEMS \<le> length (block_cache s))"
    unfolding replacement_loop_def
  proof (rule triple_loop [where I = ?I], goal_cases)
    case (1 l)
    show ?case
    proof (rule triple_run)
      fix s assume "?I l s \<and> BLOCK_CACHE_MAX_ITEMS \<le> length (block_cache s)"
      then have s: "contents ssl s Ms" "evolves {} s0 s" "keeps_busy {} s0 s" "spare s" "512 \<le> length (block_cache s)"
        by simp_all
      then have "length (block_cache s) = 512" using slots_distinct(3) [of s] by (simp add: contents_def)
      from MRU_run [OF cr s(1,4) this] s(2,3)
      show "\<exists>x s'. replacement_policy_MRU ssl s = Some (Inr x, s') \<and> (world_intact ssl s' \<longrightarrow> ?I x s')"
        by (meson evolves_trans keeps_busy_trans)
    qed
  next
    case (2 l)
    show ?case by (intro preserve_intros)
  qed
  then have loop: "triple (world_intact ssl) (?I ()) (replacement_loop ssl)
      (\<lambda>_ s. contents ssl s Ms \<and> evolves {} s0 s \<and> keeps_busy {} s0 s \<and> spare s \<and> length (block_cache s) < 512)"
    by (rule triple_conseq) simp_all
  show ?thesis
  proof (rule tripleI)
    fix s r s' assume p: "s = s0 \<and> contents ssl s Ms \<and> spare s" and run: "replacement_policy ssl s = Some (r, s')"
      and i: "world_intact ssl s'"
    have "slots_ok s" using p by (auto simp: contents_def)
    then have "length (block_cache s) + available_slots s = 512"
      using slots_distinct(3) by (simp add: available_slots_def add.commute)
    then have "replacement_loop ssl s = Some (r, s')" using run by (simp add: replacement_policy_def run_defs)
    from tripleD [OF loop _ this i] p
    show "\<exists>x. r = Inr x \<and> contents ssl s' Ms \<and> evolves {} s0 s' \<and> keeps_busy {} s0 s' \<and> spare s' \<and> length (block_cache s') < 512"
      by auto
  qed
qed

section \<open>Loading and retrieving\<close>

lemma contents_update_entry:
  assumes c: "contents ssl s Ms" and e: "map_of (block_cache s) k = Some bce" and k: "k < length Ms"
    and b: "slot bce' = slot bce" "is_modified bce \<longrightarrow> is_modified bce'"
  shows "contents ssl (block_cache_update (map_put k bce') s) Ms"
proof -
  let ?s = "block_cache_update (map_put k bce') s"
  have o: "in_order s" using c by (simp add: contents_def slots_ok_def)
  have "slots_ok ?s"
    using c o map_put_old [OF o e, of slot bce'] b(1) by (simp add: contents_def slots_ok_def ordered_map_put)
  moreover have "block_ok ssl ?s j (Ms ! j)" if "j < length Ms" for j
  proof -
    have "block_ok ssl s j (Ms ! j)" using c that by (simp add: contents_def)
    moreover have "on_host ssl ?s j (Ms ! j) = on_host ssl s j (Ms ! j)" by (simp add: on_host_def persisted_def)
    ultimately show ?thesis using e b by (auto simp: block_ok_def split: option.splits)
  qed
  ultimately show ?thesis using c k by (auto simp: contents_def world_ok_def)
qed

text \<open>Placing a data node that holds an uncached block in the slot at the head of the queue.\<close>

lemma contents_install:
  assumes c: "contents ssl s Ms" and q: "dn_queue s = d # q" and new: "map_of (block_cache s) k = None"
    and k: "k < length Ms" and dn: "holds dn k (Ms ! k)" and b: "slot bce = d"
  shows "contents ssl (s\<lparr>dn_queue := q, data_nodes := (data_nodes s)[d := dn], cache_clock := n,
      block_cache := map_put k bce (block_cache s)\<rparr>) Ms"
    and "evolves {k} s (s\<lparr>dn_queue := q, data_nodes := (data_nodes s)[d := dn], cache_clock := n,
      block_cache := map_put k bce (block_cache s)\<rparr>)"
proof -
  let ?s = "s\<lparr>dn_queue := q, data_nodes := (data_nodes s)[d := dn], cache_clock := n,
      block_cache := map_put k bce (block_cache s)\<rparr>"
  have so: "slots_ok s" and o: "in_order s" using c by (simp_all add: contents_def slots_ok_def)
  have d: "d < length (data_nodes s)"
    using slots_distinct(2) [OF so] q so by (auto simp: slots_ok_def)
  have ne: "d \<noteq> slot b" if "map_of (block_cache s) j = Some b" for j b
    using slot_free [OF so that] q by auto
  have "slots_ok ?s"
    using so o q b mset_map_put_new [OF new, of bce] by (simp add: slots_ok_def ordered_map_put)
  moreover have "block_ok ssl ?s j (Ms ! j)" if j: "j < length Ms" for j
  proof -
    have old: "block_ok ssl s j (Ms ! j)" using c j by (simp add: contents_def)
    have hs: "on_host ssl ?s j (Ms ! j) = on_host ssl s j (Ms ! j)" by (simp add: on_host_def persisted_def)
    show ?thesis
    proof (cases "j = k")
      case True
      with old hs new dn d b show ?thesis by (auto simp: block_ok_def)
    next
      case False
      with old hs ne show ?thesis by (auto simp: block_ok_def split: option.splits)
    qed
  qed
  ultimately show "contents ssl ?s Ms" using c k by (auto simp: contents_def world_ok_def)
  show "evolves {k} s ?s" using ne by (auto simp: evolves_def)
qed

lemma fetch_block_run:
  assumes c: "contents ssl s Ms" and q: "dn_queue s = d # q" and new: "map_of (block_cache s) k = None"
    and k: "k < length Ms"
  shows "\<exists>dn. holds dn k (Ms ! k)
    \<and> fetch_block ssl k s = Some (Inr d, s\<lparr>dn_queue := q, data_nodes := (data_nodes s)[d := dn]\<rparr>)"
proof -
  let ?key = "state_encryption_key (warehouse s)" and ?id = "blockIds (warehouse s) ! k"
  have so: "slots_ok s" using c by (simp add: contents_def)
  have d: "d < length (data_nodes s)" using slots_distinct(2) [OF so] q so by (auto simp: slots_ok_def)
  have "block_ok ssl s k (Ms ! k)" using c k by (simp add: contents_def)
  then obtain fb ct where fb: "fb \<le> 8184" and pl: "length (Ms ! k) = 8184"
      and ct: "ct \<in> set (env_puts (world s))" "evp_sha256 ssl ct = ?id"
        "DecryptMessage ssl ?key ct = Inr (make_offset k fb @ Ms ! k)"
    using new by (auto simp: block_ok_def on_host_def persisted_def)
  have w: "ocalls_ok (world s)" "env_store (world s) ?id = Some ct"
    using c ct(1,2) by (auto simp: contents_def world_ok_def store_ok_def)
  have k32: "k < 4294967296" using c k by (simp add: contents_def)
  let ?raw = "deserialize_original_encrypted_data_id ?id (data_nodes s ! d)"
  let ?dn = "?raw\<lparr>dn_data := make_offset k fb @ Ms ! k, dn_block_num := k, dn_free_bytes := fb\<rparr>"
  have ld: "dn_load ssl ?key (?raw, world s) = Some (Inr (), (?dn, world s))"
    by (rule dn_load_run) (use w ct fb k32 in \<open>auto simp: deserialize_original_encrypted_data_id_def\<close>)
  have "holds ?dn k (Ms ! k)" using pl fb k32 by (simp add: holds_def wf_data_node_def)
  moreover have "length (blockIds (warehouse s)) = length Ms" using c by (simp add: contents_def)
  ultimately show ?thesis
    using ld q d k
    by (intro exI [of _ ?dn])
      (simp add: fetch_block_def in_warehouse_def in_slot_def in_slot_world_def zoom_def
        get_datablock_id_from_datablock_num_def slots_allocate_def run_defs)
qed

text \<open>An entry that was just loaded.\<close>

definition fresh_entry :: "bool \<Rightarrow> block_cache_entry_t \<Rightarrow> bool" where
  "fresh_entry pin bce \<longleftrightarrow> pinned bce = pin \<and> refs bce = 0 \<and> \<not> is_modified bce"

lemma place_run:
  assumes c: "contents ssl s Ms" and q: "dn_queue s \<noteq> []" and new: "map_of (block_cache s) k = None"
    and k: "k < length Ms"
  shows "\<exists>s' bce. bindM (fetch_block ssl k) (\<lambda>d. bindM (cache_put k d) (\<lambda>_. if pin then cache_pin k else ret ())) s
      = Some (Inr (), s') \<and> contents ssl s' Ms \<and> evolves {k} s s' \<and> keeps_busy {k} s s'
    \<and> map_of (block_cache s') k = Some bce \<and> fresh_entry pin bce"
proof -
  obtain d q' where q': "dn_queue s = d # q'" using q by (cases "dn_queue s") auto
  obtain dn where dn: "holds dn k (Ms ! k)"
      "fetch_block ssl k s = Some (Inr d, s\<lparr>dn_queue := q', data_nodes := (data_nodes s)[d := dn]\<rparr>)"
    using fetch_block_run [OF c q' new k] by blast
  let ?b0 = "\<lparr>pinned = False, refs = 0, is_modified = False, clock = cache_clock s, slot = d\<rparr>"
  let ?s1 = "s\<lparr>dn_queue := q', data_nodes := (data_nodes s)[d := dn], cache_clock := u64 (cache_clock s + 1),
      block_cache := map_put k ?b0 (block_cache s)\<rparr>"
  note i = contents_install [OF c q' new k dn(1), of ?b0 "u64 (cache_clock s + 1)"]
  have put: "cache_put k d (s\<lparr>dn_queue := q', data_nodes := (data_nodes s)[d := dn]\<rparr>) = Some (Inr (), ?s1)"
    using new by (simp add: cache_put_def set_entry_def run_defs)
  have pin: "(if pin then cache_pin k else ret ()) ?s1 =
      Some (Inr (), if pin then block_cache_update (map_put k (?b0\<lparr>pinned := True\<rparr>)) ?s1 else ?s1)"
    by (simp add: cache_pin_def update_entry_def set_entry_def run_defs)
  let ?s2 = "if pin then block_cache_update (map_put k (?b0\<lparr>pinned := True\<rparr>)) ?s1 else ?s1"
  have "contents ssl ?s2 Ms"
    using i(1) contents_update_entry [of ssl ?s1 Ms k ?b0 "?b0\<lparr>pinned := True\<rparr>"] k by simp
  moreover have "evolves {k} s ?s2" using i(2) by (auto simp: evolves_def)
  moreover have "keeps_busy {k} s ?s2" by (simp add: keeps_busy_def)
  moreover have "map_of (block_cache ?s2) k = Some (?b0\<lparr>pinned := pin\<rparr>)" by simp
  moreover have "fresh_entry pin (?b0\<lparr>pinned := pin\<rparr>)" by (simp add: fresh_entry_def)
  moreover have "bindM (fetch_block ssl k) (\<lambda>d. bindM (cache_put k d) (\<lambda>_. if pin then cache_pin k else ret ())) s
      = Some (Inr (), ?s2)"
    using dn(2) put pin by (simp add: bindM_def)
  ultimately show ?thesis by blast
qed

lemma load_block_triple:
  assumes cr: "crypto_ok ssl"
  shows "triple (world_intact ssl)
    (\<lambda>s. s = s0 \<and> contents ssl s Ms \<and> spare s \<and> k < length Ms \<and> map_of (block_cache s) k = None)
    (load_block ssl k pin)
    (\<lambda>_ s. contents ssl s Ms \<and> evolves {k} s0 s \<and> keeps_busy {k} s0 s
       \<and> (\<exists>bce. map_of (block_cache s) k = Some bce \<and> fresh_entry pin bce))"
  unfolding load_block_def
proof (rule triple_bind)
  let ?Q = "\<lambda>s. contents ssl s Ms \<and> evolves {} s0 s \<and> keeps_busy {} s0 s \<and> length (block_cache s) < 512
      \<and> k < length Ms \<and> map_of (block_cache s) k = None"
  show "triple (world_intact ssl)
      (\<lambda>s. s = s0 \<and> contents ssl s Ms \<and> spare s \<and> k < length Ms \<and> map_of (block_cache s) k = None)
      (replacement_policy ssl) (\<lambda>_. ?Q)"
  proof (rule tripleI)
    fix s r s'
    assume p: "s = s0 \<and> contents ssl s Ms \<and> spare s \<and> k < length Ms \<and> map_of (block_cache s) k = None"
      and run: "replacement_policy ssl s = Some (r, s')" "world_intact ssl s'"
    from tripleD [OF replacement_policy_triple [OF cr, of s0 Ms] _ run] p
    have *: "\<exists>x. r = Inr x \<and> contents ssl s' Ms \<and> evolves {} s0 s' \<and> keeps_busy {} s0 s' \<and> length (block_cache s') < 512"
      by blast
    then have "map_of (block_cache s') k = None"
      using p by (cases "map_of (block_cache s') k") (auto simp: evolves_def)
    with * p show "\<exists>x. r = Inr x \<and> ?Q s'" by blast
  qed
  show "triple (world_intact ssl) ?Q
     (bindM (fetch_block ssl k) (\<lambda>d. bindM (cache_put k d) (\<lambda>_. if pin then cache_pin k else ret ())))
    (\<lambda>_ s. contents ssl s Ms \<and> evolves {k} s0 s \<and> keeps_busy {k} s0 s
       \<and> (\<exists>bce. map_of (block_cache s) k = Some bce \<and> fresh_entry pin bce))" for x
  proof (rule triple_run)
    fix s assume p: "?Q s"
    then have c: "contents ssl s Ms" and new: "map_of (block_cache s) k = None" and k: "k < length Ms" by simp_all
    have "dn_queue s \<noteq> []" using p slots_distinct(3) [of s] by (auto simp: contents_def)
    then obtain s' bce where s': "bindM (fetch_block ssl k) (\<lambda>d. bindM (cache_put k d) (\<lambda>_. if pin then cache_pin k else ret ())) s
      = Some (Inr (), s')" "contents ssl s' Ms" "evolves {k} s s'" "keeps_busy {k} s s'"
      "map_of (block_cache s') k = Some bce" "fresh_entry pin bce"
      using place_run [OF c _ new k, of pin] by blast
    have "evolves {k} s0 s'" "keeps_busy {k} s0 s'"
      using p s'(3,4) evolves_mono [of "{}" s0 s "{k}"] keeps_busy_mono [of "{}" s0 s "{k}"]
      by (auto intro: evolves_trans keeps_busy_trans)
    with s' show "\<exists>x s'. bindM (fetch_block ssl k) (\<lambda>d. bindM (cache_put k d) (\<lambda>_. if pin then cache_pin k else ret ())) s
        = Some (Inr x, s') \<and> (world_intact ssl s' \<longrightarrow> contents ssl s' Ms \<and> evolves {k} s0 s' \<and> keeps_busy {k} s0 s'
          \<and> (\<exists>bce. map_of (block_cache s') k = Some bce \<and> fresh_entry pin bce))"
      by blast
  qed
qed (intro preserve_intros)

text \<open>What a retrieved entry is: the entry that was there or a fresh one, with one reference more.\<close>

definition retrieved :: "bool \<Rightarrow> nat \<Rightarrow> 'z cache_scheme \<Rightarrow> nat \<Rightarrow> 'z cache_scheme \<Rightarrow> bool" where
  "retrieved pin k s d s' \<longleftrightarrow> (\<exists>bce. map_of (block_cache s') k = Some (bce\<lparr>refs := u32 (refs bce + 1)\<rparr>) \<and> slot bce = d
     \<and> (case map_of (block_cache s) k of
          None \<Rightarrow> fresh_entry pin bce
        | Some b \<Rightarrow> bce = b \<and> data_nodes s' ! d = data_nodes s ! d
            \<and> blockIds (warehouse s') ! k = blockIds (warehouse s) ! k))"

lemma grab_run:
  assumes c: "contents ssl s Ms" and k: "k < length Ms" and e: "map_of (block_cache s) k = Some bce"
  shows "grab k s = Some (Inr (slot bce), block_cache_update (map_put k (bce\<lparr>refs := u32 (refs bce + 1)\<rparr>)) s)"
    and "contents ssl (block_cache_update (map_put k (bce\<lparr>refs := u32 (refs bce + 1)\<rparr>)) s) Ms"
  using contents_update_entry [OF c e k, of "bce\<lparr>refs := u32 (refs bce + 1)\<rparr>"] e
  by (simp_all add: grab_def update_entry_def set_entry_def run_defs)

lemma evolves_touch:
  "evolves {k} s0 t \<Longrightarrow> evolves {k} s0 (block_cache_update (map_put k b) t)"
  "keeps_busy {k} s0 t \<Longrightarrow> keeps_busy {k} s0 (block_cache_update (map_put k b) t)"
  by (simp_all add: evolves_def keeps_busy_def)

lemma retrieved_touch:
  assumes "case map_of (block_cache s0) k of None \<Rightarrow> fresh_entry pin bce
     | Some b \<Rightarrow> bce = b \<and> data_nodes t ! slot bce = data_nodes s0 ! slot bce
         \<and> blockIds (warehouse t) ! k = blockIds (warehouse s0) ! k"
  shows "retrieved pin k s0 (slot bce) (block_cache_update (map_put k (bce\<lparr>refs := u32 (refs bce + 1)\<rparr>)) t)"
  unfolding retrieved_def using assms by (intro exI [of _ bce]) (simp split: option.splits)

lemma retrieve_triple:
  assumes cr: "crypto_ok ssl"
  shows "triple (world_intact ssl) (\<lambda>s. s = s0 \<and> contents ssl s Ms \<and> spare s \<and> k < length Ms) (retrieve ssl k pin)
    (\<lambda>d s. contents ssl s Ms \<and> evolves {k} s0 s \<and> keeps_busy {k} s0 s \<and> retrieved pin k s0 d s)"
proof (rule tripleI)
  fix s r s'
  assume p: "s = s0 \<and> contents ssl s Ms \<and> spare s \<and> k < length Ms"
    and run: "retrieve ssl k pin s = Some (r, s')" and i: "world_intact ssl s'"
  have c: "contents ssl s0 Ms" and k: "k < length Ms" and sp: "spare s0" and s: "s = s0" using p by auto
  show "\<exists>d. r = Inr d \<and> contents ssl s' Ms \<and> evolves {k} s0 s' \<and> keeps_busy {k} s0 s' \<and> retrieved pin k s0 d s'"
  proof (cases "map_of (block_cache s0) k")
    case (Some bce)
    then have "grab k s0 = Some (r, s')" using run s by (simp add: retrieve_def run_defs)
    with grab_run [OF c k Some] have "r = Inr (slot bce)" "contents ssl s' Ms"
      "s' = block_cache_update (map_put k (bce\<lparr>refs := u32 (refs bce + 1)\<rparr>)) s0" by simp_all
    moreover note evolves_touch [of k s0 s0] retrieved_touch [where ?s0.0 = s0 and k = k and pin = pin and bce = bce and t = s0]
    ultimately show ?thesis using Some by simp
  next
    case None
    have pre: "s0 = s0 \<and> contents ssl s0 Ms \<and> spare s0 \<and> k < length Ms \<and> map_of (block_cache s0) k = None"
      using c sp k None by simp
    have "bindM (load_block ssl k pin) (\<lambda>_. grab k) s0 = Some (r, s')" using None run s by (simp add: retrieve_def run_defs)
    from bindM_SomeD [OF this] show ?thesis
    proof (elim disjE exE conjE)
      fix e assume "load_block ssl k pin s0 = Some (Inl e, s')" "r = Inl e"
      then show ?thesis using tripleD [OF load_block_triple [OF cr] pre _ i] by blast
    next
      fix x t assume l: "load_block ssl k pin s0 = Some (Inr x, t)" and g: "grab k t = Some (r, s')"
      have "world_intact ssl t" using preservesD [OF grab_structure(3) _ g] i by blast
      from tripleD [OF load_block_triple [OF cr] pre l this]
      obtain bce where t: "contents ssl t Ms" "evolves {k} s0 t" "keeps_busy {k} s0 t"
          "map_of (block_cache t) k = Some bce" "fresh_entry pin bce" by blast
      from g grab_run [OF t(1) k t(4)] have "r = Inr (slot bce)" "contents ssl s' Ms"
        "s' = block_cache_update (map_put k (bce\<lparr>refs := u32 (refs bce + 1)\<rparr>)) t" by simp_all
      moreover note evolves_touch(1) [OF t(2)] evolves_touch(2) [OF t(3)] retrieved_touch [where ?s0.0 = s0 and k = k and pin = pin and bce = bce and t = t]
      ultimately show ?thesis using None t(5) by simp
    qed
  qed
qed

end
