(* ===== verification/Free_Space.thy ===== *)
theory Free_Space
  imports Data_Node
begin

text \<open>
  The free space collector (\<open>common/state/free_space_collector.cpp\<close>): a table of free regions
  of the data bytes, ordered by position, with one most recently collected region held back so
  that a value that is overwritten by one of the same size is written in place. A vector
  iterator is an index here.
\<close>

section \<open>Data and operations\<close>

record free_space_item_t =
  fsi_bo :: block_offset_t
  fsi_length :: nat

record free_space_collector =
  is_collection_modified :: bool
  is_fsi_deferred :: bool
  deferred_fsi :: free_space_item_t
  free_space_collection :: "free_space_item_t list"
  original_block_id_of_collection :: bytes

definition sizeof_free_space_item_t :: nat where
  "sizeof_free_space_item_t = 12"

definition new_free_space_collector :: free_space_collector where
  "new_free_space_collector =
     \<lparr>is_collection_modified = False, is_fsi_deferred = False,
      deferred_fsi = \<lparr>fsi_bo = empty_block_offset, fsi_length = 0\<rparr>,
      free_space_collection = [], original_block_id_of_collection = []\<rparr>"

definition bo_before :: "block_offset_t \<Rightarrow> block_offset_t \<Rightarrow> bool" where
  "bo_before a b \<longleftrightarrow> block_num a < block_num b \<or> (block_num a = block_num b \<and> bytes a < bytes b)"

definition are_adjacent :: "block_offset_t \<Rightarrow> nat \<Rightarrow> block_offset_t \<Rightarrow> error + bool" where
  "are_adjacent bo1 length1 bo2 =
     (if block_num bo1 > block_num bo2 \<or> (block_num bo1 = block_num bo2 \<and> bytes bo1 > bytes bo2)
      then Inl (RuntimeError ''free space collector, adjancency error'')
      else Inr (advance_block_offset bo1 length1 = bo2))"

definition erase_item :: "nat \<Rightarrow> free_space_collector \<Rightarrow> free_space_collector" where
  "erase_item i c = c\<lparr>free_space_collection :=
     take i (free_space_collection c) @ drop (Suc i) (free_space_collection c)\<rparr>"

definition insert_item :: "nat \<Rightarrow> free_space_item_t \<Rightarrow> free_space_collector \<Rightarrow> free_space_collector" where
  "insert_item i fsi c = c\<lparr>free_space_collection :=
     take i (free_space_collection c) @ fsi # drop i (free_space_collection c)\<rparr>"

definition merge_with_previous ::
    "nat \<Rightarrow> free_space_item_t \<Rightarrow> (free_space_collector, nat \<times> free_space_item_t) m" where
  "merge_with_previous it fsi =
     (if it = 0 then ret (it, fsi)
      else bindM (get (\<lambda>c. free_space_collection c ! (it - 1))) (\<lambda>prev.
           bindM (liftE (are_adjacent (fsi_bo prev) (fsi_length prev) (fsi_bo fsi))) (\<lambda>adjacent.
           if adjacent
           then bindM (modify (erase_item (it - 1))) (\<lambda>_.
                ret (it - 1, \<lparr>fsi_bo = fsi_bo prev, fsi_length = u32 (fsi_length fsi + fsi_length prev)\<rparr>))
           else ret (it, fsi))))"

definition merge_with_current ::
    "nat \<Rightarrow> free_space_item_t \<Rightarrow> (free_space_collector, free_space_item_t) m" where
  "merge_with_current it fsi =
     bindM (get free_space_collection) (\<lambda>items.
     if it = length items then ret fsi
     else bindM (liftE (are_adjacent (fsi_bo fsi) (fsi_length fsi) (fsi_bo (items ! it)))) (\<lambda>adjacent.
          if adjacent
          then bindM (modify (erase_item it)) (\<lambda>_.
               ret (fsi\<lparr>fsi_length := u32 (fsi_length fsi + fsi_length (items ! it))\<rparr>))
          else ret fsi))"

text \<open>The item is passed by reference: the merged item is the result.\<close>

definition insert_free_space_item ::
    "nat \<Rightarrow> free_space_item_t \<Rightarrow> (free_space_collector, free_space_item_t) m" where
  "insert_free_space_item it fsi =
     bindM (merge_with_previous it fsi) (\<lambda>(it, fsi).
     bindM (merge_with_current it fsi) (\<lambda>fsi.
     bindM (modify (insert_item it fsi)) (\<lambda>_.
     ret fsi)))"

fun collect_position :: "free_space_item_t \<Rightarrow> free_space_item_t list \<Rightarrow> nat" where
  "collect_position fsi [] = 0"
| "collect_position fsi (x # xs) =
     (if bo_before (fsi_bo fsi) (fsi_bo x) then 0 else Suc (collect_position fsi xs))"

definition do_collect :: "free_space_item_t \<Rightarrow> (free_space_collector, free_space_item_t) m" where
  "do_collect fsi =
     bindM (get free_space_collection) (\<lambda>items.
     let it = collect_position fsi items in
     bindM (insert_free_space_item it fsi) (\<lambda>fsi.
     if it \<noteq> length items then ret fsi
     else bindM (modify (is_collection_modified_update (\<lambda>_. True))) (\<lambda>_. ret fsi)))"

definition collect_deferred :: "(free_space_collector, unit) m" where
  "collect_deferred =
     bindM (get deferred_fsi) (\<lambda>fsi.
     bindM (do_collect fsi) (\<lambda>fsi.
     modify (deferred_fsi_update (\<lambda>_. fsi))))"

definition collect :: "block_offset_t \<Rightarrow> nat \<Rightarrow> (free_space_collector, unit) m" where
  "collect bo len =
     (if len = 0 then ret ()
      else bindM (get is_fsi_deferred) (\<lambda>deferred.
           bindM (if deferred
                  then bindM collect_deferred (\<lambda>_.
                       modify (is_fsi_deferred_update (\<lambda>_. False)))
                  else ret ()) (\<lambda>_.
           modify (\<lambda>c. c\<lparr>deferred_fsi := \<lparr>fsi_bo = bo, fsi_length = len\<rparr>, is_fsi_deferred := True\<rparr>))))"

text \<open>The search of \<open>allocate\<close>: the first item that is long enough, with its index.\<close>

fun first_fit :: "nat \<Rightarrow> free_space_item_t list \<Rightarrow> nat \<Rightarrow> (nat \<times> free_space_item_t) option" where
  "first_fit len [] i = None"
| "first_fit len (x # xs) i =
     (if fsi_length x \<ge> len then Some (i, x) else first_fit len xs (Suc i))"

definition allocate_from_table :: "nat \<Rightarrow> (free_space_collector, block_offset_t option) m" where
  "allocate_from_table len =
     bindM (get free_space_collection) (\<lambda>items.
     case first_fit len items 0 of
       None \<Rightarrow> ret None
     | Some (it, x) \<Rightarrow>
         bindM (if fsi_length x = len then modify (erase_item it)
                else modify (free_space_collection_update (\<lambda>_. items[it :=
                       \<lparr>fsi_bo = advance_block_offset (fsi_bo x) len,
                        fsi_length = u32_sub (fsi_length x) len\<rparr>]))) (\<lambda>_.
         bindM (modify (is_collection_modified_update (\<lambda>_. True))) (\<lambda>_.
         ret (Some (fsi_bo x)))))"

definition allocate :: "nat \<Rightarrow> (free_space_collector, block_offset_t option) m" where
  "allocate len =
     bindM (get is_fsi_deferred) (\<lambda>deferred.
     if deferred
     then bindM (modify (is_fsi_deferred_update (\<lambda>_. False))) (\<lambda>_.
          bindM (get deferred_fsi) (\<lambda>fsi.
          if fsi_length fsi = len then ret (Some (fsi_bo fsi))
          else bindM collect_deferred (\<lambda>_. allocate_from_table len)))
     else allocate_from_table len)"

text \<open>The table in a data node of its own: items of twelve bytes, as many as fit.\<close>

definition fsi_image :: "free_space_item_t \<Rightarrow> bytes" where
  "fsi_image fsi = to_ByteArray (fsi_bo fsi) @ le_bytes 4 (fsi_length fsi)"

definition fsi_of_image :: "bytes \<Rightarrow> free_space_item_t" where
  "fsi_of_image b =
     \<lparr>fsi_bo = \<lparr>block_num = le_nat (take 4 b), bytes = le_nat (take 4 (drop 4 b))\<rparr>,
      fsi_length = le_nat (take 4 (drop 8 b))\<rparr>"

fun write_items :: "free_space_item_t list \<Rightarrow> block_offset_t \<Rightarrow> (data_node, unit) m" where
  "write_items [] bo = ret ()"
| "write_items (x # xs) bo =
     bindM (get dn_free_bytes) (\<lambda>free.
     if free < sizeof_free_space_item_t then ret ()
     else bindM (write_at (fsi_image x) 0 bo) (\<lambda>_.
          write_items xs (advance_block_offset bo sizeof_free_space_item_t)))"

definition serialize_in_data_node :: "(free_space_collector \<times> data_node, unit) m" where
  "serialize_in_data_node =
     bindM (get (is_fsi_deferred \<circ> fst)) (\<lambda>deferred.
     bindM (if deferred
            then zoom fst (\<lambda>c (_, dn). (c, dn))
                   (bindM collect_deferred (\<lambda>_.
                    modify (is_fsi_deferred_update (\<lambda>_. False))))
            else ret ()) (\<lambda>_.
     bindM (get (dn_free_bytes \<circ> snd)) (\<lambda>free.
     bindM (throwIf (free \<noteq> data_end_index - data_begin_index)
             (RuntimeError ''serialize free space collector, data node not dedicated'')) (\<lambda>_.
     bindM (get (free_space_collection \<circ> fst)) (\<lambda>items.
     bindM (get (dn_block_num \<circ> snd)) (\<lambda>bn.
     zoom snd (\<lambda>dn (c, _). (c, dn))
       (write_items items \<lparr>block_num = bn, bytes = data_begin_index\<rparr>)))))))"

text \<open>
  The reading loop counts the bytes left down by twelve; it starts from a multiple of twelve, so
  the number of rounds is that multiple.
\<close>

fun read_items :: "nat \<Rightarrow> block_offset_t \<Rightarrow> (free_space_collector \<times> data_node, unit) m" where
  "read_items 0 bo = ret ()"
| "read_items (Suc rounds) bo =
     bindM (zoom snd (\<lambda>dn (c, _). (c, dn)) (read_at bo sizeof_free_space_item_t)) (\<lambda>ba.
     bindM (throwIf (length ba < sizeof_free_space_item_t) (Undefined ''item read past the buffer'')) (\<lambda>_.
     bindM (modify (\<lambda>(c, dn). (c\<lparr>free_space_collection := free_space_collection c @ [fsi_of_image ba]\<rparr>, dn))) (\<lambda>_.
     read_items rounds (advance_block_offset bo sizeof_free_space_item_t))))"

definition deserialize_from_data_node :: "(free_space_collector \<times> data_node, unit) m" where
  "deserialize_from_data_node =
     bindM (get (dn_free_bytes \<circ> snd)) (\<lambda>free.
     bindM (get (dn_block_num \<circ> snd)) (\<lambda>bn.
     let bytes_to_read = u32_sub (data_end_index - data_begin_index) free in
     bindM (throwIf (bytes_to_read mod sizeof_free_space_item_t \<noteq> 0)
             (RuntimeError ''deserialize free space collector, readable bytes not a multiple of item size'')) (\<lambda>_.
     read_items (bytes_to_read div sizeof_free_space_item_t)
       \<lparr>block_num = bn, bytes = data_begin_index\<rparr>)))"

section \<open>Regions, and the invariant of the table\<close>

definition region :: "block_offset_t \<Rightarrow> nat \<Rightarrow> nat set" where
  "region bo n = {lin bo ..< lin bo + n}"

text \<open>A region of at least one byte, in a state of less than 4 GB.\<close>

definition item_ok :: "free_space_item_t \<Rightarrow> bool" where
  "item_ok x \<longleftrightarrow> wf_offset (fsi_bo x) \<and> 0 < fsi_length x \<and> lin (fsi_bo x) + fsi_length x < 4294967296"

definition item_start :: "free_space_item_t \<Rightarrow> nat" where
  "item_start x = lin (fsi_bo x)"

definition item_end :: "free_space_item_t \<Rightarrow> nat" where
  "item_end x = lin (fsi_bo x) + fsi_length x"

definition items_ok :: "free_space_item_t list \<Rightarrow> bool" where
  "items_ok xs \<longleftrightarrow> list_all item_ok xs \<and> sorted_wrt (\<lambda>a b. item_end a \<le> item_start b) xs"

definition items_free :: "free_space_item_t list \<Rightarrow> nat set" where
  "items_free xs = (\<Union>x\<in>set xs. {item_start x ..< item_end x})"

definition fsc_inv :: "free_space_collector \<Rightarrow> bool" where
  "fsc_inv c \<longleftrightarrow> items_ok (free_space_collection c)
     \<and> (is_fsi_deferred c \<longrightarrow> item_ok (deferred_fsi c)
          \<and> {item_start (deferred_fsi c) ..< item_end (deferred_fsi c)} \<inter> items_free (free_space_collection c) = {})"

definition free_set :: "free_space_collector \<Rightarrow> nat set" where
  "free_set c = items_free (free_space_collection c)
     \<union> (if is_fsi_deferred c then {item_start (deferred_fsi c) ..< item_end (deferred_fsi c)} else {})"

lemma item_ok_less: "item_ok x \<Longrightarrow> item_start x < item_end x"
  by (simp add: item_ok_def item_start_def item_end_def)

lemma items_ok_append:
  "items_ok (xs @ ys) \<longleftrightarrow> items_ok xs \<and> items_ok ys \<and> (\<forall>x\<in>set xs. \<forall>y\<in>set ys. item_end x \<le> item_start y)"
  by (auto simp: items_ok_def sorted_wrt_append)

lemma items_ok_Cons:
  "items_ok (x # xs) \<longleftrightarrow> item_ok x \<and> items_ok xs \<and> (\<forall>y\<in>set xs. item_end x \<le> item_start y)"
  by (auto simp: items_ok_def)

lemma items_free_append [simp]: "items_free (xs @ ys) = items_free xs \<union> items_free ys"
  by (simp add: items_free_def)

lemma items_free_Cons [simp]: "items_free (x # xs) = {item_start x ..< item_end x} \<union> items_free xs"
  by (simp add: items_free_def)

lemma items_free_Nil [simp]: "items_free [] = {}"
  by (simp add: items_free_def)

lemma bo_before_lin: "wf_offset a \<Longrightarrow> wf_offset b \<Longrightarrow> bo_before a b \<Longrightarrow> lin a \<le> lin b"
proof -
  assume w: "wf_offset a" "wf_offset b" and b: "bo_before a b"
  show "lin a \<le> lin b"
  proof (cases "block_num a < block_num b")
    case True
    then have "(block_num a + 1) * 8184 \<le> block_num b * 8184" by (intro mult_le_mono1) simp
    then show ?thesis using w by (simp add: lin_def wf_offset_def) linarith
  next
    case False
    then show ?thesis using b by (auto simp: bo_before_def lin_def)
  qed
qed

lemma are_adjacent_run:
  assumes "wf_offset a" and "wf_offset b" and "lin a < lin b" and "lin a + n < 4294967296"
  obtains adj where "are_adjacent a n b = Inr adj" and "adj \<Longrightarrow> lin a + n = lin b"
proof -
  have "\<not> bo_before b a" using bo_before_lin [of b a] assms by auto
  then have run: "are_adjacent a n b = Inr (advance_block_offset a n = b)"
    by (auto simp: are_adjacent_def bo_before_def)
  have "lin a + n = lin b" if "advance_block_offset a n = b"
    using advance_block_offset_lin [of a n] assms that by (auto simp: addr_limit_def)
  with run that show ?thesis by blast
qed

lemma merge_with_previous_run:
  assumes "items_ok (ps @ qs)" and "item_ok fsi" and "free_space_collection c = ps @ qs"
    and "\<forall>p\<in>set ps. item_end p \<le> item_start fsi" and "\<forall>q\<in>set qs. item_end fsi \<le> item_start q"
  obtains ps' fsi' where
    "merge_with_previous (length ps) fsi c =
       Some (Inr (length ps', fsi'), c\<lparr>free_space_collection := ps' @ qs\<rparr>)"
    "items_ok (ps' @ qs)" "item_ok fsi'"
    "\<forall>p\<in>set ps'. item_end p \<le> item_start fsi'" "item_end fsi' = item_end fsi"
    "items_free ps' \<union> {item_start fsi' ..< item_end fsi'} = items_free ps \<union> {item_start fsi ..< item_end fsi}"
proof (cases ps rule: rev_cases)
  case Nil
  then show ?thesis
    using assms that [of "[]" fsi] by (simp add: merge_with_previous_def ret_def)
next
  case (snoc ps1 p)
  have ok: "items_ok ps1" "item_ok p" "items_ok qs" "\<forall>x\<in>set ps1. item_end x \<le> item_start p"
      "item_end p \<le> item_start fsi" "\<forall>x\<in>set ps1. \<forall>q\<in>set qs. item_end x \<le> item_start q"
    using assms snoc by (auto simp: items_ok_append items_ok_Cons)
  have less: "item_start p < item_start fsi" using item_ok_less [OF ok(2)] ok(5) by simp
  obtain adj where adj: "are_adjacent (fsi_bo p) (fsi_length p) (fsi_bo fsi) = Inr adj"
      "adj \<Longrightarrow> item_end p = item_start fsi"
    using are_adjacent_run [of "fsi_bo p" "fsi_bo fsi" "fsi_length p"] ok(2) assms(2) less
    by (auto simp: item_ok_def item_start_def item_end_def)
  have prev: "(ps @ qs) ! (length ps - 1) = p" using snoc by (simp add: nth_append)
  show ?thesis
  proof (cases adj)
    case False
    then have "merge_with_previous (length ps) fsi c = Some (Inr (length ps, fsi), c\<lparr>free_space_collection := ps @ qs\<rparr>)"
      using adj(1) prev assms(3) snoc
      by (simp add: merge_with_previous_def exec_simps)
    then show ?thesis using that assms(1,2,4) by blast
  next
    case True
    define fsi' where "fsi' = \<lparr>fsi_bo = fsi_bo p, fsi_length = fsi_length fsi + fsi_length p\<rparr>"
    have join: "item_end p = item_start fsi" using adj(2) True .
    have ends: "item_start fsi' = item_start p" "item_end fsi' = item_end fsi"
      using join by (simp_all add: fsi'_def item_start_def item_end_def)
    have ok': "item_ok fsi'"
      using ok(2) assms(2) ends by (auto simp: item_ok_def fsi'_def item_start_def item_end_def)
    then have "u32 (fsi_length fsi + fsi_length p) = fsi_length fsi + fsi_length p"
      by (intro u32_id) (simp add: item_ok_def fsi'_def)
    then have "merge_with_previous (length ps) fsi c =
        Some (Inr (length ps1, fsi'), c\<lparr>free_space_collection := ps1 @ qs\<rparr>)"
      using adj(1) True prev assms(3) snoc
      by (simp add: merge_with_previous_def exec_simps erase_item_def fsi'_def)
    moreover have "items_free ps1 \<union> {item_start fsi' ..< item_end fsi'} =
        items_free ps \<union> {item_start fsi ..< item_end fsi}"
      using snoc ends join item_ok_less [OF ok(2)] item_ok_less [OF assms(2)]
      by (auto simp: items_free_def)
    ultimately show ?thesis
      using that ok ok' ends by (auto simp: items_ok_append)
  qed
qed

lemma merge_with_current_run:
  assumes "items_ok (ps @ qs)" and "item_ok fsi" and "free_space_collection c = ps @ qs"
    and "\<forall>p\<in>set ps. item_end p \<le> item_start fsi" and "\<forall>q\<in>set qs. item_end fsi \<le> item_start q"
  obtains qs' fsi' where
    "merge_with_current (length ps) fsi c = Some (Inr fsi', c\<lparr>free_space_collection := ps @ qs'\<rparr>)"
    "items_ok (ps @ qs')" "item_ok fsi'"
    "\<forall>q\<in>set qs'. item_end fsi' \<le> item_start q" "item_start fsi' = item_start fsi"
    "items_free qs' \<union> {item_start fsi' ..< item_end fsi'} = items_free qs \<union> {item_start fsi ..< item_end fsi}"
proof (cases qs)
  case Nil
  then show ?thesis
    using assms that [of fsi "[]"] by (simp add: merge_with_current_def exec_simps)
next
  case (Cons q qs1)
  have ok: "items_ok ps" "item_ok q" "items_ok qs1" "\<forall>x\<in>set qs1. item_end q \<le> item_start x"
      "item_end fsi \<le> item_start q" "\<forall>x\<in>set ps. \<forall>q\<in>set qs1. item_end x \<le> item_start q"
    using assms Cons by (auto simp: items_ok_append items_ok_Cons)
  have less: "item_start fsi < item_start q" using item_ok_less [OF assms(2)] ok(5) by simp
  obtain adj where adj: "are_adjacent (fsi_bo fsi) (fsi_length fsi) (fsi_bo q) = Inr adj"
      "adj \<Longrightarrow> item_end fsi = item_start q"
    using are_adjacent_run [of "fsi_bo fsi" "fsi_bo q" "fsi_length fsi"] ok(2) assms(2) less
    by (auto simp: item_ok_def item_start_def item_end_def)
  have cur: "(ps @ qs) ! length ps = q" "length ps \<noteq> length (ps @ qs)" using Cons by simp_all
  show ?thesis
  proof (cases adj)
    case False
    then have "merge_with_current (length ps) fsi c = Some (Inr fsi, c\<lparr>free_space_collection := ps @ qs\<rparr>)"
      using adj(1) cur assms(3) by (simp add: merge_with_current_def exec_simps)
    then show ?thesis using that assms(1,2,5) by blast
  next
    case True
    define fsi' where "fsi' = fsi\<lparr>fsi_length := fsi_length fsi + fsi_length q\<rparr>"
    have join: "item_end fsi = item_start q" using adj(2) True .
    have ends: "item_start fsi' = item_start fsi" "item_end fsi' = item_end q"
      using join by (simp_all add: fsi'_def item_start_def item_end_def)
    have ok': "item_ok fsi'"
      using ok(2) assms(2) ends by (auto simp: item_ok_def fsi'_def item_start_def item_end_def)
    then have "u32 (fsi_length fsi + fsi_length q) = fsi_length fsi + fsi_length q"
      by (intro u32_id) (simp add: item_ok_def fsi'_def)
    then have "merge_with_current (length ps) fsi c = Some (Inr fsi', c\<lparr>free_space_collection := ps @ qs1\<rparr>)"
      using adj(1) True cur assms(3) Cons
      by (simp add: merge_with_current_def exec_simps erase_item_def fsi'_def)
    moreover have "items_free qs1 \<union> {item_start fsi' ..< item_end fsi'} =
        items_free qs \<union> {item_start fsi ..< item_end fsi}"
      using Cons ends join item_ok_less [OF ok(2)] item_ok_less [OF assms(2)]
      by (auto simp: items_free_def)
    ultimately show ?thesis
      using that ok ok' ends by (auto simp: items_ok_append)
  qed
qed

lemma insert_free_space_item_run:
  assumes "items_ok (ps @ qs)" and "item_ok fsi" and "free_space_collection c = ps @ qs"
    and "\<forall>p\<in>set ps. item_end p \<le> item_start fsi" and "\<forall>q\<in>set qs. item_end fsi \<le> item_start q"
  obtains xs fsi' where
    "insert_free_space_item (length ps) fsi c = Some (Inr fsi', c\<lparr>free_space_collection := xs\<rparr>)"
    "items_ok xs" "items_free xs = items_free (ps @ qs) \<union> {item_start fsi ..< item_end fsi}"
proof -
  obtain ps' f1 where prev:
    "merge_with_previous (length ps) fsi c = Some (Inr (length ps', f1), c\<lparr>free_space_collection := ps' @ qs\<rparr>)"
    "items_ok (ps' @ qs)" "item_ok f1"
    "\<forall>p\<in>set ps'. item_end p \<le> item_start f1" "item_end f1 = item_end fsi"
    "items_free ps' \<union> {item_start f1 ..< item_end f1} = items_free ps \<union> {item_start fsi ..< item_end fsi}"
    using merge_with_previous_run [OF assms] by metis
  have qs: "\<forall>q\<in>set qs. item_end f1 \<le> item_start q" using assms(5) prev(5) by simp
  define c1 where "c1 = c\<lparr>free_space_collection := ps' @ qs\<rparr>"
  have c1: "free_space_collection c1 = ps' @ qs" by (simp add: c1_def)
  obtain qs' f2 where cur:
    "merge_with_current (length ps') f1 c1 = Some (Inr f2, c1\<lparr>free_space_collection := ps' @ qs'\<rparr>)"
    "items_ok (ps' @ qs')" "item_ok f2"
    "\<forall>q\<in>set qs'. item_end f2 \<le> item_start q" "item_start f2 = item_start f1"
    "items_free qs' \<union> {item_start f2 ..< item_end f2} = items_free qs \<union> {item_start f1 ..< item_end f1}"
    using merge_with_current_run [OF prev(2,3) c1 prev(4) qs] by metis
  show ?thesis
  proof (rule that)
    show "insert_free_space_item (length ps) fsi c =
        Some (Inr f2, c\<lparr>free_space_collection := ps' @ f2 # qs'\<rparr>)"
      using prev(1) cur(1) by (simp add: insert_free_space_item_def c1_def exec_simps insert_item_def)
    show "items_ok (ps' @ f2 # qs')"
      using cur(2-5) prev(4) by (auto simp: items_ok_append items_ok_Cons)
    show "items_free (ps' @ f2 # qs') = items_free (ps @ qs) \<union> {item_start fsi ..< item_end fsi}"
      using prev(6) cur(6) by auto
  qed
qed

lemma collect_position_le: "collect_position fsi xs \<le> length xs"
  by (induction xs) auto

lemma disjoint_items_cases:
  assumes "item_ok a" and "item_ok b" and "{item_start a ..< item_end a} \<inter> {item_start b ..< item_end b} = {}"
  shows "item_end a \<le> item_start b \<or> item_end b \<le> item_start a"
proof (rule ccontr)
  assume "\<not> ?thesis"
  then have "max (item_start a) (item_start b) \<in> {item_start a ..< item_end a} \<inter> {item_start b ..< item_end b}"
    using item_ok_less [OF assms(1)] item_ok_less [OF assms(2)] by auto
  then show False using assms(3) by simp
qed

lemma bo_before_items:
  assumes "item_ok a" and "item_ok b" and "{item_start a ..< item_end a} \<inter> {item_start b ..< item_end b} = {}"
  shows "if bo_before (fsi_bo a) (fsi_bo b) then item_end a \<le> item_start b else item_end b \<le> item_start a"
proof -
  have total: "bo_before (fsi_bo a) (fsi_bo b) \<or> bo_before (fsi_bo b) (fsi_bo a) \<or> fsi_bo a = fsi_bo b"
    by (cases "fsi_bo a"; cases "fsi_bo b") (auto simp: bo_before_def)
  have "bo_before (fsi_bo a) (fsi_bo b) \<Longrightarrow> item_start a \<le> item_start b"
    and "bo_before (fsi_bo b) (fsi_bo a) \<Longrightarrow> item_start b \<le> item_start a"
    using bo_before_lin [of "fsi_bo a" "fsi_bo b"] bo_before_lin [of "fsi_bo b" "fsi_bo a"] assms(1,2)
    by (auto simp: item_ok_def item_start_def)
  then show ?thesis
    using disjoint_items_cases [OF assms] total item_ok_less [OF assms(1)] item_ok_less [OF assms(2)]
    by (auto simp: item_start_def)
qed

lemma collect_position_split:
  assumes "items_ok xs" and "item_ok fsi" and "{item_start fsi ..< item_end fsi} \<inter> items_free xs = {}"
  shows "(\<forall>p\<in>set (take (collect_position fsi xs) xs). item_end p \<le> item_start fsi)
    \<and> (\<forall>q\<in>set (drop (collect_position fsi xs) xs). item_end fsi \<le> item_start q)"
  using assms
proof (induction xs)
  case Nil
  then show ?case by simp
next
  case (Cons x xs)
  have x: "item_ok x" "items_ok xs" "\<forall>y\<in>set xs. item_end x \<le> item_start y"
    "{item_start fsi ..< item_end fsi} \<inter> {item_start x ..< item_end x} = {}"
    "{item_start fsi ..< item_end fsi} \<inter> items_free xs = {}"
    using Cons.prems(1,3) by (simp_all add: items_ok_Cons Int_Un_distrib)
  have pos: "if bo_before (fsi_bo fsi) (fsi_bo x) then item_end fsi \<le> item_start x else item_end x \<le> item_start fsi"
    by (rule bo_before_items [OF Cons.prems(2) x(1,4)])
  show ?case
  proof (cases "bo_before (fsi_bo fsi) (fsi_bo x)")
    case True
    then show ?thesis
      using pos x(3) item_ok_less [OF x(1)] by fastforce
  next
    case False
    then show ?thesis
      using pos Cons.IH [OF x(2) Cons.prems(2) x(5)] by simp
  qed
qed

lemma do_collect_run:
  assumes "items_ok (free_space_collection c)" and "item_ok fsi"
    and "{item_start fsi ..< item_end fsi} \<inter> items_free (free_space_collection c) = {}"
  obtains xs fsi' modified where
    "do_collect fsi c = Some (Inr fsi', c\<lparr>free_space_collection := xs, is_collection_modified := modified\<rparr>)"
    "items_ok xs" "items_free xs = items_free (free_space_collection c) \<union> {item_start fsi ..< item_end fsi}"
    "modified = (is_collection_modified c \<or>
       collect_position fsi (free_space_collection c) = length (free_space_collection c))"
proof -
  let ?xs = "free_space_collection c" and ?i = "collect_position fsi (free_space_collection c)"
  have split: "take ?i ?xs @ drop ?i ?xs = ?xs" "length (take ?i ?xs) = ?i"
    by (simp_all add: collect_position_le)
  obtain xs fsi' where ins:
    "insert_free_space_item ?i fsi c = Some (Inr fsi', c\<lparr>free_space_collection := xs\<rparr>)"
    "items_ok xs" "items_free xs = items_free ?xs \<union> {item_start fsi ..< item_end fsi}"
    using insert_free_space_item_run [of "take ?i ?xs" "drop ?i ?xs" fsi c]
      collect_position_split [OF assms] assms(1,2) by (metis split)
  show ?thesis
  proof (rule that)
    show "do_collect fsi c = Some (Inr fsi', c\<lparr>free_space_collection := xs,
        is_collection_modified := (is_collection_modified c \<or> ?i = length ?xs)\<rparr>)"
      by (simp add: do_collect_def Let_def ins(1) exec_simps)
  qed (use ins in simp_all)
qed

section \<open>The contract of a pool of free space\<close>

definition valid_region :: "block_offset_t \<Rightarrow> nat \<Rightarrow> bool" where
  "valid_region bo n \<longleftrightarrow> wf_offset bo \<and> 0 < n \<and> lin bo + n < 4294967296"

definition held_region :: "block_offset_t \<times> nat \<Rightarrow> nat set" where
  "held_region h = region (fst h) (snd h)"

text \<open>
  A pool gives out regions that were free and takes regions back. Its client holds a list of
  regions; the contract makes them disjoint from each other and from what is still free.
\<close>

locale space_pool =
  fixes invar :: "'s \<Rightarrow> bool"
    and free :: "'s \<Rightarrow> nat set"
    and release :: "block_offset_t \<Rightarrow> nat \<Rightarrow> ('s, unit) m"
    and acquire :: "nat \<Rightarrow> ('s, block_offset_t option) m"
  assumes release_law: "invar s \<Longrightarrow> valid_region bo n \<Longrightarrow> region bo n \<inter> free s = {} \<Longrightarrow>
      \<exists>s'. release bo n s = Some (Inr (), s') \<and> invar s' \<and> free s' = free s \<union> region bo n"
    and acquire_law: "invar s \<Longrightarrow> 0 < n \<Longrightarrow>
      \<exists>r s'. acquire n s = Some (Inr r, s') \<and> invar s' \<and>
        (case r of None \<Rightarrow> free s' = free s
         | Some bo \<Rightarrow> valid_region bo n \<and> region bo n \<subseteq> free s \<and> free s' = free s - region bo n)"
begin

definition held_ok :: "'s \<Rightarrow> (block_offset_t \<times> nat) list \<Rightarrow> bool" where
  "held_ok s held \<longleftrightarrow> invar s
     \<and> (\<forall>h\<in>set held. valid_region (fst h) (snd h) \<and> held_region h \<inter> free s = {})
     \<and> sorted_wrt (\<lambda>h h'. held_region h \<inter> held_region h' = {}) held"

lemma held_acquire:
  assumes "held_ok s held" and "0 < n" and "acquire n s = Some (Inr r, s')"
  shows "held_ok s' (case r of None \<Rightarrow> held | Some bo \<Rightarrow> (bo, n) # held)"
proof (cases r)
  case None
  then show ?thesis using assms acquire_law [of s n] by (auto simp: held_ok_def)
next
  case (Some bo)
  then have law: "invar s'" "valid_region bo n" "held_region (bo, n) \<subseteq> free s" "free s' = free s - held_region (bo, n)"
    using assms acquire_law [of s n] by (auto simp: held_ok_def held_region_def)
  have "held_region h \<inter> free s = {}" if "h \<in> set held" for h
    using assms(1) that by (simp add: held_ok_def)
  then have "held_region (bo, n) \<inter> held_region h = {} \<and> held_region h \<inter> free s' = {}" if "h \<in> set held" for h
    using law(3,4) that by blast
  moreover have "held_region (bo, n) \<inter> free s' = {}" using law(4) by blast
  ultimately show ?thesis using law(1,2) assms(1) Some by (simp add: held_ok_def)
qed

lemma held_release:
  assumes "held_ok s (xs @ (bo, n) # ys)"
  obtains s' where "release bo n s = Some (Inr (), s')" and "held_ok s' (xs @ ys)"
proof -
  have *: "invar s" "valid_region bo n" "region bo n \<inter> free s = {}"
    using assms(1) by (auto simp: held_ok_def held_region_def)
  obtain s' where s': "release bo n s = Some (Inr (), s')" "invar s'" "free s' = free s \<union> held_region (bo, n)"
    using release_law [OF *] by (auto simp: held_region_def)
  have h: "held_region h \<inter> free s = {} \<and> held_region h \<inter> held_region (bo, n) = {}"
    if "h \<in> set (xs @ ys)" for h
    using assms that by (auto simp: held_ok_def sorted_wrt_append)
  have "held_region h \<inter> free s' = {}" if "h \<in> set (xs @ ys)" for h
    using h [OF that] s'(3) by blast
  then have "held_ok s' (xs @ ys)"
    using assms s'(2) by (auto simp: held_ok_def sorted_wrt_append)
  then show ?thesis using that s'(1) by blast
qed

end

section \<open>The collector is a pool\<close>

lemma valid_region_item: "valid_region bo n \<longleftrightarrow> item_ok \<lparr>fsi_bo = bo, fsi_length = n\<rparr>"
  by (simp add: valid_region_def item_ok_def)

lemma collect_deferred_run:
  assumes "fsc_inv c" and "is_fsi_deferred c"
  obtains xs fsi modified where
    "collect_deferred c = Some (Inr (), c\<lparr>free_space_collection := xs, is_collection_modified := modified, deferred_fsi := fsi\<rparr>)"
    "items_ok xs" "items_free xs = free_set c"
    "modified = (is_collection_modified c \<or>
       collect_position (deferred_fsi c) (free_space_collection c) = length (free_space_collection c))"
proof -
  have *: "items_ok (free_space_collection c)" "item_ok (deferred_fsi c)"
      "{item_start (deferred_fsi c) ..< item_end (deferred_fsi c)} \<inter> items_free (free_space_collection c) = {}"
    using assms by (simp_all add: fsc_inv_def)
  obtain xs fsi modified where run:
    "do_collect (deferred_fsi c) c = Some (Inr fsi, c\<lparr>free_space_collection := xs, is_collection_modified := modified\<rparr>)"
    "items_ok xs"
    "items_free xs = items_free (free_space_collection c) \<union> {item_start (deferred_fsi c) ..< item_end (deferred_fsi c)}"
    "modified = (is_collection_modified c \<or>
       collect_position (deferred_fsi c) (free_space_collection c) = length (free_space_collection c))"
    using do_collect_run [OF *] by metis
  show ?thesis
  proof (rule that)
    show "collect_deferred c = Some (Inr (), c\<lparr>free_space_collection := xs, is_collection_modified := modified, deferred_fsi := fsi\<rparr>)"
      by (simp add: collect_deferred_def run(1) exec_simps)
    show "items_free xs = free_set c"
      using assms(2) run(3) by (simp add: free_set_def)
  qed (use run in simp_all)
qed

lemma collect_run:
  assumes "fsc_inv c" and "valid_region bo n" and "region bo n \<inter> free_set c = {}"
  shows "\<exists>c'. collect bo n c = Some (Inr (), c') \<and> fsc_inv c' \<and> free_set c' = free_set c \<union> region bo n"
proof (cases "is_fsi_deferred c")
  case True
  obtain xs fsi modified where *:
    "collect_deferred c = Some (Inr (), c\<lparr>free_space_collection := xs, is_collection_modified := modified, deferred_fsi := fsi\<rparr>)"
    "items_ok xs" "items_free xs = free_set c"
    using collect_deferred_run [OF assms(1) True] by metis
  then show ?thesis
    using assms True
    by (auto simp: collect_def exec_simps valid_region_item fsc_inv_def free_set_def region_def
        item_start_def item_end_def valid_region_def)
next
  case False
  then show ?thesis
    using assms
    by (auto simp: collect_def exec_simps valid_region_item fsc_inv_def free_set_def region_def
        item_start_def item_end_def valid_region_def)
qed

lemma first_fit_Some:
  assumes "first_fit n xs i = Some (j, x)"
  obtains ps qs where "xs = ps @ x # qs" "j = i + length ps" "n \<le> fsi_length x"
  using assms
proof (induction xs arbitrary: i thesis)
  case Nil
  then show ?case by simp
next
  case (Cons y xs)
  show ?case
  proof (cases "n \<le> fsi_length y")
    case True
    then show ?thesis using Cons.prems(1) [of "[]" xs] Cons.prems(2) by auto
  next
    case False
    then have "first_fit n xs (Suc i) = Some (j, x)" using Cons.prems(2) by simp
    then obtain ps qs where "xs = ps @ x # qs" "j = Suc i + length ps" "n \<le> fsi_length x"
      using Cons.IH by blast
    then show ?thesis using Cons.prems(1) [of "y # ps" qs] by simp
  qed
qed

lemma first_fit_None: "first_fit n xs i = None \<Longrightarrow> x \<in> set xs \<Longrightarrow> fsi_length x < n"
  by (induction xs arbitrary: i) (auto split: if_splits)

lemma items_free_disjoint:
  "items_ok (ps @ x # qs) \<Longrightarrow> {item_start x ..< item_end x} \<inter> (items_free ps \<union> items_free qs) = {}"
  by (fastforce simp: items_ok_append items_ok_Cons items_free_def)

lemma shrink_item:
  assumes "item_ok x" and "0 < n" and "n < fsi_length x"
  defines "y \<equiv> \<lparr>fsi_bo = advance_block_offset (fsi_bo x) n, fsi_length = u32_sub (fsi_length x) n\<rparr>"
  shows "item_ok y" and "item_start y = item_start x + n" and "item_end y = item_end x"
proof -
  have adv: "wf_offset (advance_block_offset (fsi_bo x) n)"
      "lin (advance_block_offset (fsi_bo x) n) = lin (fsi_bo x) + n"
    using advance_block_offset_lin [of "fsi_bo x" n] assms(1,3)
    by (auto simp: item_ok_def addr_limit_def canonical_offset_def wf_offset_def)
  have "u32_sub (fsi_length x) n = fsi_length x - n"
    using assms(1,3) by (intro u32_sub_id) (auto simp: item_ok_def)
  with adv assms(1,3) show "item_ok y" "item_start y = item_start x + n" "item_end y = item_end x"
    by (auto simp: y_def item_ok_def item_start_def item_end_def)
qed

lemma allocate_from_table_run:
  assumes "items_ok (free_space_collection c)" and "0 < n"
  shows "\<exists>r xs modified. allocate_from_table n c =
      Some (Inr r, c\<lparr>free_space_collection := xs, is_collection_modified := modified\<rparr>) \<and> items_ok xs \<and>
      (case r of None \<Rightarrow> xs = free_space_collection c \<and> (\<forall>x\<in>set xs. fsi_length x < n)
       | Some bo \<Rightarrow> modified \<and> valid_region bo n \<and> region bo n \<subseteq> items_free (free_space_collection c)
           \<and> items_free xs = items_free (free_space_collection c) - region bo n)"
proof (cases "first_fit n (free_space_collection c) 0")
  case None
  have "c = c\<lparr>free_space_collection := free_space_collection c, is_collection_modified := is_collection_modified c\<rparr>"
    by simp
  then show ?thesis
    using None assms(1) first_fit_None [OF None]
    by (intro exI [of _ None] exI [of _ "free_space_collection c"] exI [of _ "is_collection_modified c"])
      (auto simp: allocate_from_table_def exec_simps)
next
  case (Some hit)
  obtain it x where hit: "hit = (it, x)" by (cases hit)
  obtain ps qs where at: "free_space_collection c = ps @ x # qs" "it = length ps" "n \<le> fsi_length x"
    using first_fit_Some [OF Some [unfolded hit]] by auto
  have x: "item_ok x" using assms(1) by (simp add: at items_ok_append items_ok_Cons)
  have free: "region (fsi_bo x) n \<subseteq> {item_start x ..< item_end x}" "valid_region (fsi_bo x) n"
    using x at(3) assms(2) by (auto simp: region_def item_start_def item_end_def item_ok_def valid_region_def)
  note disj = items_free_disjoint [OF assms(1) [unfolded at(1)]]
  show ?thesis
  proof (cases "fsi_length x = n")
    case True
    then have "region (fsi_bo x) n = {item_start x ..< item_end x}"
      by (simp add: region_def item_start_def item_end_def)
    then have free': "items_free (ps @ qs) = items_free (ps @ x # qs) - region (fsi_bo x) n"
      using disj by auto
    have ok: "items_ok (ps @ qs)" using assms(1) by (simp add: at items_ok_append items_ok_Cons)
    have "erase_item it c = c\<lparr>free_space_collection := ps @ qs\<rparr>" by (simp add: erase_item_def at)
    then have run: "allocate_from_table n c =
        Some (Inr (Some (fsi_bo x)), c\<lparr>free_space_collection := ps @ qs, is_collection_modified := True\<rparr>)"
      using True by (simp add: allocate_from_table_def Some hit exec_simps)
    show ?thesis
      by (rule exI [of _ "Some (fsi_bo x)"], rule exI [of _ "ps @ qs"], rule exI [of _ True])
        (use run free free' ok in \<open>auto simp: at(1)\<close>)
  next
    case False
    then have less: "n < fsi_length x" using at(3) by simp
    define y where "y = \<lparr>fsi_bo = advance_block_offset (fsi_bo x) n, fsi_length = u32_sub (fsi_length x) n\<rparr>"
    note y = shrink_item [OF x assms(2) less, folded y_def]
    have "{item_start y ..< item_end y} = {item_start x ..< item_end x} - region (fsi_bo x) n"
      using y by (auto simp: region_def item_start_def)
    then have free': "items_free (ps @ y # qs) = items_free (ps @ x # qs) - region (fsi_bo x) n"
      using disj free(1) by auto
    have ok: "items_ok (ps @ y # qs)"
      using assms(1) y by (fastforce simp: at(1) items_ok_append items_ok_Cons)
    have run: "allocate_from_table n c =
        Some (Inr (Some (fsi_bo x)), c\<lparr>free_space_collection := ps @ y # qs, is_collection_modified := True\<rparr>)"
      using False at(1,2) by (simp add: allocate_from_table_def Some [unfolded at(1)] hit exec_simps y_def)
    show ?thesis
      by (rule exI [of _ "Some (fsi_bo x)"], rule exI [of _ "ps @ y # qs"], rule exI [of _ True])
        (use run free free' ok in \<open>auto simp: at(1)\<close>)
  qed
qed

lemma allocate_run:
  assumes "fsc_inv c" and "0 < n"
  shows "\<exists>r c'. allocate n c = Some (Inr r, c') \<and> fsc_inv c' \<and> \<not> is_fsi_deferred c' \<and>
      (case r of None \<Rightarrow> free_set c' = free_set c \<and> (\<forall>x\<in>set (free_space_collection c'). fsi_length x < n)
       | Some bo \<Rightarrow> valid_region bo n \<and> region bo n \<subseteq> free_set c \<and> free_set c' = free_set c - region bo n)"
proof -
  have table: "\<exists>r c'. allocate_from_table n c1 = Some (Inr r, c') \<and> fsc_inv c' \<and> \<not> is_fsi_deferred c' \<and>
      (case r of None \<Rightarrow> free_set c' = free_set c \<and> (\<forall>x\<in>set (free_space_collection c'). fsi_length x < n)
       | Some bo \<Rightarrow> valid_region bo n \<and> region bo n \<subseteq> free_set c \<and> free_set c' = free_set c - region bo n)"
    if c1: "items_ok (free_space_collection c1)" "\<not> is_fsi_deferred c1" "items_free (free_space_collection c1) = free_set c" for c1
  proof -
    obtain r xs modified where r: "allocate_from_table n c1 =
        Some (Inr r, c1\<lparr>free_space_collection := xs, is_collection_modified := modified\<rparr>)" "items_ok xs"
      "case r of None \<Rightarrow> xs = free_space_collection c1 \<and> (\<forall>x\<in>set xs. fsi_length x < n)
       | Some bo \<Rightarrow> modified \<and> valid_region bo n \<and> region bo n \<subseteq> items_free (free_space_collection c1)
           \<and> items_free xs = items_free (free_space_collection c1) - region bo n"
      using allocate_from_table_run [OF c1(1) assms(2)] by blast
    let ?c' = "c1\<lparr>free_space_collection := xs, is_collection_modified := modified\<rparr>"
    have "free_set ?c' = items_free xs" "fsc_inv ?c'" "\<not> is_fsi_deferred ?c'"
      using c1(2) r(2) by (simp_all add: free_set_def fsc_inv_def)
    then show ?thesis using r(1,3) c1(3)
      by (intro exI [of _ r] exI [of _ ?c']) (auto split: option.splits)
  qed
  show ?thesis
  proof (cases "is_fsi_deferred c")
    case False
    then show ?thesis
      using table [of c] assms(1) by (simp add: allocate_def exec_simps fsc_inv_def free_set_def)
  next
    case True
    have reg: "{item_start (deferred_fsi c) ..< item_end (deferred_fsi c)} = region (fsi_bo (deferred_fsi c)) (fsi_length (deferred_fsi c))"
      by (simp add: region_def item_start_def item_end_def)
    show ?thesis
    proof (cases "fsi_length (deferred_fsi c) = n")
      case match: True
      then have "allocate n c = Some (Inr (Some (fsi_bo (deferred_fsi c))), c\<lparr>is_fsi_deferred := False\<rparr>)"
        using True by (simp add: allocate_def exec_simps)
      moreover have "valid_region (fsi_bo (deferred_fsi c)) n" "region (fsi_bo (deferred_fsi c)) n \<subseteq> free_set c"
          "free_set (c\<lparr>is_fsi_deferred := False\<rparr>) = free_set c - region (fsi_bo (deferred_fsi c)) n"
          "fsc_inv (c\<lparr>is_fsi_deferred := False\<rparr>)"
        using assms(1) True match reg by (auto simp: fsc_inv_def free_set_def valid_region_def item_ok_def)
      ultimately show ?thesis by simp
    next
      case False
      let ?c0 = "c\<lparr>is_fsi_deferred := False\<rparr>"
      have pre: "items_ok (free_space_collection ?c0)" "item_ok (deferred_fsi c)"
          "{item_start (deferred_fsi c) ..< item_end (deferred_fsi c)} \<inter> items_free (free_space_collection ?c0) = {}"
        using assms(1) True by (simp_all add: fsc_inv_def)
      obtain xs fsi modified where run:
        "do_collect (deferred_fsi c) ?c0 = Some (Inr fsi, ?c0\<lparr>free_space_collection := xs, is_collection_modified := modified\<rparr>)"
        "items_ok xs" "items_free xs = items_free (free_space_collection ?c0) \<union> {item_start (deferred_fsi c) ..< item_end (deferred_fsi c)}"
        using do_collect_run [OF pre] by metis
      have "collect_deferred ?c0 = Some (Inr (), ?c0\<lparr>free_space_collection := xs, is_collection_modified := modified, deferred_fsi := fsi\<rparr>)"
        by (simp add: collect_deferred_def run(1) exec_simps)
      then have "allocate n c = allocate_from_table n (?c0\<lparr>free_space_collection := xs, is_collection_modified := modified, deferred_fsi := fsi\<rparr>)"
        using True False by (simp add: allocate_def exec_simps)
      moreover have "items_free xs = free_set c" using run(3) True by (simp add: free_set_def)
      ultimately show ?thesis
        using table [of "?c0\<lparr>free_space_collection := xs, is_collection_modified := modified, deferred_fsi := fsi\<rparr>"] run(2)
        by simp
    qed
  qed
qed

interpretation fsc_pool: space_pool fsc_inv free_set collect allocate
proof
  show "\<exists>s'. collect bo n s = Some (Inr (), s') \<and> fsc_inv s' \<and> free_set s' = free_set s \<union> region bo n"
    if "fsc_inv s" "valid_region bo n" "region bo n \<inter> free_set s = {}" for s bo n
    using collect_run [OF that] .
  show "\<exists>r s'. allocate n s = Some (Inr r, s') \<and> fsc_inv s' \<and>
      (case r of None \<Rightarrow> free_set s' = free_set s
       | Some bo \<Rightarrow> valid_region bo n \<and> region bo n \<subseteq> free_set s \<and> free_set s' = free_set s - region bo n)"
    if "fsc_inv s" "0 < n" for s n
    using allocate_run [OF that] by (fastforce split: option.splits)
qed

section \<open>The table in its data node\<close>

definition fsi_u32 :: "free_space_item_t \<Rightarrow> bool" where
  "fsi_u32 x \<longleftrightarrow> bo_u32 (fsi_bo x) \<and> fsi_length x < 4294967296"

lemma length_fsi_image [simp]: "length (fsi_image x) = 12"
  by (simp add: fsi_image_def)

lemma fsi_of_image_image: "fsi_u32 x \<Longrightarrow> fsi_of_image (fsi_image x) = x"
  by (cases x) (simp add: fsi_of_image_def fsi_image_def to_ByteArray_def fsi_u32_def bo_u32_def)

lemma item_ok_u32: "item_ok x \<Longrightarrow> fsi_u32 x"
  by (auto simp: item_ok_def fsi_u32_def bo_u32_def wf_offset_def lin_def)

lemma advance_item:
  "k < 681 \<Longrightarrow> bn < 4294967296 \<Longrightarrow>
   advance_block_offset \<lparr>block_num = bn, bytes = 8 + 12 * k\<rparr> 12 = \<lparr>block_num = bn, bytes = 8 + 12 * Suc k\<rparr>"
  by (simp add: advance_block_offset_def u32_id)

lemma write_items_run:
  assumes "wf_data_node dn" and "dn_free_bytes dn = 8184 - 12 * k" and "k \<le> 682"
    and "k < 682 \<longrightarrow> bo = \<lparr>block_num = dn_block_num dn, bytes = 8 + 12 * k\<rparr>"
  shows "\<exists>dn'. write_items xs bo dn = Some (Inr (), dn') \<and> wf_data_node dn' \<and> dn_block_num dn' = dn_block_num dn
     \<and> dn_free_bytes dn' = 8184 - 12 * min 682 (k + length xs)
     \<and> dn_data dn' = overwrite (dn_data dn) (8 + 12 * k) (concat (map fsi_image (take (682 - k) xs)))"
  using assms
proof (induction xs arbitrary: k bo dn)
  case Nil
  then show ?case by (simp add: ret_def)
next
  case (Cons x xs)
  show ?case
  proof (cases "k < 682")
    case False
    then have "write_items (x # xs) bo dn = Some (Inr (), dn)"
      using Cons.prems by (simp add: exec_simps sizeof_free_space_item_t_def)
    then show ?thesis using Cons.prems False by simp
  next
    case True
    have bo: "bo = \<lparr>block_num = dn_block_num dn, bytes = 8 + 12 * k\<rparr>" using True Cons.prems by simp
    define dn1 where "dn1 = dn\<lparr>dn_data := overwrite (dn_data dn) (8 + 12 * k) (fsi_image x),
        dn_free_bytes := 8184 - 12 * Suc k\<rparr>"
    have len: "length (dn_data dn) = 8192" "dn_block_num dn < 4294967296"
      using Cons.prems(1) by (simp_all add: wf_data_node_def)
    have slice12: "slice (fsi_image x) 0 12 = fsi_image x" using slice_all [of "fsi_image x"] by simp
    have pre: "block_num bo = dn_block_num dn" "wf_offset bo" "0 \<le> length (fsi_image x)"
        "length (fsi_image x) < 4294967296" "12 = min (length (fsi_image x) - 0) (8192 - bytes bo)"
      using True by (simp_all add: bo wf_offset_def)
    have free: "min (dn_free_bytes dn) (8192 - (8 + 12 * k + 12)) = 8184 - 12 * Suc k"
      using Cons.prems(2) by simp
    have at: "bytes bo = 8 + 12 * k" by (simp add: bo)
    have "write_at (fsi_image x) 0 bo dn = Some (Inr 12, dn1)"
      using write_at_run [OF Cons.prems(1) pre] unfolding dn1_def slice12 at free .
    moreover have "\<not> dn_free_bytes dn < 12" using Cons.prems(2) True by linarith
    ultimately have run: "write_items (x # xs) bo dn = write_items xs (advance_block_offset bo 12) dn1"
      by (simp add: exec_simps sizeof_free_space_item_t_def)
    have wf1: "wf_data_node dn1" using len True by (simp add: dn1_def wf_data_node_def)
    have "Suc k < 682 \<longrightarrow> advance_block_offset bo 12 = \<lparr>block_num = dn_block_num dn1, bytes = 8 + 12 * Suc k\<rparr>"
      using advance_item [of k "dn_block_num dn"] len by (simp add: bo dn1_def)
    then obtain dn' where dn': "write_items xs (advance_block_offset bo 12) dn1 = Some (Inr (), dn')"
        "wf_data_node dn'" "dn_block_num dn' = dn_block_num dn1"
        "dn_free_bytes dn' = 8184 - 12 * min 682 (Suc k + length xs)"
        "dn_data dn' = overwrite (dn_data dn1) (8 + 12 * Suc k) (concat (map fsi_image (take (682 - Suc k) xs)))"
      using Cons.IH [OF wf1, of "Suc k"] True by (auto simp: dn1_def)
    have "682 - k = Suc (682 - Suc k)" using True by simp
    then have "dn_data dn' = overwrite (dn_data dn) (8 + 12 * k) (concat (map fsi_image (take (682 - k) (x # xs))))"
      using dn'(5) True len overwrite_overwrite [of "8 + 12 * k" "fsi_image x" "dn_data dn"]
      by (simp add: dn1_def add.commute)
    then show ?thesis using run dn'(1-4) by (simp add: dn1_def)
  qed
qed

lemma read_items_run:
  assumes "wf_data_node dn" and "drop (8 + 12 * k) (dn_data dn) = concat (map fsi_image xs) @ rest"
    and "k + length xs \<le> 682" and "list_all fsi_u32 xs"
    and "k < 682 \<longrightarrow> bo = \<lparr>block_num = dn_block_num dn, bytes = 8 + 12 * k\<rparr>"
  shows "read_items (length xs) bo (c, dn) =
    Some (Inr (), (c\<lparr>free_space_collection := free_space_collection c @ xs\<rparr>, dn))"
  using assms
proof (induction xs arbitrary: k bo c)
  case Nil
  then show ?case by (simp add: ret_def)
next
  case (Cons x xs)
  then have k: "k < 682" and bo: "bo = \<lparr>block_num = dn_block_num dn, bytes = 8 + 12 * k\<rparr>" by auto
  have bn: "dn_block_num dn < 4294967296" using Cons.prems(1) by (simp add: wf_data_node_def)
  have "slice (dn_data dn) (8 + 12 * k) 12 = fsi_image x"
    using Cons.prems(2) by (simp add: slice_def)
  then have rd: "read_at bo 12 dn = Some (Inr (fsi_image x), dn)"
    using read_at_run [of dn bo 12 12] Cons.prems(1) k by (simp add: bo wf_offset_def)
  have "drop (8 + 12 * Suc k) (dn_data dn) = drop 12 (drop (8 + 12 * k) (dn_data dn))" by simp
  then have rest: "drop (8 + 12 * Suc k) (dn_data dn) = concat (map fsi_image xs) @ rest"
    using Cons.prems(2) by simp
  have adv: "Suc k < 682 \<longrightarrow> advance_block_offset bo 12 = \<lparr>block_num = dn_block_num dn, bytes = 8 + 12 * Suc k\<rparr>"
    using advance_item [OF _ bn, of k] by (simp add: bo)
  let ?c1 = "c\<lparr>free_space_collection := free_space_collection c @ [x]\<rparr>"
  have "read_items (length (x # xs)) bo (c, dn) = read_items (length xs) (advance_block_offset bo 12) (?c1, dn)"
    using rd Cons.prems(4) by (simp add: exec_simps sizeof_free_space_item_t_def fsi_of_image_image)
  also have "\<dots> = Some (Inr (), (?c1\<lparr>free_space_collection := free_space_collection ?c1 @ xs\<rparr>, dn))"
    using Cons.IH [OF Cons.prems(1) rest _ _ adv, of ?c1] Cons.prems(3,4) by simp
  finally show ?case by simp
qed

lemma table_roundtrip:
  assumes "list_all fsi_u32 (free_space_collection c)" and "\<not> is_fsi_deferred c"
    and "wf_data_node dn" and "dn_free_bytes dn = 8184"
  shows "\<exists>dn'. serialize_in_data_node (c, dn) = Some (Inr (), (c, dn'))
     \<and> deserialize_from_data_node (c0, dn') =
         Some (Inr (), (c0\<lparr>free_space_collection := free_space_collection c0 @ take 682 (free_space_collection c)\<rparr>, dn'))
     \<and> wf_data_node dn' \<and> dn_block_num dn' = dn_block_num dn"
proof -
  let ?xs = "take 682 (free_space_collection c)"
  obtain dn' where dn': "write_items (free_space_collection c) \<lparr>block_num = dn_block_num dn, bytes = 8\<rparr> dn = Some (Inr (), dn')"
      "wf_data_node dn'" "dn_block_num dn' = dn_block_num dn"
      "dn_free_bytes dn' = 8184 - 12 * min 682 (length (free_space_collection c))"
      "dn_data dn' = overwrite (dn_data dn) 8 (concat (map fsi_image ?xs))"
    using write_items_run [OF assms(3), of 0 "\<lparr>block_num = dn_block_num dn, bytes = 8\<rparr>" "free_space_collection c"] assms(4)
    by auto
  have ser: "serialize_in_data_node (c, dn) = Some (Inr (), (c, dn'))"
    using assms(2,4) dn'(1) by (simp add: serialize_in_data_node_def exec_simps)
  have n: "u32_sub 8184 (dn_free_bytes dn') = 12 * length ?xs"
    by (simp add: dn'(4) u32_sub_id min_def)
  have "8 \<le> length (dn_data dn)" using assms(3) by (simp add: wf_data_node_def)
  then have "drop (8 + 12 * 0) (dn_data dn') = concat (map fsi_image ?xs) @
      drop (8 + length (concat (map fsi_image ?xs))) (dn_data dn)"
    by (simp only: dn'(5) drop_overwrite mult_0_right add_0_right)
  from read_items_run [OF dn'(2) this, of "\<lparr>block_num = dn_block_num dn', bytes = 8\<rparr>" c0]
  have "read_items (length ?xs) \<lparr>block_num = dn_block_num dn', bytes = 8\<rparr> (c0, dn') =
      Some (Inr (), (c0\<lparr>free_space_collection := free_space_collection c0 @ ?xs\<rparr>, dn'))"
    using assms(1) by (auto simp: list_all_iff dest: in_set_takeD)
  moreover have "12 * length ?xs div 12 = length ?xs" "12 * length ?xs mod 12 = 0" by simp_all
  ultimately have "deserialize_from_data_node (c0, dn') =
      Some (Inr (), (c0\<lparr>free_space_collection := free_space_collection c0 @ ?xs\<rparr>, dn'))"
    unfolding deserialize_from_data_node_def
    by (simp add: exec_simps Let_def n sizeof_free_space_item_t_def del: length_take)
  then show ?thesis using ser dn'(2,3) by blast
qed

section \<open>Properties of the collector\<close>

text \<open>
  What a client of the collector does: it allocates, uses space that was never in the table (the
  end of the append node), and gives back regions it holds, in any order.
\<close>

inductive pool_trace :: "free_space_collector \<Rightarrow> (block_offset_t \<times> nat) list \<Rightarrow> bool" where
  pool_start: "fsc_inv c \<Longrightarrow> pool_trace c []"
| pool_found: "pool_trace c held \<Longrightarrow> 0 < n \<Longrightarrow> allocate n c = Some (Inr (Some bo), c') \<Longrightarrow>
    pool_trace c' ((bo, n) # held)"
| pool_not_found: "pool_trace c held \<Longrightarrow> 0 < n \<Longrightarrow> allocate n c = Some (Inr None, c') \<Longrightarrow> pool_trace c' held"
| pool_append: "pool_trace c held \<Longrightarrow> valid_region bo n \<Longrightarrow> region bo n \<inter> free_set c = {} \<Longrightarrow>
    \<forall>h\<in>set held. region bo n \<inter> held_region h = {} \<Longrightarrow> pool_trace c ((bo, n) # held)"
| pool_collect: "pool_trace c (xs @ (bo, n) # ys) \<Longrightarrow> collect bo n c = Some (Inr (), c') \<Longrightarrow>
    pool_trace c' (xs @ ys)"

lemma pool_trace_held: "pool_trace c held \<Longrightarrow> fsc_pool.held_ok c held"
proof (induction rule: pool_trace.induct)
  case (pool_start c)
  then show ?case by (simp add: fsc_pool.held_ok_def)
next
  case (pool_found c held n bo c')
  then show ?case using fsc_pool.held_acquire [of c held n "Some bo" c'] by simp
next
  case (pool_not_found c held n c')
  then show ?case using fsc_pool.held_acquire [of c held n None c'] by simp
next
  case (pool_append c held bo n)
  then show ?case by (simp add: fsc_pool.held_ok_def held_region_def)
next
  case (pool_collect c xs bo n ys c')
  then obtain s' where "collect bo n c = Some (Inr (), s')" "fsc_pool.held_ok s' (xs @ ys)"
    using fsc_pool.held_release by blast
  then show ?case using pool_collect.hyps by simp
qed

text \<open>C21: whatever sequence of allocations and collections is made, no two regions that are in use
  at the same time share a byte, none of them shares a byte with the free table, and the next
  allocation runs without an exception.\<close>

theorem allocations_disjoint:
  assumes "pool_trace c held"
  shows "sorted_wrt (\<lambda>h h'. held_region h \<inter> held_region h' = {}) held
    \<and> (\<forall>h\<in>set held. held_region h \<inter> free_set c = {})
    \<and> (0 < n \<longrightarrow> (\<exists>r c'. allocate n c = Some (Inr r, c')))"
  using pool_trace_held [OF assms] allocate_run [of c n]
  by (auto simp: fsc_pool.held_ok_def)

lemma new_collector_inv: "fsc_inv new_free_space_collector"
  by (simp add: fsc_inv_def new_free_space_collector_def items_ok_def)

theorem allocations_disjoint_witness:
  "held_region (\<lparr>block_num = 0, bytes = 8\<rparr>, 100) \<inter> held_region (\<lparr>block_num = 0, bytes = 108\<rparr>, 50) = {}
   \<and> (\<exists>r c'. allocate 7 new_free_space_collector = Some (Inr r, c'))"
proof -
  let ?c = new_free_space_collector
  have free: "free_set ?c = {}" by (simp add: free_set_def new_free_space_collector_def)
  have "pool_trace ?c [(\<lparr>block_num = 0, bytes = 108\<rparr>, 50)]"
    using pool_append [OF pool_start [OF new_collector_inv], of "\<lparr>block_num = 0, bytes = 108\<rparr>" 50]
    by (simp add: free valid_region_def wf_offset_def lin_def)
  then have "pool_trace ?c [(\<lparr>block_num = 0, bytes = 8\<rparr>, 100), (\<lparr>block_num = 0, bytes = 108\<rparr>, 50)]"
    using pool_append [of ?c "[(\<lparr>block_num = 0, bytes = 108\<rparr>, 50)]" "\<lparr>block_num = 0, bytes = 8\<rparr>" 100]
    by (simp add: free valid_region_def wf_offset_def lin_def held_region_def region_def)
  from allocations_disjoint [OF this, of 7] show ?thesis by simp
qed

text \<open>C22: an allocation from a table in order either finds a region of the requested length that
  was free and removes exactly that region, or leaves the free space as it was, and then no item of
  the table is long enough.\<close>

theorem allocate_exact:
  assumes "fsc_inv c" and "0 < n"
  shows "\<exists>r c'. allocate n c = Some (Inr r, c') \<and> fsc_inv c' \<and>
      (case r of None \<Rightarrow> free_set c' = free_set c \<and> (\<forall>x\<in>set (free_space_collection c'). fsi_length x < n)
       | Some bo \<Rightarrow> region bo n \<subseteq> free_set c \<and> free_set c' = free_set c - region bo n)"
  using allocate_run [OF assms] by (fastforce split: option.splits)

theorem allocate_exact_witness:
  "\<exists>r c'. allocate 5 new_free_space_collector = Some (Inr r, c') \<and> fsc_inv c'"
  using allocate_exact [OF new_collector_inv, of 5] by auto

text \<open>C23: the free table written into a fresh data node and read back into a new collector gives
  a table in order whose free space was free before, and all of it when the table has at most the
  682 items that fit.\<close>

theorem free_table_roundtrip:
  assumes "fsc_inv c" and "wf_data_node dn" and "dn_free_bytes dn = data_end_index - data_begin_index"
  shows "\<exists>c' dn' c''. serialize_in_data_node (c, dn) = Some (Inr (), (c', dn'))
     \<and> deserialize_from_data_node (new_free_space_collector, dn') = Some (Inr (), (c'', dn'))
     \<and> fsc_inv c'' \<and> free_set c'' \<subseteq> free_set c
     \<and> (length (free_space_collection c') \<le> 682 \<longrightarrow> free_set c'' = free_set c)"
proof -
  obtain c1 where c1: "serialize_in_data_node (c, dn) = serialize_in_data_node (c1, dn)"
      "items_ok (free_space_collection c1)" "items_free (free_space_collection c1) = free_set c" "\<not> is_fsi_deferred c1"
  proof (cases "is_fsi_deferred c")
    case True
    obtain xs fsi modified where
      "collect_deferred c = Some (Inr (), c\<lparr>free_space_collection := xs, is_collection_modified := modified, deferred_fsi := fsi\<rparr>)"
      "items_ok xs" "items_free xs = free_set c"
      using collect_deferred_run [OF assms(1) True] by metis
    then show ?thesis
      using True by (intro that) (auto simp: serialize_in_data_node_def exec_simps)
  next
    case False
    then show ?thesis using that [of c] assms(1) by (simp add: fsc_inv_def free_set_def)
  qed
  let ?items = "free_space_collection c1"
  have u: "list_all fsi_u32 ?items"
    using c1(2) item_ok_u32 by (auto simp: items_ok_def list_all_iff)
  obtain dn' where dn': "serialize_in_data_node (c1, dn) = Some (Inr (), (c1, dn'))"
      "deserialize_from_data_node (new_free_space_collector, dn') =
         Some (Inr (), (new_free_space_collector\<lparr>free_space_collection := take 682 ?items\<rparr>, dn'))"
    using table_roundtrip [OF u c1(4) assms(2), of new_free_space_collector] assms(3)
    by (auto simp: new_free_space_collector_def)
  let ?c'' = "new_free_space_collector\<lparr>free_space_collection := take 682 ?items\<rparr>"
  have "items_ok (take 682 ?items @ drop 682 ?items)" using c1(2) by simp
  then have "fsc_inv ?c''"
    by (simp only: items_ok_append) (simp add: fsc_inv_def new_free_space_collector_def)
  moreover have "free_set ?c'' = items_free (take 682 ?items)"
    by (simp add: free_set_def new_free_space_collector_def)
  moreover have "items_free (take 682 ?items) \<subseteq> items_free ?items"
    by (auto simp: items_free_def dest: in_set_takeD)
  ultimately show ?thesis using c1(1,3) dn' by auto
qed

theorem free_table_roundtrip_witness:
  "\<exists>c' dn' c''. serialize_in_data_node (new_free_space_collector, new_data_node 4) = Some (Inr (), (c', dn'))
     \<and> deserialize_from_data_node (new_free_space_collector, dn') = Some (Inr (), (c'', dn')) \<and> fsc_inv c''"
proof -
  have "wf_data_node (new_data_node 4)" by (rule wf_new_data_node) simp
  from free_table_roundtrip [OF new_collector_inv this] show ?thesis by auto
qed

text \<open>
  A region that is merged in or inserted before the end of the table leaves the modified flag
  unset: the early return of \<open>do_collect\<close> skips the assignment. \<open>Finalize\<close> writes the table only
  when the flag is set, so the region is not written.
\<close>

lemma collect_unmarked:
  assumes "fsc_inv c" and "is_fsi_deferred c" and "\<not> is_collection_modified c"
    and "x \<in> set (free_space_collection c)" and "bo_before (fsi_bo (deferred_fsi c)) (fsi_bo x)"
  shows "\<exists>c'. collect_deferred c = Some (Inr (), c') \<and> \<not> is_collection_modified c'
    \<and> free_space_collection c' \<noteq> free_space_collection c"
proof -
  obtain xs fsi modified where run:
    "collect_deferred c = Some (Inr (), c\<lparr>free_space_collection := xs, is_collection_modified := modified, deferred_fsi := fsi\<rparr>)"
    "items_free xs = free_set c"
    "modified = (is_collection_modified c \<or>
       collect_position (deferred_fsi c) (free_space_collection c) = length (free_space_collection c))"
    using collect_deferred_run [OF assms(1,2)] by metis
  have "collect_position f ys < length ys" if "y \<in> set ys" "bo_before (fsi_bo f) (fsi_bo y)" for f y ys
    using that by (induction ys) auto
  then have "\<not> modified" using run(3) assms(3-5) by fastforce
  moreover have "xs \<noteq> free_space_collection c"
  proof
    assume "xs = free_space_collection c"
    then have "{item_start (deferred_fsi c) ..< item_end (deferred_fsi c)} \<subseteq> items_free (free_space_collection c)"
      using run(2) assms(2) by (auto simp: free_set_def)
    moreover have "{item_start (deferred_fsi c) ..< item_end (deferred_fsi c)} \<inter> items_free (free_space_collection c) = {}"
      using assms(1,2) by (simp add: fsc_inv_def)
    ultimately have "{item_start (deferred_fsi c) ..< item_end (deferred_fsi c)} = {}" by (simp add: Int_absorb2)
    then show False
      using assms(1,2) item_ok_less [of "deferred_fsi c"] by (simp add: fsc_inv_def)
  qed
  ultimately show ?thesis using run(1) by simp
qed

text \<open>C32: the table can change without the modified flag being set. From an opened table with one
  free region, collecting two regions in front of it changes the table and leaves the flag as it was.\<close>

theorem collect_leaves_table_unmarked:
  "\<exists>c c1 c2. fsc_inv c \<and> \<not> is_collection_modified c
    \<and> collect \<lparr>block_num = 0, bytes = 8\<rparr> 10 c = Some (Inr (), c1)
    \<and> collect \<lparr>block_num = 0, bytes = 60\<rparr> 10 c1 = Some (Inr (), c2)
    \<and> free_space_collection c2 \<noteq> free_space_collection c \<and> \<not> is_collection_modified c2"
proof -
  let ?x = "\<lparr>fsi_bo = \<lparr>block_num = 3, bytes = 100\<rparr>, fsi_length = 40\<rparr>"
  let ?d = "\<lparr>fsi_bo = \<lparr>block_num = 0, bytes = 8\<rparr>, fsi_length = 10\<rparr>"
  let ?c = "new_free_space_collector\<lparr>free_space_collection := [?x]\<rparr>"
  let ?c1 = "?c\<lparr>is_fsi_deferred := True, deferred_fsi := ?d\<rparr>"
  have inv: "fsc_inv ?c" "fsc_inv ?c1"
    by (simp_all add: fsc_inv_def items_ok_def item_ok_def wf_offset_def lin_def item_start_def item_end_def
        new_free_space_collector_def)
  have c1: "collect \<lparr>block_num = 0, bytes = 8\<rparr> 10 ?c = Some (Inr (), ?c1)"
    by (simp add: collect_def bindM_def get_def ret_def modify_def new_free_space_collector_def)
  obtain c' where c': "collect_deferred ?c1 = Some (Inr (), c')" "\<not> is_collection_modified c'"
      "free_space_collection c' \<noteq> free_space_collection ?c1"
    using collect_unmarked [OF inv(2), of ?x] by (auto simp: bo_before_def new_free_space_collector_def)
  have "collect \<lparr>block_num = 0, bytes = 60\<rparr> 10 ?c1 =
      Some (Inr (), c'\<lparr>deferred_fsi := \<lparr>fsi_bo = \<lparr>block_num = 0, bytes = 60\<rparr>, fsi_length = 10\<rparr>, is_fsi_deferred := True\<rparr>)"
    using c'(1) by (simp add: collect_def exec_simps)
  with inv(1) c1 c'(2,3) show ?thesis
    by (intro exI [of _ ?c] exI [of _ ?c1] exI [of _ "c'\<lparr>deferred_fsi :=
      \<lparr>fsi_bo = \<lparr>block_num = 0, bytes = 60\<rparr>, fsi_length = 10\<rparr>, is_fsi_deferred := True\<rparr>"])
      (simp add: new_free_space_collector_def)
qed

end
