(* ===== verification/Data_Node_IO.thy ===== *)
theory Data_Node_IO
  imports Cache_Contents Free_Space
begin

text \<open>
  Reading and writing across data nodes (\<open>common/state/data_node_io.h\<close>, \<open>data_node_io.cpp\<close>): the
  layer that gives the trie one array of bytes, grown at its end by appending data nodes. Its state
  extends the cache's with the free space collector and the slot of the data node that is being
  appended to.
\<close>

section \<open>Operations\<close>

record data_node_io = cache +
  free_space :: free_space_collector
  append_dn :: nat

definition new_data_node_io :: "bytes \<Rightarrow> env \<Rightarrow> data_node_io" where
  "new_data_node_io key e =
     cache.extend (new_cache \<lparr>blockIds = [], state_encryption_key = key\<rparr> e)
       \<lparr>free_space = new_free_space_collector, append_dn = 0\<rparr>"

definition block_offset_for_appending :: "('z data_node_io_scheme, block_offset_t) m" where
  "block_offset_for_appending = get (\<lambda>s. cursor (data_nodes s ! append_dn s))"

definition in_free_space :: "(free_space_collector, 'a) m \<Rightarrow> ('z data_node_io_scheme, 'a) m" where
  "in_free_space = zoom free_space (\<lambda>c. free_space_update (\<lambda>_. c))"

definition last_block :: "('z data_node_io_scheme, nat) m" where
  "last_block = get (\<lambda>s. get_last_block_num (warehouse s))"

definition init_append_data_node :: "openssl \<Rightarrow> ('z data_node_io_scheme, unit) m" where
  "init_append_data_node ssl =
     bindM last_block (\<lambda>append_data_node_block_num.
     bindM (in_warehouse (get_datablock_id_from_datablock_num append_data_node_block_num)) (\<lambda>_.
     bindM (retrieve ssl append_data_node_block_num True) (\<lambda>d.
     bindM (modify (append_dn_update (\<lambda>_. d))) (\<lambda>_.
     cache_done append_data_node_block_num False))))"

text \<open>Opening a store: the identifiers come from the root block, the last of them is the block of the free table.\<close>

definition read_block_ids :: "openssl \<Rightarrow> parson \<Rightarrow> StateNode \<Rightarrow> ('z data_node_io_scheme, StateNode) m" where
  "read_block_ids ssl J node s =
     map_option (\<lambda>(r, bw, node'). (case r of Inl e \<Rightarrow> Inl e | Inr _ \<Rightarrow> Inr node', s\<lparr>warehouse := bw\<rparr>))
       (deserialize_block_ids ssl J (warehouse s, node))"

definition initialize :: "openssl \<Rightarrow> parson \<Rightarrow> StateNode \<Rightarrow> ('z data_node_io_scheme, StateNode) m" where
  "initialize ssl J node =
     bindM (read_block_ids ssl J node) (\<lambda>node.
     bindM last_block (\<lambda>free_space_collection_block_num.
     bindM (retrieve ssl free_space_collection_block_num False) (\<lambda>d.
     bindM (in_warehouse (get_datablock_id_from_datablock_num free_space_collection_block_num)) (\<lambda>bid.
     bindM (modify (free_space_update (original_block_id_of_collection_update (\<lambda>_. bid)))) (\<lambda>_.
     bindM (zoom (\<lambda>s. (free_space s, data_nodes s ! d))
              (\<lambda>(c, dn) s. s\<lparr>free_space := c, data_nodes := (data_nodes s)[d := dn]\<rparr>)
              deserialize_from_data_node) (\<lambda>_.
     bindM last_block (\<lambda>n.
     bindM (cache_done n False) (\<lambda>_.
     bindM (in_warehouse (remove_block_id_from_datablock_num free_space_collection_block_num)) (\<lambda>_.
     bindM (init_append_data_node ssl) (\<lambda>_.
     ret node))))))))))"

text \<open>Allocating and initializing the data node that is appended, once there is space for it.\<close>

definition append_block :: "nat \<Rightarrow> ('z data_node_io_scheme, unit) m" where
  "append_block append_data_node_block_num =
     bindM slots_allocate (\<lambda>d.
     bindM (modify (append_dn_update (\<lambda>_. d))) (\<lambda>_.
     bindM (in_slot d (modify (\<lambda>_. new_data_node append_data_node_block_num))) (\<lambda>_.
     bindM (cache_put append_data_node_block_num d) (\<lambda>_.
     bindM (cache_pin append_data_node_block_num) (\<lambda>_.
     bindM (cache_modified append_data_node_block_num) (\<lambda>_.
     in_warehouse (add_block_id (replicate STATE_BLOCK_ID_LENGTH 0))))))))"

definition add_and_init_append_data_node :: "openssl \<Rightarrow> ('z data_node_io_scheme, unit) m" where
  "add_and_init_append_data_node ssl =
     bindM (get (\<lambda>s. dn_free_bytes (data_nodes s ! append_dn s))) (\<lambda>free_bytes.
     bindM (throwIf (free_bytes = data_end_index - data_begin_index)
              (RuntimeError ''appending new data node after empty one'')) (\<lambda>_.
     bindM last_block (\<lambda>append_data_node_block_num.
     bindM (cache_unpin append_data_node_block_num) (\<lambda>_.
     bindM (replacement_policy ssl) (\<lambda>_.
     append_block (u32 (append_data_node_block_num + 1)))))))"

definition consume_add_and_init_append_data_node :: "openssl \<Rightarrow> ('z data_node_io_scheme, unit) m" where
  "consume_add_and_init_append_data_node ssl =
     bindM block_offset_for_appending (\<lambda>bo.
     bindM (get append_dn) (\<lambda>d.
     bindM (get (\<lambda>s. dn_free_bytes (data_nodes s ! d))) (\<lambda>free_bytes.
     bindM (if free_bytes > 0
            then bindM (in_free_space (collect bo free_bytes)) (\<lambda>_. in_slot d (consume_free_space free_bytes))
            else ret ()) (\<lambda>_.
     add_and_init_append_data_node ssl))))"

definition add_and_init_append_data_node_cond :: "openssl \<Rightarrow> bool \<Rightarrow> ('z data_node_io_scheme, unit) m" where
  "add_and_init_append_data_node_cond ssl cond = (if cond then add_and_init_append_data_node ssl else ret ())"

definition consume_add_and_init_append_data_node_cond :: "openssl \<Rightarrow> bool \<Rightarrow> ('z data_node_io_scheme, unit) m" where
  "consume_add_and_init_append_data_node_cond ssl cond =
     (if cond then consume_add_and_init_append_data_node ssl else ret ())"

text \<open>The bodies of the two loops; their variables are the current offset and the bytes done so far.\<close>

definition write_step :: "openssl \<Rightarrow> bytes \<Rightarrow> block_offset_t \<times> nat \<Rightarrow> ('z data_node_io_scheme, block_offset_t \<times> nat) m" where
  "write_step ssl buffer = (\<lambda>(bo, total_bytes_written).
     bindM last_block (\<lambda>last.
     bindM (add_and_init_append_data_node_cond ssl (block_num bo > last)) (\<lambda>_.
     bindM (retrieve ssl (block_num bo) False) (\<lambda>d.
     bindM (in_slot d (write_at buffer total_bytes_written bo)) (\<lambda>bytes_written.
     bindM (cache_done (block_num bo) (bytes_written > 0)) (\<lambda>_.
     ret (advance_block_offset bo bytes_written, u32 (total_bytes_written + bytes_written))))))))"

definition write_across_data_nodes :: "openssl \<Rightarrow> bytes \<Rightarrow> block_offset_t \<Rightarrow> ('z data_node_io_scheme, unit) m" where
  "write_across_data_nodes ssl buffer bo_at =
     bindM (loop_m (\<lambda>(_, total_bytes_written) _. total_bytes_written < length buffer) (write_step ssl buffer) (bo_at, 0)) (\<lambda>_.
     ret ())"

definition read_step ::
    "openssl \<Rightarrow> nat \<Rightarrow> block_offset_t \<times> nat \<times> bytes \<Rightarrow> ('z data_node_io_scheme, block_offset_t \<times> nat \<times> bytes) m" where
  "read_step ssl len = (\<lambda>(bo, total_bytes_read, out_buffer).
     bindM (retrieve ssl (block_num bo) False) (\<lambda>d.
     bindM (in_slot d (read_at bo (u32_sub len total_bytes_read))) (\<lambda>got.
     bindM (cache_done (block_num bo) False) (\<lambda>_.
     ret (advance_block_offset bo (length got), u32 (total_bytes_read + length got), out_buffer @ got)))))"

definition read_across_data_nodes :: "openssl \<Rightarrow> block_offset_t \<Rightarrow> nat \<Rightarrow> bytes \<Rightarrow> ('z data_node_io_scheme, bytes) m" where
  "read_across_data_nodes ssl bo_at len out_buffer =
     bindM (loop_m (\<lambda>(_, total_bytes_read, _) _. total_bytes_read < len) (read_step ssl len) (bo_at, 0, out_buffer)) (\<lambda>(_, _, out).
     ret out)"

section \<open>Structure: every operation returns\<close>

lemma total_node_ops [total_intros]:
  "total_on P (write_at buf n bo)" "total_on P (read_at bo n)" "total_on P (consume_free_space n)"
  by (auto simp: total_on_def write_at_def read_at_def consume_free_space_def Let_def throw_def)

lemma last_block_structure [total_intros, preserve_intros]: "total_on P last_block" "preserves P last_block"
  unfolding last_block_def by (intro total_intros preserve_intros)+

lemma append_block_structure [total_intros, preserve_intros]:
  "total_on in_order (append_block k)" "preserves in_order (append_block k)"
  "preserves (\<lambda>s. \<not> world_intact ssl s) (append_block k)"
  unfolding append_block_def by (intro total_intros preserve_intros; simp)+

lemma add_and_init_structure [total_intros, preserve_intros]:
  "total_on in_order (add_and_init_append_data_node ssl)" "preserves in_order (add_and_init_append_data_node ssl)"
  "preserves (\<lambda>s. \<not> world_intact ssl' s) (add_and_init_append_data_node ssl)"
  unfolding add_and_init_append_data_node_def by (intro total_intros preserve_intros)+

lemma add_cond_structure [total_intros, preserve_intros]:
  "total_on in_order (add_and_init_append_data_node_cond ssl c)" "preserves in_order (add_and_init_append_data_node_cond ssl c)"
  "preserves (\<lambda>s. \<not> world_intact ssl' s) (add_and_init_append_data_node_cond ssl c)"
  unfolding add_and_init_append_data_node_cond_def by (intro total_intros preserve_intros)+

lemma step_structure [total_intros, preserve_intros]:
  "total_on in_order (write_step ssl buf l)" "preserves in_order (write_step ssl buf l)"
  "preserves (\<lambda>s. \<not> world_intact ssl' s) (write_step ssl buf l)"
  "total_on in_order (read_step ssl n l')" "preserves in_order (read_step ssl n l')"
  "preserves (\<lambda>s. \<not> world_intact ssl' s) (read_step ssl n l')"
  unfolding write_step_def read_step_def by (intro total_intros preserve_intros)+

lemma across_structure [preserve_intros]:
  "preserves in_order (write_across_data_nodes ssl buf bo)" "preserves in_order (read_across_data_nodes ssl bo n out)"
  "preserves (\<lambda>s. \<not> world_intact ssl' s) (write_across_data_nodes ssl buf bo)"
  "preserves (\<lambda>s. \<not> world_intact ssl' s) (read_across_data_nodes ssl bo n out)"
  unfolding write_across_data_nodes_def read_across_data_nodes_def by (intro preserve_intros)+

end
