(* ===== verification/Linear_Memory.thy ===== *)
theory Linear_Memory
  imports Data_Node_IO
begin

text \<open>
  The array of bytes behind \<open>data_node_io\<close>. \<open>dn_inv ssl s Ms A\<close>: the state holds the blocks \<open>Ms\<close>, the last
  of them is the one being appended to, in its slot and pinned, with \<open>A\<close> bytes free at its end.
  Reading across data nodes gives a run of the concatenated blocks; writing overwrites a run,
  and appends blocks when it goes past the end.
\<close>

section \<open>The invariant\<close>

definition idle :: "nat \<Rightarrow> 'z cache_scheme \<Rightarrow> bool" where
  "idle n s \<longleftrightarrow> (\<forall>k bce. map_of (block_cache s) k = Some bce \<longrightarrow> refs bce = 0 \<and> (pinned bce \<longrightarrow> k = 0 \<or> k = n))"

text \<open>The free space of the last block only has to agree with the host's copy while the block is not modified.\<close>

definition dn_core :: "openssl \<Rightarrow> 'z data_node_io_scheme \<Rightarrow> bytes list \<Rightarrow> nat \<Rightarrow> bool" where
  "dn_core ssl s Ms A \<longleftrightarrow> contents ssl s Ms \<and> Ms \<noteq> [] \<and> idle (length Ms - 1) s
     \<and> dn_free_bytes (data_nodes s ! append_dn s) = A
     \<and> (\<exists>bce. map_of (block_cache s) (length Ms - 1) = Some bce \<and> pinned bce \<and> slot bce = append_dn s)"

definition append_saved :: "openssl \<Rightarrow> 'z data_node_io_scheme \<Rightarrow> bytes list \<Rightarrow> nat \<Rightarrow> bool" where
  "append_saved ssl s Ms A \<longleftrightarrow> (\<forall>bce. map_of (block_cache s) (length Ms - 1) = Some bce \<longrightarrow>
     is_modified bce \<or> persisted ssl s (length Ms - 1) (last Ms) A)"

definition dn_inv :: "openssl \<Rightarrow> 'z data_node_io_scheme \<Rightarrow> bytes list \<Rightarrow> nat \<Rightarrow> bool" where
  "dn_inv ssl s Ms A \<longleftrightarrow> dn_core ssl s Ms A \<and> append_saved ssl s Ms A"

lemma idle_spare:
  assumes "slots_ok s" and "idle n s"
  shows "spare s"
proof -
  have o: "in_order s" using assms(1) by (simp add: slots_ok_def)
  let ?b = "filter (\<lambda>x. busy (snd x)) (block_cache s)"
  have "set (map fst ?b) \<subseteq> {0, n}"
  proof
    fix k assume "k \<in> set (map fst ?b)"
    then obtain bce where "(k, bce) \<in> set (block_cache s)" "busy bce" by auto
    then show "k \<in> {0, n}" using assms(2) map_of_ordered [OF o] by (auto simp: idle_def busy_def)
  qed
  moreover have "distinct (map fst ?b)"
    using o by (simp add: ordered_def strict_sorted_iff distinct_map_filter)
  ultimately have "length (map fst ?b) \<le> card {0, n}"
    by (metis card_mono distinct_card finite.emptyI finite_insert)
  also have "\<dots> \<le> 2" by (simp add: card_insert_if)
  finally show ?thesis by (simp add: spare_def)
qed

lemma dn_core_spare: "dn_core ssl s Ms A \<Longrightarrow> spare s"
  by (auto simp: dn_core_def contents_def intro: idle_spare)

lemma last_block_run: "contents ssl s Ms \<Longrightarrow> Ms \<noteq> [] \<Longrightarrow> last_block s = Some (Inr (length Ms - 1), s)"
  by (simp add: contents_def last_block_def get_def get_last_block_num_def u32_sub_id Suc_leI)

section \<open>Working on one block\<close>

text \<open>The pattern of the two loops: retrieve a block, work on its data node, and give it back.\<close>

definition on_block :: "openssl \<Rightarrow> nat \<Rightarrow> (data_node, 'a) m \<Rightarrow> ('a \<Rightarrow> bool) \<Rightarrow> ('z data_node_io_scheme, 'a) m" where
  "on_block ssl k m f =
     bindM (retrieve ssl k False) (\<lambda>d.
     bindM (in_slot d m) (\<lambda>x.
     bindM (cache_done k (f x)) (\<lambda>_. ret x)))"

text \<open>What an operation does to a data node that holds a block, when it may change its bytes and its free space.\<close>

definition node_effect :: "(data_node, 'a) m \<Rightarrow> ('a \<Rightarrow> bool) \<Rightarrow> nat \<Rightarrow> bytes \<Rightarrow> bytes \<Rightarrow> (nat \<Rightarrow> nat) \<Rightarrow> 'a \<Rightarrow> bool" where
  "node_effect m f k pl pl' g x \<longleftrightarrow> length pl' = 8184 \<and> (\<forall>dn. holds dn k pl \<longrightarrow>
     (\<exists>dn'. m dn = Some (Inr x, dn') \<and> holds dn' k pl' \<and> dn_free_bytes dn' = g (dn_free_bytes dn)
        \<and> (f x \<or> pl' = pl)))"

lemma contents_modify:
  assumes c: "contents ssl s Ms" and e: "map_of (block_cache s) k = Some bce" and k: "k < length Ms"
    and dn: "holds dn k pl" "length pl = 8184" and b: "slot bce' = slot bce" "is_modified bce' \<or> pl = Ms ! k \<and> (is_modified bce \<longrightarrow> is_modified bce')"
  shows "contents ssl (s\<lparr>data_nodes := (data_nodes s)[slot bce := dn], block_cache := map_put k bce' (block_cache s)\<rparr>) (Ms[k := pl])"
proof -
  let ?s = "s\<lparr>data_nodes := (data_nodes s)[slot bce := dn], block_cache := map_put k bce' (block_cache s)\<rparr>"
  have so: "slots_ok s" and o: "in_order s" using c by (simp_all add: contents_def slots_ok_def)
  have sl: "slot bce < length (data_nodes s)" using contents_slot [OF c e] by simp
  have "slots_ok ?s"
    using so o map_put_old [OF o e, of slot bce'] b(1) by (simp add: slots_ok_def ordered_map_put)
  moreover have "block_ok ssl ?s j (Ms[k := pl] ! j)" if j: "j < length Ms" for j
  proof (cases "j = k")
    case True
    have "block_ok ssl s k (Ms ! k)" using c k by (simp add: contents_def)
    moreover have "on_host ssl ?s k (Ms ! k) = on_host ssl s k (Ms ! k)" by (simp add: on_host_def persisted_def)
    ultimately show ?thesis using True dn b k sl e by (auto simp: block_ok_def)
  next
    case False
    have old: "block_ok ssl s j (Ms ! j)" using c j by (simp add: contents_def)
    have hs: "on_host ssl ?s j (Ms ! j) = on_host ssl s j (Ms ! j)" by (simp add: on_host_def persisted_def)
    have "map_of (block_cache s) j = Some b \<Longrightarrow> slot bce \<noteq> slot b" for b
      using slot_inj [OF so e] False by auto
    with old hs False show ?thesis by (auto simp: block_ok_def split: option.splits)
  qed
  ultimately show ?thesis using c k by (auto simp: contents_def world_ok_def)
qed

text \<open>Giving the block back after the work on its data node.\<close>

definition after_work :: "nat \<Rightarrow> block_cache_entry_t \<Rightarrow> data_node \<Rightarrow> bool \<Rightarrow> 'z cache_scheme \<Rightarrow> 'z cache_scheme" where
  "after_work k bce dn f s = s\<lparr>data_nodes := (data_nodes s)[slot bce := dn],
     block_cache := map_put k (bce\<lparr>refs := u32_sub (refs bce) 1, is_modified := is_modified bce \<or> f\<rparr>) (block_cache s)\<rparr>"

lemma work_run:
  assumes c: "contents ssl s Ms" and k: "k < length Ms" and e: "map_of (block_cache s) k = Some bce"
    and eff: "node_effect m f k (Ms ! k) pl g x"
  shows "\<exists>dn. bindM (in_slot (slot bce) m) (\<lambda>x. bindM (cache_done k (f x)) (\<lambda>_. ret x)) s
      = Some (Inr x, after_work k bce dn (f x) s)
    \<and> contents ssl (after_work k bce dn (f x) s) (Ms[k := pl])
    \<and> dn_free_bytes dn = g (dn_free_bytes (data_nodes s ! slot bce))
    \<and> (f x \<or> pl = Ms ! k)"
proof -
  let ?dn = "data_nodes s ! slot bce"
  have h: "holds ?dn k (Ms ! k)" using c k e by (auto simp: contents_def block_ok_def split: option.splits)
  obtain dn where dn: "m ?dn = Some (Inr x, dn)" "holds dn k pl" "dn_free_bytes dn = g (dn_free_bytes ?dn)" "f x \<or> pl = Ms ! k"
      and pl: "length pl = 8184"
    using eff h unfolding node_effect_def by blast
  let ?b = "bce\<lparr>refs := u32_sub (refs bce) 1, is_modified := is_modified bce \<or> f x\<rparr>"
  have run: "bindM (in_slot (slot bce) m) (\<lambda>x. bindM (cache_done k (f x)) (\<lambda>_. ret x)) s
      = Some (Inr x, after_work k bce dn (f x) s)"
    using dn(1) e by (simp add: in_slot_def zoom_def cache_done_def update_entry_def set_entry_def run_defs after_work_def)
  have "contents ssl (after_work k bce dn (f x) s) (Ms[k := pl])"
    using contents_modify [OF c e k dn(2) pl, of ?b] dn(4) by (auto simp: after_work_def)
  then show ?thesis using run dn(3,4) by blast
qed

lemma persisted_cache [simp]:
  "persisted ssl (s\<lparr>data_nodes := ns, block_cache := m\<rparr>) = persisted ssl s"
  "persisted ssl (block_cache_update h s) = persisted ssl s" "persisted ssl (data_nodes_update p s) = persisted ssl s"
  by (intro ext, simp add: persisted_def)+

lemma more_eq:
  "cache.more s = cache.more t \<Longrightarrow> append_dn s = append_dn t \<and> free_space s = free_space t"
  by (cases s, cases t) simp

text \<open>The block that is appended to stays where it is while another block is loaded.\<close>

lemma retrieve_keeps_append:
  assumes i: "dn_core ssl s Ms A" and ev: "evolves {k} s s'" "keeps_busy {k} s s'" and r: "retrieved False k s d s'"
  shows "\<exists>bce. map_of (block_cache s') k = Some bce \<and> slot bce = d \<and> refs bce = 1
    \<and> (k \<noteq> length Ms - 1 \<longrightarrow> (\<exists>a. map_of (block_cache s') (length Ms - 1) = Some a \<and> pinned a \<and> slot a = append_dn s'))
    \<and> (k = length Ms - 1 \<longrightarrow> pinned bce \<and> d = append_dn s')
    \<and> append_dn s' = append_dn s \<and> dn_free_bytes (data_nodes s' ! append_dn s') = A
    \<and> (pinned bce \<longrightarrow> k = 0 \<or> k = length Ms - 1)
    \<and> (\<forall>j b. j \<noteq> k \<longrightarrow> map_of (block_cache s') j = Some b \<longrightarrow> refs b = 0 \<and> (pinned b \<longrightarrow> j = 0 \<or> j = length Ms - 1))"
proof -
  obtain a where a: "map_of (block_cache s) (length Ms - 1) = Some a" "pinned a" "slot a = append_dn s"
    and A: "dn_free_bytes (data_nodes s ! append_dn s) = A" and idle: "idle (length Ms - 1) s"
    using i by (auto simp: dn_core_def)
  obtain bce where b: "map_of (block_cache s') k = Some (bce\<lparr>refs := u32 (refs bce + 1)\<rparr>)" "slot bce = d"
      "case map_of (block_cache s) k of None \<Rightarrow> fresh_entry False bce
        | Some b \<Rightarrow> bce = b \<and> data_nodes s' ! d = data_nodes s ! d \<and> blockIds (warehouse s') ! k = blockIds (warehouse s) ! k"
    using r unfolding retrieved_def by blast
  have refs0: "refs bce = 0" and pk: "pinned bce \<longrightarrow> k = 0 \<or> k = length Ms - 1"
    using b(3) idle by (cases "map_of (block_cache s) k"; simp add: idle_def fresh_entry_def)+
  have ap: "append_dn s' = append_dn s"
    using ev(1) more_eq [of s' s] by (simp add: evolves_def)
  have others: "\<forall>j b. j \<noteq> k \<longrightarrow> map_of (block_cache s') j = Some b \<longrightarrow> refs b = 0 \<and> (pinned b \<longrightarrow> j = 0 \<or> j = length Ms - 1)"
    using ev(1) idle unfolding evolves_def idle_def by blast
  have keep: "map_of (block_cache s') (length Ms - 1) = Some a \<and> data_nodes s' ! slot a = data_nodes s ! slot a"
    if "k \<noteq> length Ms - 1"
  proof -
    have "map_of (block_cache s') (length Ms - 1) = Some a"
      using keeps_busyD [OF ev(2) _ a(1)] a(2) that by (simp add: busy_def)
    from evolvesD [OF ev(1) _ this] this that show ?thesis by auto
  qed
  have same: "bce = a \<and> data_nodes s' ! d = data_nodes s ! d" if "k = length Ms - 1"
    using b(3) a(1) that by simp
  have one: "u32 (refs bce + 1) = 1" using refs0 by (simp add: u32_def)
  show ?thesis
  proof (cases "k = length Ms - 1")
    case True
    with same a b(2) have "pinned bce" "d = append_dn s'" "dn_free_bytes (data_nodes s' ! append_dn s') = A"
      using ap A by simp_all
    with True b(1,2) one ap others show ?thesis by simp
  next
    case False
    with keep a A ap have "dn_free_bytes (data_nodes s' ! append_dn s') = A"
        "\<exists>a. map_of (block_cache s') (length Ms - 1) = Some a \<and> pinned a \<and> slot a = append_dn s'"
      by auto
    with False b(1,2) one ap pk others show ?thesis by simp
  qed
qed

lemma retrieve_append_saved:
  assumes i: "dn_inv ssl s Ms A" and ev: "evolves {k} s s'" and r: "retrieved False k s d s'"
  shows "append_saved ssl s' Ms A"
  unfolding append_saved_def
proof (intro allI impI)
  fix a' assume a': "map_of (block_cache s') (length Ms - 1) = Some a'"
  obtain a where a: "map_of (block_cache s) (length Ms - 1) = Some a"
      "is_modified a \<or> persisted ssl s (length Ms - 1) (last Ms) A"
    using i by (auto simp: dn_inv_def dn_core_def append_saved_def)
  have m: "is_modified a' = is_modified a \<and> blockIds (warehouse s') ! (length Ms - 1) = blockIds (warehouse s) ! (length Ms - 1)"
  proof (cases "k = length Ms - 1")
    case True
    then show ?thesis using r a(1) a' by (auto simp: retrieved_def)
  next
    case False
    then show ?thesis using evolvesD [OF ev _ a'] a(1) by auto
  qed
  from a(2) show "is_modified a' \<or> persisted ssl s' (length Ms - 1) (last Ms) A"
  proof
    assume "persisted ssl s (length Ms - 1) (last Ms) A"
    then have "persisted ssl s' (length Ms - 1) (last Ms) A"
      by (rule persisted_mono) (use ev m in \<open>auto simp: evolves_def\<close>)
    then show ?thesis ..
  qed (use m in simp)
qed

lemma after_work_sel [simp]:
  "append_dn (after_work k bce dn f s) = append_dn s" "free_space (after_work k bce dn f s) = free_space s"
  "world (after_work k bce dn f s) = world s" "persisted ssl (after_work k bce dn f s) = persisted ssl s"
  "block_cache (after_work k bce dn f s) =
     map_put k (bce\<lparr>refs := u32_sub (refs bce) 1, is_modified := is_modified bce \<or> f\<rparr>) (block_cache s)"
  "data_nodes (after_work k bce dn f s) = (data_nodes s)[slot bce := dn]"
  by (simp_all add: after_work_def)

lemma dn_inv_after_work:
  assumes c': "contents ssl (after_work k bce dn f t) (Ms[k := pl])" and k: "k < length Ms" and ne: "Ms \<noteq> []"
    and b: "map_of (block_cache t) k = Some bce" "refs bce = 1"
    and other: "k \<noteq> length Ms - 1 \<longrightarrow> (\<exists>a. map_of (block_cache t) (length Ms - 1) = Some a \<and> pinned a \<and> slot a = append_dn t)"
    and this_one: "k = length Ms - 1 \<longrightarrow> pinned bce \<and> slot bce = append_dn t"
    and pins: "pinned bce \<longrightarrow> k = 0 \<or> k = length Ms - 1"
      "\<forall>j b. j \<noteq> k \<longrightarrow> map_of (block_cache t) j = Some b \<longrightarrow> refs b = 0 \<and> (pinned b \<longrightarrow> j = 0 \<or> j = length Ms - 1)"
    and A: "dn_free_bytes (data_nodes t ! append_dn t) = A"
    and dn: "dn_free_bytes dn = g (dn_free_bytes (data_nodes t ! slot bce)) \<and> (f \<or> pl = Ms ! k \<and> (k = length Ms - 1 \<longrightarrow> g A = A))"
    and saved: "append_saved ssl t Ms A"
  shows "dn_inv ssl (after_work k bce dn f t) (Ms[k := pl]) (if k = length Ms - 1 then g A else A)"
proof -
  let ?s = "after_work k bce dn f t" and ?b = "bce\<lparr>refs := u32_sub (refs bce) 1, is_modified := is_modified bce \<or> f\<rparr>"
  have idle: "idle (length (Ms[k := pl]) - 1) ?s"
    using b(2) pins by (auto simp: idle_def u32_sub_def)
  have so: "slots_ok ?s" using c' by (simp add: contents_def)
  show ?thesis
  proof (cases "k = length Ms - 1")
    case True
    with this_one have p: "pinned bce" "slot bce = append_dn t" by auto
    have e: "map_of (block_cache ?s) k = Some ?b" by simp
    have sl: "append_dn t < length (data_nodes t)" using contents_slot [OF c' e] p by simp
    have "dn_core ssl ?s (Ms[k := pl]) (g A)"
      using c' ne idle p sl dn A True by (simp add: dn_core_def)
    moreover have "append_saved ssl ?s (Ms[k := pl]) (g A)"
    proof (cases f)
      case True
      then show ?thesis using \<open>k = length Ms - 1\<close> by (simp add: append_saved_def)
    next
      case False
      with dn \<open>k = length Ms - 1\<close> have "g A = A" "Ms[k := pl] = Ms" by (auto simp: list_update_id)
      with saved b(1) \<open>k = length Ms - 1\<close> show ?thesis by (auto simp: append_saved_def)
    qed
    ultimately show ?thesis using True by (simp add: dn_inv_def)
  next
    case False
    with other obtain a where a: "map_of (block_cache t) (length Ms - 1) = Some a" "pinned a" "slot a = append_dn t" by blast
    have "slot ?b \<noteq> slot a"
      by (rule slot_inj [OF so, of k _ "length Ms - 1"]) (use a False in simp_all)
    then have "dn_core ssl ?s (Ms[k := pl]) A"
      using c' ne idle a A False by (simp add: dn_core_def)
    moreover have "last (Ms[k := pl]) = last Ms"
      using ne False k by (simp add: last_conv_nth)
    then have "append_saved ssl ?s (Ms[k := pl]) A"
      using saved False by (simp add: append_saved_def)
    ultimately show ?thesis using False by (simp add: dn_inv_def)
  qed
qed

lemma on_block_triple:
  assumes cr: "crypto_ok ssl" and k: "k < length Ms" and eff: "node_effect m f k (Ms ! k) pl g x"
    and keep: "f x \<or> (k = length Ms - 1 \<longrightarrow> g A = A)"
  shows "triple (world_intact ssl) (\<lambda>s. s = s0 \<and> dn_inv ssl s Ms A) (on_block ssl k m f)
    (\<lambda>x' s. x' = x \<and> free_space s = free_space s0
       \<and> dn_inv ssl s (Ms[k := pl]) (if k = length Ms - 1 then g A else A))"
proof (rule triple_conseq)
  let ?R = "\<lambda>d t. contents ssl t Ms \<and> evolves {k} s0 t \<and> keeps_busy {k} s0 t \<and> retrieved False k s0 d t \<and> dn_inv ssl s0 Ms A"
  show "triple (world_intact ssl) (\<lambda>s. s = s0 \<and> dn_inv ssl s Ms A) (on_block ssl k m f)
    (\<lambda>x' s. x' = x \<and> free_space s = free_space s0
       \<and> dn_inv ssl s (Ms[k := pl]) (if k = length Ms - 1 then g A else A))"
    unfolding on_block_def
  proof (rule triple_bind [where Q = ?R])
    show "triple (world_intact ssl) (\<lambda>s. s = s0 \<and> dn_inv ssl s Ms A) (retrieve ssl k False) ?R"
    proof (rule tripleI)
      fix s r s' assume p: "s = s0 \<and> dn_inv ssl s Ms A" and run: "retrieve ssl k False s = Some (r, s')" "world_intact ssl s'"
      then have "s = s0 \<and> contents ssl s Ms \<and> spare s \<and> k < length Ms"
        using k dn_core_spare [of ssl s Ms A] by (auto simp: dn_inv_def) (simp add: dn_core_def)
      from tripleD [OF retrieve_triple [OF cr] this run] p show "\<exists>d. r = Inr d \<and> ?R d s'" by blast
    qed
  next
    fix d
    show "triple (world_intact ssl) (?R d) (bindM (in_slot d m) (\<lambda>x. bindM (cache_done k (f x)) (\<lambda>_. ret x)))
      (\<lambda>x' s. x' = x \<and> free_space s = free_space s0
         \<and> dn_inv ssl s (Ms[k := pl]) (if k = length Ms - 1 then g A else A))"
    proof (rule triple_run)
      fix t assume R: "?R d t"
      then have c: "contents ssl t Ms" and ev: "evolves {k} s0 t" and kb: "keeps_busy {k} s0 t"
        and r: "retrieved False k s0 d t" and i: "dn_inv ssl s0 Ms A" by blast+
      have core: "dn_core ssl s0 Ms A" and ne: "Ms \<noteq> []" using i by (auto simp: dn_inv_def dn_core_def)
      from retrieve_keeps_append [OF core ev kb r] obtain bce
        where b: "map_of (block_cache t) k = Some bce" "slot bce = d" "refs bce = 1"
          and other: "k \<noteq> length Ms - 1 \<longrightarrow> (\<exists>a. map_of (block_cache t) (length Ms - 1) = Some a \<and> pinned a \<and> slot a = append_dn t)"
          and this_one: "k = length Ms - 1 \<longrightarrow> pinned bce \<and> d = append_dn t"
          and "append_dn t = append_dn s0" and A: "dn_free_bytes (data_nodes t ! append_dn t) = A"
          and pins: "pinned bce \<longrightarrow> k = 0 \<or> k = length Ms - 1"
            "\<forall>j b. j \<noteq> k \<longrightarrow> map_of (block_cache t) j = Some b \<longrightarrow> refs b = 0 \<and> (pinned b \<longrightarrow> j = 0 \<or> j = length Ms - 1)"
        by (elim exE conjE) (rule that)
      from work_run [OF c k b(1) eff] obtain dn
        where run: "bindM (in_slot (slot bce) m) (\<lambda>x. bindM (cache_done k (f x)) (\<lambda>_. ret x)) t
            = Some (Inr x, after_work k bce dn (f x) t)"
          and c': "contents ssl (after_work k bce dn (f x) t) (Ms[k := pl])"
          and dn: "dn_free_bytes dn = g (dn_free_bytes (data_nodes t ! slot bce))"
            "f x \<or> pl = Ms ! k"
        by (elim exE conjE) (rule that)
      have dn2: "f x \<or> pl = Ms ! k \<and> (k = length Ms - 1 \<longrightarrow> g A = A)" using dn(2) keep by blast
      have this_slot: "k = length Ms - 1 \<longrightarrow> pinned bce \<and> slot bce = append_dn t" using this_one b(2) by simp
      let ?s = "after_work k bce dn (f x) t"
      have "dn_inv ssl ?s (Ms[k := pl]) (if k = length Ms - 1 then g A else A)"
        using dn_inv_after_work [where g = g, OF c' k ne b(1,3) other this_slot pins A conjI [OF dn(1) dn2] retrieve_append_saved [OF i ev r]] .
      moreover have "free_space ?s = free_space s0"
        using ev more_eq [of t s0] by (simp add: evolves_def)
      ultimately show "\<exists>x' s'. bindM (in_slot d m) (\<lambda>x. bindM (cache_done k (f x)) (\<lambda>_. ret x)) t = Some (Inr x', s')
          \<and> (world_intact ssl s' \<longrightarrow> x' = x \<and> free_space s' = free_space s0
             \<and> dn_inv ssl s' (Ms[k := pl]) (if k = length Ms - 1 then g A else A))"
        using run b(2) by blast
    qed
  qed (intro preserve_intros)
qed simp_all

lemma contents_outer [simp]:
  "contents ssl (append_dn_update f s) = contents ssl s" "contents ssl (free_space_update h s) = contents ssl s"
proof -
  have h: "on_host ssl (append_dn_update f s) = on_host ssl s" "on_host ssl (free_space_update h s) = on_host ssl s"
    by (intro ext, simp add: on_host_def persisted_def)+
  have b: "block_ok ssl (append_dn_update f s) = block_ok ssl s" "block_ok ssl (free_space_update h s) = block_ok ssl s"
    by (intro ext, simp add: block_ok_def h split: option.split)+
  show "contents ssl (append_dn_update f s) = contents ssl s" "contents ssl (free_space_update h s) = contents ssl s"
    by (intro ext, simp add: contents_def slots_ok_def world_ok_def b)+
qed

section \<open>Appending a block\<close>

definition zero_block :: bytes where
  "zero_block = replicate 8184 0"

lemma length_zero_block [simp]: "length zero_block = 8184"
  by (simp add: zero_block_def)

lemma contents_append:
  assumes c: "contents ssl s Ms" and q: "dn_queue s = d # q" and new: "map_of (block_cache s) (length Ms) = None"
    and n: "Suc (length Ms) < 2147483648" and b: "slot bce = d" "is_modified bce"
  shows "contents ssl (s\<lparr>dn_queue := q, data_nodes := (data_nodes s)[d := new_data_node (length Ms)],
      block_cache := map_put (length Ms) bce (block_cache s), cache_clock := clk,
      warehouse := (warehouse s)\<lparr>blockIds := blockIds (warehouse s) @ [bid]\<rparr>\<rparr>) (Ms @ [zero_block])"
proof -
  let ?s = "s\<lparr>dn_queue := q, data_nodes := (data_nodes s)[d := new_data_node (length Ms)],
      block_cache := map_put (length Ms) bce (block_cache s), cache_clock := clk,
      warehouse := (warehouse s)\<lparr>blockIds := blockIds (warehouse s) @ [bid]\<rparr>\<rparr>"
  have so: "slots_ok s" and o: "in_order s" using c by (simp_all add: contents_def slots_ok_def)
  have d: "d < length (data_nodes s)" using slots_distinct(2) [OF so] q so by (auto simp: slots_ok_def)
  have ne: "d \<noteq> slot b" if "map_of (block_cache s) j = Some b" for j b
    using slot_free [OF so that] q by auto
  have "slots_ok ?s"
    using so o q b mset_map_put_new [OF new, of bce] by (simp add: slots_ok_def ordered_map_put)
  moreover have "block_ok ssl ?s j ((Ms @ [zero_block]) ! j)" if j: "j < Suc (length Ms)" for j
  proof (cases "j = length Ms")
    case True
    then show ?thesis
      using b d n by (simp add: block_ok_def holds_def wf_new_data_node zero_block_def)
  next
    case False
    with j have j': "j < length Ms" by simp
    have old: "block_ok ssl s j (Ms ! j)" using c j' by (simp add: contents_def)
    have "blockIds (warehouse ?s) ! j = blockIds (warehouse s) ! j"
      using c j' by (simp add: contents_def nth_append)
    then have hs: "on_host ssl ?s j (Ms ! j) = on_host ssl s j (Ms ! j)" by (simp add: on_host_def persisted_def)
    show ?thesis using old hs ne j' by (auto simp: block_ok_def nth_append split: option.splits)
  qed
  moreover have "\<not> (map_of (block_cache s) k = Some e \<and> Suc (length Ms) \<le> k)" for k e
    using contents_slot [OF c] by (metis not_less_eq_eq)
  ultimately show ?thesis using c n by (auto simp: contents_def world_ok_def)
qed

text \<open>A block of the free table that stayed in the cache is dropped first; that is the same as dropping it before.\<close>

definition without_stale :: "nat \<Rightarrow> 'z cache_scheme \<Rightarrow> 'z cache_scheme" where
  "without_stale k s = (case map_of (block_cache s) k of None \<Rightarrow> s
     | Some bce \<Rightarrow> s\<lparr>dn_queue := dn_queue s @ [slot bce], block_cache := map_erase k (block_cache s)\<rparr>)"

lemma contents_without_stale:
  assumes c: "contents ssl s Ms" and "s' = without_stale (length Ms) s"
  shows "contents ssl s' Ms \<and> map_of (block_cache s') (length Ms) = None"
proof (cases "map_of (block_cache s) (length Ms)")
  case None
  then show ?thesis using assms by (simp add: without_stale_def)
next
  case (Some bce)
  have "\<not> is_modified bce" using c Some by (simp add: contents_def)
  from drop_entry_run [OF c Some this] have "contents ssl (without_stale (length Ms) s) Ms"
    using Some by (auto simp: without_stale_def)
  moreover have "in_order s" using c by (simp add: contents_def slots_ok_def)
  then have "map_of (block_cache (without_stale (length Ms) s)) (length Ms) = None"
    using Some by (simp add: without_stale_def)
  ultimately show ?thesis using assms(2) by simp
qed

lemma map_put_put: "map_put k v (map_put k v' m) = map_put k v m"
  by (induction k v m rule: map_put.induct) auto

lemmas append_block_defs = append_block_def slots_allocate_def in_slot_def in_warehouse_def zoom_def cache_put_def
  cache_pin_def cache_modified_def update_entry_def set_entry_def add_block_id_def run_defs map_put_put

lemma append_block_run:
  assumes c: "contents ssl s Ms" and q: "dn_queue s = d # q" and n: "Suc (length Ms) < 2147483648"
    and b: "bce = \<lparr>pinned = True, refs = 0, is_modified = True, clock = cache_clock s, slot = d\<rparr>"
    and w: "w = without_stale (length Ms) s"
    and s': "s' = w\<lparr>dn_queue := tl (dn_queue w), data_nodes := (data_nodes s)[d := new_data_node (length Ms)],
      block_cache := map_put (length Ms) bce (block_cache w), cache_clock := u64 (cache_clock s + 1),
      warehouse := (warehouse s)\<lparr>blockIds := blockIds (warehouse s) @ [replicate STATE_BLOCK_ID_LENGTH 0]\<rparr>,
      append_dn := d\<rparr>"
  shows "append_block (length Ms) s = Some (Inr (), s')" and "contents ssl s' (Ms @ [zero_block])"
    and "d < length (data_nodes s)"
proof -
  let ?k = "length Ms"
  have so: "slots_ok s" and o: "in_order s" and dl: "length (data_nodes s) = 512"
    using c by (simp_all add: contents_def slots_ok_def)
  show d: "d < length (data_nodes s)" using slots_distinct(2) [OF so] q so by (auto simp: slots_ok_def)
  have cw: "contents ssl w Ms" "map_of (block_cache w) ?k = None"
    using contents_without_stale [OF c w] by simp_all
  have sel: "data_nodes w = data_nodes s" "warehouse w = warehouse s" "cache_clock w = cache_clock s"
      "dn_queue w = d # tl (dn_queue w)"
    unfolding w without_stale_def using q by (auto split: option.splits)
  have "contents ssl (w\<lparr>dn_queue := tl (dn_queue w), data_nodes := (data_nodes w)[d := new_data_node ?k],
      block_cache := map_put ?k bce (block_cache w), cache_clock := u64 (cache_clock s + 1),
      warehouse := (warehouse w)\<lparr>blockIds := blockIds (warehouse w) @ [replicate STATE_BLOCK_ID_LENGTH 0]\<rparr>\<rparr>)
      (Ms @ [zero_block])"
    by (rule contents_append [OF cw(1) sel(4) cw(2) n]) (simp_all add: b)
  then show "contents ssl s' (Ms @ [zero_block])" by (simp add: s' sel(1,2))
  have sz: "map_of (block_cache s) ?k \<noteq> None \<Longrightarrow> length q < 512"
    using slots_distinct(3) [OF so] q by (cases "block_cache s") auto
  show "append_block ?k s = Some (Inr (), s')"
  proof (cases "map_of (block_cache s) ?k")
    case None
    then have "w = s" by (simp add: w without_stale_def)
    with None q show ?thesis by (cases s) (simp add: append_block_defs s' b)
  next
    case (Some e)
    then have "w = s\<lparr>dn_queue := dn_queue s @ [slot e], block_cache := map_erase ?k (block_cache s)\<rparr>"
      by (simp add: w without_stale_def)
    with Some q sz dl o show ?thesis
      by (cases s) (simp add: append_block_defs drop_entry_def slots_release_def s' b)
  qed
qed

lemma add_and_init_run:
  assumes c: "contents ssl s Ms" and ne: "Ms \<noteq> []" and n: "length Ms < 4294967296"
    and a: "map_of (block_cache s) (length Ms - 1) = Some bce" and A: "dn_free_bytes (data_nodes s ! append_dn s) < 8184"
  shows "add_and_init_append_data_node ssl s =
    bindM (replacement_policy ssl) (\<lambda>_. append_block (length Ms))
      (block_cache_update (map_put (length Ms - 1) (bce\<lparr>pinned := False\<rparr>)) s)"
proof -
  have "u32 (length Ms - 1 + 1) = length Ms" using ne n by (simp add: u32_id)
  moreover have "cache_unpin (length Ms - 1) s =
      Some (Inr (), block_cache_update (map_put (length Ms - 1) (bce\<lparr>pinned := False\<rparr>)) s)"
    using a by (simp add: cache_unpin_def update_entry_def set_entry_def exec_simps)
  ultimately show ?thesis
    using A last_block_run [OF c ne] by (simp add: add_and_init_append_data_node_def exec_simps)
qed

lemma add_and_init_triple:
  assumes cr: "crypto_ok ssl" and n: "Suc (length Ms) < 2147483648"
  shows "triple (world_intact ssl) (\<lambda>s. s = s0 \<and> dn_core ssl s Ms A \<and> A < 8184) (add_and_init_append_data_node ssl)
    (\<lambda>_ s. dn_inv ssl s (Ms @ [zero_block]) 8184 \<and> free_space s = free_space s0)"
proof (rule tripleI)
  fix s r s'
  assume p: "s = s0 \<and> dn_core ssl s Ms A \<and> A < 8184" and run: "add_and_init_append_data_node ssl s = Some (r, s')"
    and i: "world_intact ssl s'"
  then have c: "contents ssl s0 Ms" and ne: "Ms \<noteq> []" and idl: "idle (length Ms - 1) s0"
    and A: "dn_free_bytes (data_nodes s0 ! append_dn s0) < 8184" by (auto simp: dn_core_def)
  obtain a where a: "map_of (block_cache s0) (length Ms - 1) = Some a" "pinned a" "slot a = append_dn s0"
    using p by (auto simp: dn_core_def)
  define s1 where "s1 = block_cache_update (map_put (length Ms - 1) (a\<lparr>pinned := False\<rparr>)) s0"
  have c1: "contents ssl s1 Ms"
    unfolding s1_def by (rule contents_update_entry [OF c a(1)]) (use ne in simp_all)
  have idl1: "\<forall>k b. map_of (block_cache s1) k = Some b \<longrightarrow> refs b = 0 \<and> (pinned b \<longrightarrow> k = 0)"
    using idl a(1) by (auto simp: s1_def idle_def)
  then have "idle 0 s1" by (auto simp: idle_def)
  then have sp: "spare s1" using c1 idle_spare by (auto simp: contents_def)
  have "bindM (replacement_policy ssl) (\<lambda>_. append_block (length Ms)) s1 = Some (r, s')"
    using add_and_init_run [OF c ne _ a(1) A] run p n by (simp add: s1_def)
  from bindM_SomeD [OF this]
  show "\<exists>x. r = Inr x \<and> dn_inv ssl s' (Ms @ [zero_block]) 8184 \<and> free_space s' = free_space s0"
  proof (elim disjE exE conjE)
    fix e assume "replacement_policy ssl s1 = Some (Inl e, s')" "r = Inl e"
    then show ?thesis using tripleD [OF replacement_policy_triple [OF cr, of s1 Ms] _ _ i] c1 sp by blast
  next
    fix x t assume pol: "replacement_policy ssl s1 = Some (Inr x, t)" and ap: "append_block (length Ms) t = Some (r, s')"
    have "world_intact ssl t" using preservesD [OF append_block_structure(3) _ ap] i by blast
    from tripleD [OF replacement_policy_triple [OF cr, of s1 Ms] _ pol this] c1 sp
    have t: "contents ssl t Ms" "evolves {} s1 t" "length (block_cache t) < 512" by auto
    then have "dn_queue t \<noteq> []" using slots_distinct(3) [of t] by (auto simp: contents_def)
    then obtain d q where q: "dn_queue t = d # q" by (cases "dn_queue t") auto
    let ?b = "\<lparr>pinned = True, refs = 0, is_modified = True, clock = cache_clock t, slot = d\<rparr>"
    note run = append_block_run [OF t(1) q n refl refl refl]
    let ?w = "without_stale (length Ms) t"
    have fs: "free_space ?w = free_space t" by (simp add: without_stale_def split: option.split)
    have cw: "contents ssl ?w Ms" using contents_without_stale [OF t(1) refl] by simp
    have ow: "map_of (block_cache t) j = Some b" if "map_of (block_cache ?w) j = Some b" for j b
      using that t(1) by (auto simp: without_stale_def contents_def slots_ok_def split: option.splits if_splits)
    have idl2: "\<forall>k b. map_of (block_cache ?w) k = Some b \<longrightarrow> refs b = 0 \<and> (pinned b \<longrightarrow> k = 0)"
      using ow evolvesD [OF t(2)] idl1 by blast
    have r: "r = Inr ()" and c': "contents ssl s' (Ms @ [zero_block])" and d: "d < length (data_nodes t)"
      and sel: "append_dn s' = d" "data_nodes s' = (data_nodes t)[d := new_data_node (length Ms)]"
        "block_cache s' = map_put (length Ms) ?b (block_cache ?w)" "free_space s' = free_space t"
      using run ap fs by auto
    have "idle (length Ms) s'" using idl2 by (auto simp: idle_def sel)
    then have "dn_inv ssl s' (Ms @ [zero_block]) 8184"
      using c' d sel by (simp add: dn_inv_def dn_core_def append_saved_def)
    moreover have "free_space t = free_space s0"
      using t(2) more_eq [of t s1] by (simp add: evolves_def s1_def)
    ultimately show ?thesis using r sel(4) by simp
  qed
qed

end
