(* ===== verification/Across_Nodes.thy ===== *)
theory Across_Nodes
  imports Linear_Memory
begin

text \<open>
  Reading and writing across data nodes as operations on one array of bytes: the concatenation of
  the blocks. The append cursor is a position in that array, too.
\<close>

section \<open>Blocks of equal length\<close>

definition all_blocks :: "bytes list \<Rightarrow> bool" where
  "all_blocks Ms \<longleftrightarrow> (\<forall>b \<in> set Ms. length b = 8184)"

lemma contents_blocks: "contents ssl s Ms \<Longrightarrow> all_blocks Ms"
  by (auto simp: contents_def block_ok_def all_blocks_def in_set_conv_nth)

lemma length_concat_blocks: "all_blocks Ms \<Longrightarrow> length (concat Ms) = 8184 * length Ms"
  by (induction Ms) (auto simp: all_blocks_def)

lemma concat_split:
  "k < length Ms \<Longrightarrow> concat Ms = concat (take k Ms) @ Ms ! k @ concat (drop (Suc k) Ms)"
  by (metis concat.simps(2) concat_append id_take_nth_drop)

lemma length_concat_take: "all_blocks Ms \<Longrightarrow> k \<le> length Ms \<Longrightarrow> length (concat (take k Ms)) = 8184 * k"
  using length_concat_blocks [of "take k Ms"] by (auto simp: all_blocks_def dest: in_set_takeD)

lemma slice_block:
  assumes "all_blocks Ms" and "k < length Ms" and "j + n \<le> 8184"
  shows "slice (Ms ! k) j n = slice (concat Ms) (8184 * k + j) n"
proof -
  have len: "length (concat (take k Ms)) = 8184 * k" using assms(1,2) by (simp add: length_concat_take)
  have "length (Ms ! k) = 8184" using assms(1,2) by (simp add: all_blocks_def)
  then show ?thesis
    unfolding concat_split [OF assms(2)] slice_def using assms(3) len by simp
qed

lemma overwrite_block:
  assumes "all_blocks Ms" and "k < length Ms" and "j + length ys \<le> 8184"
  shows "concat (Ms[k := overwrite (Ms ! k) j ys]) = overwrite (concat Ms) (8184 * k + j) ys"
proof -
  have len: "length (concat (take k Ms)) = 8184 * k" using assms(1,2) by (simp add: length_concat_take)
  have b: "length (Ms ! k) = 8184" using assms(1,2) by (simp add: all_blocks_def)
  have "concat (Ms[k := overwrite (Ms ! k) j ys])
      = concat (take k Ms) @ overwrite (Ms ! k) j ys @ concat (drop (Suc k) Ms)"
    using assms(2) by (simp add: upd_conv_take_nth_drop)
  also have "\<dots> = overwrite (concat (take k Ms) @ Ms ! k @ concat (drop (Suc k) Ms)) (8184 * k + j) ys"
    using len b assms(3) by (simp add: overwrite_def add.assoc)
  finally show ?thesis using concat_split [OF assms(2)] by simp
qed

section \<open>The operations on one data node as effects\<close>

lemma read_effect:
  assumes "wf_offset bo" and "length pl = 8184" and n: "n = min len (8192 - bytes bo)"
  shows "node_effect (read_at bo len) (\<lambda>_. False) (block_num bo) pl pl (\<lambda>A. A) (slice pl (bytes bo - 8) n)"
  unfolding node_effect_def
proof (intro conjI allI impI)
  fix dn assume h: "holds dn (block_num bo) pl"
  have "bytes bo = 8 + (bytes bo - 8)" using assms(1) by (simp add: wf_offset_def)
  then have "slice (dn_data dn) (bytes bo) n = slice pl (bytes bo - 8) n"
    using h by (auto simp: slice_def holds_def)
  then show "\<exists>dn'. read_at bo len dn = Some (Inr (slice pl (bytes bo - 8) n), dn') \<and> holds dn' (block_num bo) pl
      \<and> dn_free_bytes dn' = dn_free_bytes dn \<and> (False \<or> pl = pl)"
    using read_at_run [of dn bo n len] h assms(1) n by (simp add: holds_def)
qed (rule assms(2))

lemma write_effect:
  assumes "canonical_offset bo" and "length pl = 8184" and "from < length buf" and "length buf < 4294967296"
    and n: "n = min (length buf - from) (8192 - bytes bo)"
  shows "node_effect (write_at buf from bo) (\<lambda>n. n > 0) (block_num bo) pl
    (overwrite pl (bytes bo - 8) (slice buf from n)) (\<lambda>A. min A (8192 - (bytes bo + n))) n"
  unfolding node_effect_def
proof (intro conjI allI impI)
  have b: "8 \<le> bytes bo" "bytes bo < 8192" using assms(1) by (simp_all add: canonical_offset_def)
  have ln: "length (slice buf from n) = n" "bytes bo + n \<le> 8192" using n assms(3) b by auto
  show "length (overwrite pl (bytes bo - 8) (slice buf from n)) = 8184"
    using assms(2) ln b by simp
  fix dn assume h: "holds dn (block_num bo) pl"
  let ?dn = "dn\<lparr>dn_data := overwrite (dn_data dn) (bytes bo) (slice buf from n),
        dn_free_bytes := min (dn_free_bytes dn) (8192 - (bytes bo + n))\<rparr>"
  have "write_at buf from bo dn = Some (Inr n, ?dn)"
    by (rule write_at_run) (use h assms n canonical_wf in \<open>auto simp: holds_def\<close>)
  moreover have "wf_data_node ?dn"
    by (rule write_at_wf) (use h assms n canonical_wf in \<open>auto simp: holds_def\<close>)
  moreover have "drop 8 (overwrite (dn_data dn) (bytes bo) (slice buf from n)) = overwrite pl (bytes bo - 8) (slice buf from n)"
  proof -
    have "length (dn_data dn) = 8192" using h by (simp add: holds_def wf_data_node_def)
    then show ?thesis using h b ln by (auto simp: overwrite_def holds_def drop_take)
  qed
  ultimately show "\<exists>dn'. write_at buf from bo dn = Some (Inr n, dn')
      \<and> holds dn' (block_num bo) (overwrite pl (bytes bo - 8) (slice buf from n))
      \<and> dn_free_bytes dn' = min (dn_free_bytes dn) (8192 - (bytes bo + n)) \<and> (0 < n \<or> overwrite pl (bytes bo - 8) (slice buf from n) = pl)"
    using h b n assms(3) by (auto simp: holds_def)
qed

section \<open>The array and its cursor\<close>

definition dn_at :: "openssl \<Rightarrow> 'z data_node_io_scheme \<Rightarrow> bytes list \<Rightarrow> nat \<Rightarrow> bool" where
  "dn_at ssl s Ms c \<longleftrightarrow> dn_inv ssl s Ms (8184 * length Ms - c) \<and> c \<le> 8184 * length Ms \<and> 8184 * length Ms \<le> c + 8184"

lemma dn_at_blocks: "dn_at ssl s Ms c \<Longrightarrow> all_blocks Ms"
  by (auto simp: dn_at_def dn_inv_def dn_core_def contents_blocks)

lemma dn_at_bounds: "dn_at ssl s Ms c \<Longrightarrow> 0 < length Ms \<and> length Ms < 2147483648"
  by (auto simp: dn_at_def dn_inv_def dn_core_def contents_def)

lemma bindM_ret [simp]: "bindM (ret x) f = f x"
  by (rule ext) (simp add: bindM_def ret_def)

lemma read_step_on_block:
  "read_step ssl len (bo, tb, out) =
   bindM (on_block ssl (block_num bo) (read_at bo (u32_sub len tb)) (\<lambda>_. False)) (\<lambda>got.
     ret (advance_block_offset bo (length got), u32 (tb + length got), out @ got))"
  by (simp add: read_step_def on_block_def bindM_assoc)

lemma write_step_on_block:
  "write_step ssl buf (bo, tb) =
   bindM last_block (\<lambda>last.
   bindM (add_and_init_append_data_node_cond ssl (block_num bo > last)) (\<lambda>_.
   bindM (on_block ssl (block_num bo) (write_at buf tb bo) (\<lambda>n. n > 0)) (\<lambda>n.
     ret (advance_block_offset bo n, u32 (tb + n)))))"
  by (simp add: write_step_def on_block_def bindM_assoc)

lemma on_block_structure [preserve_intros]:
  "preserves (\<lambda>s. \<not> world_intact ssl' s) (on_block ssl k m f)"
  unfolding on_block_def by (intro preserve_intros)

lemma triple_ret: "(\<And>s. P s \<Longrightarrow> Q x s) \<Longrightarrow> triple G P (ret x) Q"
  by (simp add: triple_def ret_def)

lemma triple_assume: "(\<And>s0. P s0 \<Longrightarrow> triple G (\<lambda>s. s = s0 \<and> P s) m Q) \<Longrightarrow> triple G P m Q"
  unfolding triple_def by blast

lemma triple_pure: "(b \<Longrightarrow> triple G P m Q) \<Longrightarrow> triple G (\<lambda>s. b \<and> P s) m Q"
  unfolding triple_def by blast

section \<open>Reading\<close>

text \<open>
  The reading loop: the bytes read so far are the run of the array from the start; the offset is
  where it ends.
\<close>

definition read_inv ::
    "openssl \<Rightarrow> bytes list \<Rightarrow> nat \<Rightarrow> free_space_collector \<Rightarrow> nat \<Rightarrow> nat \<Rightarrow> bytes \<Rightarrow>
     block_offset_t \<times> nat \<times> bytes \<Rightarrow> 'z data_node_io_scheme \<Rightarrow> bool" where
  "read_inv ssl Ms c fs a len out0 = (\<lambda>(bo, tb, out) s.
     dn_at ssl s Ms c \<and> free_space s = fs \<and> wf_offset bo \<and> lin bo = a + tb \<and> tb \<le> len
     \<and> out = out0 @ slice (concat Ms) a tb)"

lemma read_step_triple:
  assumes cr: "crypto_ok ssl" and len: "len < 4294967296" and a: "a + len \<le> 8184 * length Ms"
  shows "triple (world_intact ssl) (\<lambda>s :: 'z data_node_io_scheme. read_inv ssl Ms c fs a len out0 (bo, tb, out) s \<and> tb < len)
    (read_step ssl len (bo, tb, out)) (read_inv ssl Ms c fs a len out0)"
proof (rule triple_assume)
  fix s0 :: "'z data_node_io_scheme" assume p: "read_inv ssl Ms c fs a len out0 (bo, tb, out) s0 \<and> tb < len"
  then have at: "dn_at ssl s0 Ms c" and fs: "free_space s0 = fs" and bo: "wf_offset bo" "lin bo = a + tb"
    and tot: "tb < len" and out: "out = out0 @ slice (concat Ms) a tb"
    by (simp_all add: read_inv_def)
  have bl: "all_blocks Ms" and nb: "0 < length Ms" "length Ms < 2147483648"
    using dn_at_blocks [OF at] dn_at_bounds [OF at] by simp_all
  define k j n where "k = block_num bo" and "j = bytes bo - 8" and "n = min (len - tb) (8192 - bytes bo)"
  have j: "bytes bo = 8 + j" "j \<le> 8184" using bo(1) by (auto simp: j_def wf_offset_def)
  have kj: "8184 * k + j = a + tb" using bo(2) by (simp add: k_def j_def lin_def mult.commute)
  have k: "k < length Ms"
  proof -
    have "8184 * k + j < 8184 * length Ms" using kj tot a by linarith
    then show ?thesis by linarith
  qed
  have n: "n = n" "j + n \<le> 8184" "tb + n \<le> len" using j tot by (auto simp: n_def)
  have pl: "length (Ms ! k) = 8184" using bl k by (simp add: all_blocks_def)
  have eff: "node_effect (read_at bo (u32_sub len tb)) (\<lambda>_. False) k (Ms ! k) (Ms ! k) (\<lambda>A. A) (slice (Ms ! k) j n)"
    using read_effect [OF bo(1) pl, of n "u32_sub len tb"] tot len by (simp add: k_def j_def n_def u32_sub_id)
  have got: "slice (Ms ! k) j n = slice (concat Ms) (a + tb) n" using slice_block [OF bl k n(2)] kj by simp
  have lgot: "length (slice (Ms ! k) j n) = n" using pl n(2) by simp
  have "lin bo + n < addr_limit"
    using kj bo(2) n(3) a nb by (simp add: addr_limit_def)
  moreover have "n < 4294967296" using n(2) by linarith
  ultimately have adv: "lin (advance_block_offset bo n) = lin bo + n \<and> canonical_offset (advance_block_offset bo n)"
    by (rule advance_block_offset_lin [OF bo(1)])
  have inv: "read_inv ssl Ms c fs a len out0 (advance_block_offset bo n, u32 (tb + n), out @ slice (Ms ! k) j n) s"
    if "dn_at ssl s Ms c" "free_space s = fs" for s :: "'z data_node_io_scheme"
    using that adv n bo(2) out len by (simp add: read_inv_def u32_id slice_add got canonical_wf)
  show "triple (world_intact ssl) (\<lambda>s. s = s0 \<and> read_inv ssl Ms c fs a len out0 (bo, tb, out) s \<and> tb < len)
    (read_step ssl len (bo, tb, out)) (read_inv ssl Ms c fs a len out0)"
    unfolding read_step_on_block
  proof (rule triple_bind)
    let ?Q = "\<lambda>got (s :: 'z data_node_io_scheme). got = slice (Ms ! k) j n \<and> free_space s = fs \<and> dn_at ssl s Ms c"
    show "triple (world_intact ssl) (\<lambda>s. s = s0 \<and> read_inv ssl Ms c fs a len out0 (bo, tb, out) s \<and> tb < len)
      (on_block ssl (block_num bo) (read_at bo (u32_sub len tb)) (\<lambda>_. False)) ?Q"
      by (rule triple_conseq [OF on_block_triple [OF cr k eff, where ?s0.0 = s0 and A = "8184 * length Ms - c", unfolded k_def]])
        (use at fs in \<open>auto simp: dn_at_def list_update_id k_def\<close>)
    show "triple (world_intact ssl) (?Q got) (ret (advance_block_offset bo (length got), u32 (tb + length got), out @ got))
        (read_inv ssl Ms c fs a len out0)" for got
      by (rule triple_ret) (use inv lgot in auto)
  qed (intro preserve_intros)
qed

lemma read_across_triple:
  assumes cr: "crypto_ok ssl" and len: "len < 4294967296" and bo: "wf_offset bo" and a: "lin bo + len \<le> 8184 * length Ms"
  shows "triple (world_intact ssl) (\<lambda>s. dn_at ssl s Ms c \<and> free_space s = fs) (read_across_data_nodes ssl bo len out)
    (\<lambda>r s. r = out @ slice (concat Ms) (lin bo) len \<and> dn_at ssl s Ms c \<and> free_space s = fs)"
  unfolding read_across_data_nodes_def
proof (rule triple_bind)
  let ?I = "read_inv ssl Ms c fs (lin bo) len out"
  have "triple (world_intact ssl) (?I (bo, 0, out)) (loop_m (\<lambda>(_, tb, _) _. tb < len) (read_step ssl len) (bo, 0, out))
      (\<lambda>l s. ?I l s \<and> \<not> (case l of (_, tb, _) \<Rightarrow> \<lambda>_. tb < len) s)"
  proof (rule triple_loop)
    fix l show "triple (world_intact ssl) (\<lambda>s. ?I l s \<and> (case l of (_, tb, _) \<Rightarrow> \<lambda>_. tb < len) s) (read_step ssl len l) ?I"
      using read_step_triple [OF cr len a] by (cases l) simp
  qed (intro preserve_intros)
  then show "triple (world_intact ssl) (\<lambda>s. dn_at ssl s Ms c \<and> free_space s = fs)
      (loop_m (\<lambda>(_, tb, _) _. tb < len) (read_step ssl len) (bo, 0, out)) (\<lambda>l s. ?I l s \<and> \<not> fst (snd l) < len)"
    by (rule triple_conseq) (use bo in \<open>auto simp: read_inv_def slice_def\<close>)
  show "triple (world_intact ssl) (\<lambda>s. ?I l s \<and> \<not> fst (snd l) < len) (case l of (_, _, out) \<Rightarrow> ret out)
      (\<lambda>r s. r = out @ slice (concat Ms) (lin bo) len \<and> dn_at ssl s Ms c \<and> free_space s = fs)" for l
    by (cases l) (auto intro!: triple_ret simp: read_inv_def)
qed (intro preserve_intros)

section \<open>Writing\<close>

text \<open>The array padded with zero blocks to a number of blocks, and the number of blocks that reach a position.\<close>

definition padded :: "bytes list \<Rightarrow> nat \<Rightarrow> bytes" where
  "padded Ms n = concat Ms @ replicate (8184 * (n - length Ms)) 0"

definition blocks_for :: "nat \<Rightarrow> nat" where
  "blocks_for p = (p + 8183) div 8184"

definition write_inv ::
    "openssl \<Rightarrow> bytes list \<Rightarrow> nat \<Rightarrow> free_space_collector \<Rightarrow> nat \<Rightarrow> bytes \<Rightarrow>
     block_offset_t \<times> nat \<Rightarrow> 'z data_node_io_scheme \<Rightarrow> bool" where
  "write_inv ssl Ms c fs a buf = (\<lambda>(bo, tb) s. \<exists>Mt.
     dn_at ssl s Mt (if tb = 0 then c else max c (a + tb)) \<and> free_space s = fs
     \<and> canonical_offset bo \<and> lin bo = a + tb \<and> tb \<le> length buf \<and> a + tb \<le> 8184 * length Mt
     \<and> length Mt = (if tb = 0 then length Ms else max (length Ms) (blocks_for (a + tb)))
     \<and> concat Mt = overwrite (padded Ms (length Mt)) a (take tb buf))"

lemma blocks_for_bound: "p \<le> 8184 * n \<Longrightarrow> 8184 * n < p + 8184 \<Longrightarrow> blocks_for p = n"
  by (simp add: blocks_for_def)

lemma blocks_for_upper: "8184 * blocks_for p < p + 8184"
  using times_div_less_eq_dividend [of 8184 "p + 8183"] by (simp add: blocks_for_def)

lemma overwrite_append: "i + length ys \<le> length xs \<Longrightarrow> overwrite (xs @ zs) i ys = overwrite xs i ys @ zs"
  by (simp add: overwrite_def)

lemma padded_Suc: "length Ms \<le> n \<Longrightarrow> padded Ms (Suc n) = padded Ms n @ zero_block"
  by (simp add: padded_def zero_block_def Suc_diff_le replicate_add [symmetric] add.commute)

lemma length_padded: "all_blocks Ms \<Longrightarrow> length Ms \<le> n \<Longrightarrow> length (padded Ms n) = 8184 * n"
  by (simp add: padded_def length_concat_blocks flip: distrib_left)

text \<open>Before the write to a block: a block is appended when the offset is at the end of the array.\<close>

lemma prepare_triple:
  assumes cr: "crypto_ok ssl" and bl: "all_blocks Ms" and n: "a + length buf \<le> 8184 * 2147483647"
    and first: "tb = 0 \<longrightarrow> a = 8184 * length Ms \<longrightarrow> 8184 * length Ms < c + 8184"
    and s0: "write_inv ssl Ms c fs a buf (bo, tb) s0" and tb: "tb < length buf"
  shows "triple (world_intact ssl) (\<lambda>s. s = s0)
    (bindM last_block (\<lambda>last. add_and_init_append_data_node_cond ssl (block_num bo > last)))
    (\<lambda>_ s. \<exists>Mt ct. dn_at ssl s Mt ct \<and> free_space s = fs \<and> max ct (a + tb) = max c (a + tb) \<and> block_num bo < length Mt
       \<and> length Ms \<le> length Mt \<and> (length Mt = length Ms \<or> length Mt = blocks_for (a + tb + 1))
       \<and> concat Mt = overwrite (padded Ms (length Mt)) a (take tb buf))"
proof -
  obtain Mt where at: "dn_at ssl s0 Mt (if tb = 0 then c else max c (a + tb))" and fs: "free_space s0 = fs"
    and bo: "canonical_offset bo" "lin bo = a + tb" and le: "a + tb \<le> 8184 * length Mt"
    and num: "length Mt = (if tb = 0 then length Ms else max (length Ms) (blocks_for (a + tb)))"
    and mem: "concat Mt = overwrite (padded Ms (length Mt)) a (take tb buf)"
    using s0 by (auto simp: write_inv_def)
  let ?ct = "if tb = 0 then c else max c (a + tb)"
  have nb: "0 < length Mt" "length Mt < 2147483648" using dn_at_bounds [OF at] by simp_all
  have bn: "block_num bo = (a + tb) div 8184" using canonical_block_num [OF bo(1)] bo(2) by simp
  have lb: "last_block s0 = Some (Inr (length Mt - 1), s0)"
    using at last_block_run [of ssl s0 Mt] by (auto simp: dn_at_def dn_inv_def dn_core_def)
  have ct: "c \<le> ?ct" "?ct \<le> 8184 * length Mt" "max ?ct (a + tb) = max c (a + tb)" using at by (auto simp: dn_at_def)
  have mono: "length Ms \<le> length Mt" using num by (auto split: if_splits)
  show ?thesis
  proof (cases "a + tb = 8184 * length Mt")
    case True
    then have bn': "block_num bo = length Mt" using bn by simp
    have core: "dn_core ssl s0 Mt (8184 * length Mt - ?ct)" using at by (simp add: dn_at_def dn_inv_def)
    have A: "8184 * length Mt - ?ct < 8184" using True num first by (auto split: if_splits)
    have len: "Suc (length Mt) < 2147483648" using True tb n by linarith
    have post: "\<exists>Mt ct. dn_at ssl s Mt ct \<and> free_space s = fs \<and> max ct (a + tb) = max c (a + tb) \<and> block_num bo < length Mt
       \<and> length Ms \<le> length Mt \<and> (length Mt = length Ms \<or> length Mt = blocks_for (a + tb + 1))
       \<and> concat Mt = overwrite (padded Ms (length Mt)) a (take tb buf)"
      if "dn_inv ssl s (Mt @ [zero_block]) 8184" "free_space s = fs" for s :: "'a data_node_io_scheme"
    proof (intro exI conjI)
      show "dn_at ssl s (Mt @ [zero_block]) (8184 * length Mt)" using that(1) by (simp add: dn_at_def)
      show "max (8184 * length Mt) (a + tb) = max c (a + tb)" using True ct by simp
      show "length (Mt @ [zero_block]) = length Ms \<or> length (Mt @ [zero_block]) = blocks_for (a + tb + 1)"
        using True blocks_for_bound [of "a + tb + 1" "Suc (length Mt)"] by simp
      have "a + length (take tb buf) \<le> length (padded Ms (length Mt))"
        using le tb length_padded [OF bl mono] by simp
      then show "concat (Mt @ [zero_block]) = overwrite (padded Ms (length (Mt @ [zero_block]))) a (take tb buf)"
        using mem mono by (simp add: padded_Suc overwrite_append)
    qed (use that bn' mono in simp_all)
    show ?thesis
    proof (rule tripleI)
      fix s r s' assume s: "s = s0" and i: "world_intact ssl s'"
        and run: "bindM last_block (\<lambda>last. add_and_init_append_data_node_cond ssl (block_num bo > last)) s = Some (r, s')"
      have "add_and_init_append_data_node ssl s0 = Some (r, s')"
        using run s lb bn' nb by (simp add: bindM_def add_and_init_append_data_node_cond_def)
      from tripleD [OF add_and_init_triple [OF cr len] conjI [OF refl conjI [OF core A]] this i] fs post
      show "\<exists>x. r = Inr x \<and> (\<exists>Mt ct. dn_at ssl s' Mt ct \<and> free_space s' = fs \<and> max ct (a + tb) = max c (a + tb)
         \<and> block_num bo < length Mt \<and> length Ms \<le> length Mt \<and> (length Mt = length Ms \<or> length Mt = blocks_for (a + tb + 1))
         \<and> concat Mt = overwrite (padded Ms (length Mt)) a (take tb buf))"
        by metis
    qed
  next
    case False
    then have "block_num bo < length Mt" using le bn by simp
    then have "\<not> block_num bo > length Mt - 1" by simp
    with lb have run: "bindM last_block (\<lambda>last. add_and_init_append_data_node_cond ssl (block_num bo > last)) s0 = Some (Inr (), s0)"
      by (simp add: bindM_def add_and_init_append_data_node_cond_def ret_def)
    have "length Mt = length Ms \<or> length Mt = blocks_for (a + tb + 1)"
      using num False le blocks_for_upper [of "a + tb"] blocks_for_bound [of "a + tb + 1" "length Mt"]
      by (auto simp: max_def split: if_splits)
    then show ?thesis
      using run at fs ct(3) \<open>block_num bo < length Mt\<close> mono mem by (intro triple_run) blast
  qed
qed

lemma write_block_triple:
  assumes cr: "crypto_ok ssl" and bl: "all_blocks Ms" and n: "a + length buf \<le> 8184 * 2147483647" and buf: "length buf < 4294967296"
    and bo: "canonical_offset bo" "lin bo = a + tb" and tb: "tb < length buf"
    and at: "dn_at ssl s0 Mt ct" "free_space s0 = fs" "max ct (a + tb) = max c (a + tb)"
    and k: "block_num bo < length Mt" "length Ms \<le> length Mt" "length Mt = length Ms \<or> length Mt = blocks_for (a + tb + 1)"
    and mem: "concat Mt = overwrite (padded Ms (length Mt)) a (take tb buf)"
  shows "triple (world_intact ssl) (\<lambda>s. s = s0)
    (bindM (on_block ssl (block_num bo) (write_at buf tb bo) (\<lambda>n. n > 0)) (\<lambda>n. ret (advance_block_offset bo n, u32 (tb + n))))
    (write_inv ssl Ms c fs a buf)"
proof -
  define k' j m where "k' = block_num bo" and "j = bytes bo - 8" and "m = min (length buf - tb) (8192 - bytes bo)"
  have j: "bytes bo = 8 + j" "j < 8184" using bo(1) by (auto simp: j_def canonical_offset_def)
  have kj: "8184 * k' + j = a + tb" using bo(2) by (simp add: k'_def j_def lin_def mult.commute)
  have m: "0 < m" "j + m \<le> 8184" "tb + m \<le> length buf" using j tb by (auto simp: m_def)
  have k': "k' < length Mt" using k(1) by (simp add: k'_def)
  have blt: "all_blocks Mt" using dn_at_blocks [OF at(1)] .
  have pl: "length (Mt ! k') = 8184" using blt k' by (simp add: all_blocks_def)
  let ?w = "slice buf tb m" and ?g = "\<lambda>A. min A (8192 - (bytes bo + m))"
  have lw: "length ?w = m" using m(3) by simp
  have eff: "node_effect (write_at buf tb bo) (\<lambda>n. n > 0) k' (Mt ! k') (overwrite (Mt ! k') j ?w) ?g m"
    using write_effect [OF bo(1) pl tb buf, of m] by (simp add: k'_def j_def m_def)
  let ?M = "Mt[k' := overwrite (Mt ! k') j ?w]"
  have pos: "a + tb + m \<le> 8184 * length Mt"
  proof -
    have "8184 * k' + j + m \<le> 8184 * (k' + 1)" using m(2) by simp
    also have "\<dots> \<le> 8184 * length Mt" using k' by (intro mult_le_mono2) simp
    finally show ?thesis using kj by simp
  qed
  have cat: "concat ?M = overwrite (padded Ms (length ?M)) a (take (tb + m) buf)"
  proof -
    have "concat ?M = overwrite (concat Mt) (a + tb) ?w"
      using overwrite_block [OF blt k', of j ?w] m(2) lw kj by simp
    also have "\<dots> = overwrite (padded Ms (length Mt)) a (take tb buf @ ?w)"
      using overwrite_overwrite [of a "take tb buf" "padded Ms (length Mt)" ?w] mem tb pos length_padded [OF bl k(2)] by simp
    also have "take tb buf @ ?w = take (tb + m) buf" by (simp add: slice_def take_add)
    finally show ?thesis by simp
  qed
  have num: "length ?M = max (length Ms) (blocks_for (a + (tb + m)))"
  proof -
    have "blocks_for (a + (tb + m)) \<le> length Mt"
      using pos by (simp add: blocks_for_def)
    moreover have "blocks_for (a + tb + 1) \<le> blocks_for (a + (tb + m))"
      unfolding blocks_for_def using m(1) by (intro div_le_mono) simp
    ultimately show ?thesis using k(2,3) by auto
  qed
  have cur: "(if k' = length Mt - 1 then ?g (8184 * length Mt - ct) else 8184 * length Mt - ct)
      = 8184 * length Mt - max c (a + (tb + m)) \<and> max c (a + (tb + m)) \<le> 8184 * length Mt
      \<and> 8184 * length Mt \<le> max c (a + (tb + m)) + 8184"
  proof -
    have b: "ct \<le> 8184 * length Mt" "8184 * length Mt \<le> ct + 8184" using at(1) by (simp_all add: dn_at_def)
    have mx: "max c (a + (tb + m)) = max ct (a + tb + m)" using at(3) by linarith
    show ?thesis
    proof (cases "k' = length Mt - 1")
      case True
      then have "8184 * length Mt = 8184 * k' + 8184" using k' by simp
      then have "8192 - (bytes bo + m) = 8184 * length Mt - (a + tb + m)" using j kj by linarith
      moreover have "min (x - ct) (x - y) = x - max ct y" for x y by auto
      ultimately show ?thesis using True b pos mx by simp
    next
      case False
      then have "k' + 2 \<le> length Mt" using k' by simp
      then have "a + tb + m \<le> ct" using kj m(2) b by linarith
      then show ?thesis using False b mx by auto
    qed
  qed
  have "lin bo + m < addr_limit" using bo(2) m(3) n by (simp add: addr_limit_def)
  moreover have "m < 4294967296" using m(2) by linarith
  ultimately have adv: "lin (advance_block_offset bo m) = lin bo + m \<and> canonical_offset (advance_block_offset bo m)"
    by (rule advance_block_offset_lin [OF canonical_wf [OF bo(1)]])
  have inv: "write_inv ssl Ms c fs a buf (advance_block_offset bo m, u32 (tb + m)) s"
    if "dn_inv ssl s ?M (8184 * length Mt - max c (a + (tb + m)))" "free_space s = fs" for s :: "'a data_node_io_scheme"
  proof -
    have "dn_at ssl s ?M (max c (a + (tb + m)))" using that(1) cur by (simp add: dn_at_def)
    moreover have "u32 (tb + m) = tb + m" using m(3) buf by (simp add: u32_id)
    ultimately show ?thesis
      using that(2) adv bo(2) m pos cat num by (auto simp: write_inv_def intro!: exI [of _ ?M])
  qed
  show ?thesis
  proof (rule triple_bind)
    let ?Q = "\<lambda>x (s :: 'a data_node_io_scheme). x = m \<and> free_space s = fs \<and> dn_inv ssl s ?M (8184 * length Mt - max c (a + (tb + m)))"
    show "triple (world_intact ssl) (\<lambda>s. s = s0) (on_block ssl (block_num bo) (write_at buf tb bo) (\<lambda>n. n > 0)) ?Q"
      by (rule triple_conseq [OF on_block_triple [OF cr k' eff, where ?s0.0 = s0 and A = "8184 * length Mt - ct", unfolded k'_def]])
        (use at cur m(1) in \<open>auto simp: dn_at_def k'_def\<close>)
    show "triple (world_intact ssl) (?Q x) (ret (advance_block_offset bo x, u32 (tb + x))) (write_inv ssl Ms c fs a buf)" for x
      by (rule triple_ret) (use inv in auto)
  qed (intro preserve_intros)
qed

lemma write_step_triple:
  assumes cr: "crypto_ok ssl" and bl: "all_blocks Ms" and n: "a + length buf \<le> 8184 * 2147483647" and buf: "length buf < 4294967296"
    and first: "a = 8184 * length Ms \<longrightarrow> 8184 * length Ms < c + 8184"
  shows "triple (world_intact ssl) (\<lambda>s :: 'z data_node_io_scheme. write_inv ssl Ms c fs a buf (bo, tb) s \<and> tb < length buf)
    (write_step ssl buf (bo, tb)) (write_inv ssl Ms c fs a buf)"
proof (rule triple_assume)
  fix s0 :: "'z data_node_io_scheme" assume p: "write_inv ssl Ms c fs a buf (bo, tb) s0 \<and> tb < length buf"
  then have i: "write_inv ssl Ms c fs a buf (bo, tb) s0" and tb: "tb < length buf" by simp_all
  have bo: "canonical_offset bo" "lin bo = a + tb" using i by (auto simp: write_inv_def)
  let ?P = "\<lambda>s :: 'z data_node_io_scheme. \<exists>Mt ct. dn_at ssl s Mt ct \<and> free_space s = fs \<and> max ct (a + tb) = max c (a + tb)
       \<and> block_num bo < length Mt \<and> length Ms \<le> length Mt \<and> (length Mt = length Ms \<or> length Mt = blocks_for (a + tb + 1))
       \<and> concat Mt = overwrite (padded Ms (length Mt)) a (take tb buf)"
  let ?W = "bindM (on_block ssl (block_num bo) (write_at buf tb bo) (\<lambda>n. n > 0)) (\<lambda>n. ret (advance_block_offset bo n, u32 (tb + n)))"
  have W: "triple (world_intact ssl) ?P ?W (write_inv ssl Ms c fs a buf)"
  proof (rule triple_assume)
    fix s1 assume "?P s1"
    then have "triple (world_intact ssl) (\<lambda>s. s = s1) ?W (write_inv ssl Ms c fs a buf)"
      by (elim exE conjE) (rule write_block_triple [OF cr bl n buf bo tb])
    then show "triple (world_intact ssl) (\<lambda>s. s = s1 \<and> ?P s) ?W (write_inv ssl Ms c fs a buf)"
      by (rule triple_conseq) simp_all
  qed
  have eq: "(write_step ssl buf (bo, tb) :: ('z data_node_io_scheme, block_offset_t \<times> nat) m) =
      bindM (bindM last_block (\<lambda>last. add_and_init_append_data_node_cond ssl (block_num bo > last))) (\<lambda>_. ?W)"
    by (simp add: write_step_on_block bindM_assoc)
  show "triple (world_intact ssl) (\<lambda>s. s = s0 \<and> write_inv ssl Ms c fs a buf (bo, tb) s \<and> tb < length buf)
      (write_step ssl buf (bo, tb)) (write_inv ssl Ms c fs a buf)"
    unfolding eq
  proof (rule triple_bind [OF _ W])
    show "triple (world_intact ssl) (\<lambda>s. s = s0 \<and> write_inv ssl Ms c fs a buf (bo, tb) s \<and> tb < length buf)
      (bindM last_block (\<lambda>last. add_and_init_append_data_node_cond ssl (block_num bo > last))) (\<lambda>_. ?P)"
      by (rule triple_conseq [OF prepare_triple [OF cr bl n _ i tb]]) (use first in auto)
  qed (intro preserve_intros)
qed

text \<open>What a write leaves: the blocks it needs, the bytes written, and the cursor at least behind them.\<close>

definition written :: "bytes list \<Rightarrow> nat \<Rightarrow> bytes \<Rightarrow> bytes list \<Rightarrow> bool" where
  "written Ms a buf Mt \<longleftrightarrow> length Mt = max (length Ms) (if buf = [] then 0 else blocks_for (a + length buf))
     \<and> concat Mt = overwrite (padded Ms (length Mt)) a buf"

lemma write_across_canonical:
  assumes cr: "crypto_ok ssl" and n: "lin bo + length buf \<le> 8184 * 2147483647" and buf: "length buf < 4294967296"
    and bo: "canonical_offset bo" "lin bo \<le> 8184 * length Ms"
    and first: "lin bo = 8184 * length Ms \<longrightarrow> 8184 * length Ms < c + 8184"
  shows "triple (world_intact ssl) (\<lambda>s :: 'z data_node_io_scheme. dn_at ssl s Ms c \<and> free_space s = fs) (write_across_data_nodes ssl buf bo)
    (\<lambda>_ s. \<exists>Mt. dn_at ssl s Mt (if buf = [] then c else max c (lin bo + length buf)) \<and> free_space s = fs \<and> written Ms (lin bo) buf Mt)"
proof (rule triple_assume)
  fix s0 :: "'z data_node_io_scheme" assume p: "dn_at ssl s0 Ms c \<and> free_space s0 = fs"
  then have bl: "all_blocks Ms" using dn_at_blocks by blast
  let ?I = "write_inv ssl Ms c fs (lin bo) buf"
  have "triple (world_intact ssl) (?I (bo, 0)) (loop_m (\<lambda>(_, tb) _. tb < length buf) (write_step ssl buf) (bo, 0))
      (\<lambda>l s. ?I l s \<and> \<not> (case l of (_, tb) \<Rightarrow> \<lambda>_. tb < length buf) (s :: 'z data_node_io_scheme))"
  proof (rule triple_loop)
    fix l show "triple (world_intact ssl) (\<lambda>s. ?I l s \<and> (case l of (_, tb) \<Rightarrow> \<lambda>_. tb < length buf) s) (write_step ssl buf l) ?I"
      using write_step_triple [OF cr bl n buf first] by (cases l) simp
  qed (intro preserve_intros)
  then have loop: "triple (world_intact ssl) (\<lambda>s. s = s0 \<and> dn_at ssl s Ms c \<and> free_space s = fs)
      (loop_m (\<lambda>(_, tb) _. tb < length buf) (write_step ssl buf) (bo, 0)) (\<lambda>l s. ?I l s \<and> \<not> snd l < length buf)"
    by (rule triple_conseq) (use bo in \<open>auto simp: write_inv_def padded_def\<close>)
  show "triple (world_intact ssl) (\<lambda>s. s = s0 \<and> dn_at ssl s Ms c \<and> free_space s = fs) (write_across_data_nodes ssl buf bo)
    (\<lambda>_ s. \<exists>Mt. dn_at ssl s Mt (if buf = [] then c else max c (lin bo + length buf)) \<and> free_space s = fs \<and> written Ms (lin bo) buf Mt)"
    unfolding write_across_data_nodes_def
  proof (rule triple_bind [OF loop])
    show "triple (world_intact ssl) (\<lambda>s. ?I l s \<and> \<not> snd l < length buf) (ret ())
      (\<lambda>_ s :: 'z data_node_io_scheme. \<exists>Mt. dn_at ssl s Mt (if buf = [] then c else max c (lin bo + length buf)) \<and> free_space s = fs \<and> written Ms (lin bo) buf Mt)" for l
      by (cases l, rule triple_ret) (auto simp: write_inv_def written_def)
  qed (intro preserve_intros)
qed

text \<open>
  An offset at the end of a block is as good as one at the start of the next: the first step of the
  loop writes nothing and moves on.
\<close>

lemma write_nothing_effect:
  assumes "wf_offset bo" and "bytes bo = 8192" and "length pl = 8184" and "length buf < 4294967296"
  shows "node_effect (write_at buf 0 bo) (\<lambda>n. n > 0) (block_num bo) pl pl (\<lambda>_. 0) 0"
  unfolding node_effect_def
proof (intro conjI allI impI)
  fix dn assume h: "holds dn (block_num bo) pl"
  let ?dn = "dn\<lparr>dn_data := overwrite (dn_data dn) (bytes bo) (slice buf 0 0), dn_free_bytes := min (dn_free_bytes dn) (8192 - (bytes bo + 0))\<rparr>"
  have "write_at buf 0 bo dn = Some (Inr 0, ?dn)"
    by (rule write_at_run) (use h assms in \<open>auto simp: holds_def\<close>)
  moreover have "overwrite (dn_data dn) (bytes bo) (slice buf 0 0) = dn_data dn" by (simp add: overwrite_def slice_def)
  moreover have "wf_data_node ?dn" by (rule write_at_wf) (use h assms in \<open>auto simp: holds_def\<close>)
  ultimately show "\<exists>dn'. write_at buf 0 bo dn = Some (Inr 0, dn') \<and> holds dn' (block_num bo) pl \<and> dn_free_bytes dn' = 0 \<and> (0 < (0::nat) \<or> pl = pl)"
    using h assms(2) by (auto simp: holds_def)
qed (rule assms(3))

lemma write_nothing_triple:
  assumes cr: "crypto_ok ssl" and bo: "wf_offset bo" "bytes bo = 8192" "lin bo \<le> c" and buf: "length buf < 4294967296"
  shows "triple (world_intact ssl) (\<lambda>s :: 'z data_node_io_scheme. dn_at ssl s Ms c \<and> free_space s = fs) (write_step ssl buf (bo, 0))
    (\<lambda>l s. l = (advance_block_offset bo 0, 0) \<and> dn_at ssl s Ms c \<and> free_space s = fs)"
proof (rule triple_assume)
  fix s0 :: "'z data_node_io_scheme" assume p: "dn_at ssl s0 Ms c \<and> free_space s0 = fs"
  have lim: "c \<le> 8184 * length Ms" and bl: "all_blocks Ms" using p dn_at_blocks by (auto simp: dn_at_def)
  have l: "8184 * (block_num bo + 1) = lin bo" using bo(2) by (simp add: lin_def)
  then have "8184 * (block_num bo + 1) \<le> 8184 * length Ms" using lim bo(3) by linarith
  then have k: "block_num bo < length Ms" by simp
  have A: "block_num bo = length Ms - 1 \<longrightarrow> 8184 * length Ms - c = 0" using l bo(3) k by auto
  have lb: "last_block s = Some (Inr (length Ms - 1), s)" if "dn_at ssl s Ms c" for s :: "'z data_node_io_scheme"
    using that last_block_run [of ssl s Ms] by (auto simp: dn_at_def dn_inv_def dn_core_def)
  have pl: "length (Ms ! block_num bo) = 8184" using bl k by (simp add: all_blocks_def)
  have pre: "triple (world_intact ssl) (\<lambda>s. s = s0 \<and> dn_at ssl s Ms c \<and> free_space s = fs)
      (bindM last_block (\<lambda>last. add_and_init_append_data_node_cond ssl (block_num bo > last))) (\<lambda>_ s. s = s0 \<and> dn_at ssl s Ms c)"
    by (rule triple_run) (use k in \<open>auto simp: bindM_def lb add_and_init_append_data_node_cond_def ret_def\<close>)
  have on: "triple (world_intact ssl) (\<lambda>s. s = s0 \<and> dn_at ssl s Ms c) (on_block ssl (block_num bo) (write_at buf 0 bo) (\<lambda>n. n > 0))
      (\<lambda>n s. n = 0 \<and> dn_at ssl s Ms c \<and> free_space s = fs)"
    by (rule triple_conseq [OF on_block_triple [OF cr k write_nothing_effect [OF bo(1,2) pl buf], where ?s0.0 = s0 and A = "8184 * length Ms - c"]])
      (use p A in \<open>auto simp: dn_at_def list_update_id split: if_splits\<close>)
  have eq: "(write_step ssl buf (bo, 0) :: ('z data_node_io_scheme, block_offset_t \<times> nat) m) =
      bindM (bindM last_block (\<lambda>last. add_and_init_append_data_node_cond ssl (block_num bo > last)))
        (\<lambda>_. bindM (on_block ssl (block_num bo) (write_at buf 0 bo) (\<lambda>n. n > 0)) (\<lambda>n. ret (advance_block_offset bo n, u32 (0 + n))))"
    by (simp add: write_step_on_block bindM_assoc)
  show "triple (world_intact ssl) (\<lambda>s. s = s0 \<and> dn_at ssl s Ms c \<and> free_space s = fs) (write_step ssl buf (bo, 0))
    (\<lambda>l s. l = (advance_block_offset bo 0, 0) \<and> dn_at ssl s Ms c \<and> free_space s = fs)"
    unfolding eq
  proof (rule triple_bind [OF pre])
    show "triple (world_intact ssl) (\<lambda>s. s = s0 \<and> dn_at ssl s Ms c)
      (bindM (on_block ssl (block_num bo) (write_at buf 0 bo) (\<lambda>n. n > 0)) (\<lambda>n. ret (advance_block_offset bo n, u32 (0 + n))))
      (\<lambda>l s. l = (advance_block_offset bo 0, 0) \<and> dn_at ssl s Ms c \<and> free_space s = fs)" for x :: unit
      by (rule triple_bind [OF on]) (auto intro!: triple_ret preserve_intros simp: u32_def)
  qed (intro preserve_intros)
qed

lemma write_across_triple:
  assumes cr: "crypto_ok ssl" and n: "lin bo + length buf \<le> 8184 * 2147483647" and buf: "length buf < 4294967296"
    and bo: "wf_offset bo" "lin bo \<le> c"
  shows "triple (world_intact ssl) (\<lambda>s :: 'z data_node_io_scheme. dn_at ssl s Ms c \<and> free_space s = fs) (write_across_data_nodes ssl buf bo)
    (\<lambda>_ s. \<exists>Mt. dn_at ssl s Mt (if buf = [] then c else max c (lin bo + length buf)) \<and> free_space s = fs \<and> written Ms (lin bo) buf Mt)"
proof (rule triple_assume)
  fix s0 :: "'z data_node_io_scheme" assume p: "dn_at ssl s0 Ms c \<and> free_space s0 = fs"
  then have lim: "c \<le> 8184 * length Ms" "8184 * length Ms \<le> c + 8184" by (simp_all add: dn_at_def)
  let ?P = "\<lambda>s :: 'z data_node_io_scheme. dn_at ssl s Ms c \<and> free_space s = fs"
  let ?Q = "\<lambda>_ (s :: 'z data_node_io_scheme). \<exists>Mt. dn_at ssl s Mt (if buf = [] then c else max c (lin bo + length buf))
      \<and> free_space s = fs \<and> written Ms (lin bo) buf Mt"
  have can: "triple (world_intact ssl) ?P (write_across_data_nodes ssl buf bo') ?Q"
    if "canonical_offset bo'" "lin bo' = lin bo" for bo'
    using write_across_canonical [OF cr _ buf that(1), where Ms = Ms and c = c and fs = fs] n bo(2) lim that(2) by auto
  have "triple (world_intact ssl) ?P (write_across_data_nodes ssl buf bo) ?Q"
  proof (cases "bytes bo = 8192 \<and> buf \<noteq> []")
    case False
    show ?thesis
    proof (cases "buf = []")
      case True
      then have "write_across_data_nodes ssl buf bo s = Some (Inr (), s)" for s :: "'z data_node_io_scheme"
        by (simp add: write_across_data_nodes_def loop_m.simps bindM_def ret_def)
      then show ?thesis
        using True lim bo(2) by (intro triple_run) (auto simp: written_def padded_def overwrite_def)
    next
      case False
      with \<open>\<not> (bytes bo = 8192 \<and> buf \<noteq> [])\<close> have "canonical_offset bo" using bo(1) by (simp add: wf_offset_def canonical_offset_def)
      then show ?thesis using can by blast
    qed
  next
    case True
    then have full: "bytes bo = 8192" and ne: "buf \<noteq> []" by simp_all
    let ?bo = "advance_block_offset bo 0"
    have "lin bo + 0 < addr_limit" using n by (simp add: addr_limit_def)
    from advance_block_offset_lin [OF bo(1) this] have bo': "canonical_offset ?bo" "lin ?bo = lin bo" by simp_all
    let ?loop = "loop_m (\<lambda>(_, total_bytes_written) (_ :: 'z data_node_io_scheme). total_bytes_written < length buf) (write_step ssl buf)"
    have eq: "write_across_data_nodes ssl buf bo = bindM (write_step ssl buf (bo, 0)) (\<lambda>l. bindM (?loop l) (\<lambda>_. ret ()))"
      unfolding write_across_data_nodes_def by (rule loop_bind_unfold) (use ne in simp)
    show ?thesis
      unfolding eq
    proof (rule triple_bind [OF write_nothing_triple [OF cr bo(1) full bo(2) buf]])
      fix l
      show "triple (world_intact ssl) (\<lambda>s. l = (?bo, 0) \<and> dn_at ssl s Ms c \<and> free_space s = fs) (bindM (?loop l) (\<lambda>_. ret ())) ?Q"
        by (rule triple_pure) (use can [OF bo'] in \<open>simp add: write_across_data_nodes_def\<close>)
    qed (intro preserve_intros)
  qed
  then show "triple (world_intact ssl) (\<lambda>s. s = s0 \<and> dn_at ssl s Ms c \<and> free_space s = fs) (write_across_data_nodes ssl buf bo) ?Q"
    by (rule triple_conseq) simp_all
qed

end
