(* ===== verification/Memory_Props.thy ===== *)
theory Memory_Props
  imports Across_Nodes
begin

text \<open>
  The properties of the cache and of the array of bytes behind it: what is written is read back, no
  matter how blocks move between the cache and the host; the loops return on every state and for
  every behaviour of the host.
\<close>

section \<open>An interface for byte-addressed memory\<close>

text \<open>
  What the trie relies on: reading returns a run of the memory, writing within it overwrites a run.
  \<open>G\<close> is the condition on the final state under which the operations are promised to succeed.
\<close>

locale byte_memory =
  fixes G :: "'s \<Rightarrow> bool"
    and mem :: "'s \<Rightarrow> bytes \<Rightarrow> bool"
    and rd :: "nat \<Rightarrow> nat \<Rightarrow> ('s, bytes) m"
    and wr :: "nat \<Rightarrow> bytes \<Rightarrow> ('s, unit) m"
  assumes read_law: "n < 4294967296 \<Longrightarrow> a + n \<le> length m \<Longrightarrow>
      triple G (\<lambda>s. mem s m) (rd a n) (\<lambda>r s. r = slice m a n \<and> mem s m)"
    and write_law: "length b < 4294967296 \<Longrightarrow> a + length b \<le> length m \<Longrightarrow>
      triple G (\<lambda>s. mem s m) (wr a b) (\<lambda>_ s. mem s (overwrite m a b))"
    and read_lost: "preserves (\<lambda>s. \<not> G s) (rd a n)"
begin

lemma read_after_write:
  assumes "length b < 4294967296" and "a + length b \<le> length m" and "n < 4294967296" and "c + n \<le> length m"
  shows "triple G (\<lambda>s. mem s m) (bindM (wr a b) (\<lambda>_. rd c n))
    (\<lambda>r s. r = slice (overwrite m a b) c n \<and> mem s (overwrite m a b))"
proof (rule triple_bind [OF write_law [OF assms(1,2)]])
  show "triple G (\<lambda>s. mem s (overwrite m a b)) (rd c n)
      (\<lambda>r s. r = slice (overwrite m a b) c n \<and> mem s (overwrite m a b))" for x :: unit
    using read_law [OF assms(3), of c "overwrite m a b"] assms(2,4) by simp
qed (rule read_lost)

end

text \<open>The data nodes are such a memory.\<close>

definition dn_mem :: "openssl \<Rightarrow> 'z data_node_io_scheme \<Rightarrow> bytes \<Rightarrow> bool" where
  "dn_mem ssl s m \<longleftrightarrow> crypto_ok ssl \<and> (\<exists>Ms c. dn_at ssl s Ms c \<and> concat Ms = m)"

definition dn_read :: "openssl \<Rightarrow> nat \<Rightarrow> nat \<Rightarrow> ('z data_node_io_scheme, bytes) m" where
  "dn_read ssl a n = read_across_data_nodes ssl (offset_at a) n []"

definition dn_write :: "openssl \<Rightarrow> nat \<Rightarrow> bytes \<Rightarrow> ('z data_node_io_scheme, unit) m" where
  "dn_write ssl a b = write_across_data_nodes ssl b (offset_at a)"

lemma dn_read_law:
  assumes "n < 4294967296" and "a + n \<le> length m"
  shows "triple (world_intact ssl) (\<lambda>s. dn_mem ssl s m) (dn_read ssl a n) (\<lambda>r s. r = slice m a n \<and> dn_mem ssl s m)"
proof (rule triple_assume)
  fix s0 :: "'z data_node_io_scheme" assume "dn_mem ssl s0 m"
  then obtain Ms c where cr: "crypto_ok ssl" and at: "dn_at ssl s0 Ms c" and m: "concat Ms = m" by (auto simp: dn_mem_def)
  have "lin (offset_at a) + n \<le> 8184 * length Ms"
    using assms(2) m length_concat_blocks [OF dn_at_blocks [OF at]] by simp
  from read_across_triple [OF cr assms(1) canonical_wf [OF canonical_offset_at] this, of c "free_space s0" "[]"]
  show "triple (world_intact ssl) (\<lambda>s. s = s0 \<and> dn_mem ssl s m) (dn_read ssl a n) (\<lambda>r s. r = slice m a n \<and> dn_mem ssl s m)"
    unfolding dn_read_def by (rule triple_conseq) (use at cr m in \<open>auto simp: dn_mem_def\<close>)
qed

lemma dn_write_law:
  assumes "length b < 4294967296" and "a + length b \<le> length m"
  shows "triple (world_intact ssl) (\<lambda>s. dn_mem ssl s m) (dn_write ssl a b) (\<lambda>_ s. dn_mem ssl s (overwrite m a b))"
proof (rule triple_assume)
  fix s0 :: "'z data_node_io_scheme" assume "dn_mem ssl s0 m"
  then obtain Ms c where cr: "crypto_ok ssl" and at: "dn_at ssl s0 Ms c" and m: "concat Ms = m" by (auto simp: dn_mem_def)
  have len: "length m = 8184 * length Ms" "length Ms < 2147483648"
    using m length_concat_blocks [OF dn_at_blocks [OF at]] dn_at_bounds [OF at] by auto
  show "triple (world_intact ssl) (\<lambda>s. s = s0 \<and> dn_mem ssl s m) (dn_write ssl a b) (\<lambda>_ s. dn_mem ssl s (overwrite m a b))"
  proof (cases "b = []")
    case True
    then have "dn_write ssl a b s = Some (Inr (), s)" for s :: "'z data_node_io_scheme"
      by (simp add: dn_write_def write_across_data_nodes_def bindM_def loop_m.simps ret_def)
    then show ?thesis using True by (simp add: triple_def)
  next
    case False
    then have lt: "lin (offset_at a) \<noteq> 8184 * length Ms" "lin (offset_at a) + length b \<le> 8184 * 2147483647"
        "lin (offset_at a) \<le> 8184 * length Ms"
      using assms(2) len by auto
    have "blocks_for (a + length b) \<le> length Ms"
      using assms(2) len by (simp add: blocks_for_def)
    then have w: "written Ms a b Mt \<Longrightarrow> concat Mt = overwrite m a b" for Mt
      using m by (auto simp: written_def padded_def max_def)
    from lt(1) have "lin (offset_at a) = 8184 * length Ms \<longrightarrow> 8184 * length Ms < c + 8184" by simp
    from write_across_canonical [OF cr lt(2) assms(1) canonical_offset_at lt(3) this, of "free_space s0"]
    show ?thesis
      unfolding dn_write_def by (rule triple_conseq) (use at cr m w in \<open>auto simp: dn_mem_def\<close>)
  qed
qed

interpretation dn_memory: byte_memory "world_intact ssl" "dn_mem ssl" "dn_read ssl" "dn_write ssl" for ssl
proof unfold_locales
  show "preserves (\<lambda>s :: 'a data_node_io_scheme. \<not> world_intact ssl s) (dn_read ssl a n)" for a n
    unfolding dn_read_def by (intro preserve_intros)
qed (rule dn_read_law dn_write_law; assumption)+

section \<open>The loops return\<close>

lemma advance_canonical: "wf_offset bo \<Longrightarrow> canonical_offset (advance_block_offset bo n)"
proof -
  assume bo: "wf_offset bo"
  define r where "r = u32 n - u32 n div 8184 * 8184"
  have r: "r < 8184" by (simp add: r_def minus_div_mult_eq_mod)
  then have "u32 (bytes bo + r) = bytes bo + r" using bo by (intro u32_id) (simp add: wf_offset_def)
  then have "advance_block_offset bo n = (if bytes bo + r \<ge> 8192
      then \<lparr>block_num = u32 (u32 (block_num bo + u32 n div 8184) + 1), bytes = 8 + (bytes bo + r - 8192)\<rparr>
      else \<lparr>block_num = u32 (block_num bo + u32 n div 8184), bytes = bytes bo + r\<rparr>)"
    unfolding advance_block_offset_def Let_def r_def by simp
  with r bo show ?thesis by (auto simp: canonical_offset_def wf_offset_def)
qed

text \<open>
  The two loops return for every offset: a step makes progress unless the offset is at the end of its
  block, and then the next one is not. This also holds for the offsets in a corrupted block.
\<close>

lemma u32_sub_zero: "b < 4294967296 \<Longrightarrow> u32_sub 8192 b = 0 \<longleftrightarrow> b = 8192"
proof -
  assume b: "b < 4294967296"
  show ?thesis
  proof (cases "b \<le> 8192")
    case False
    then have "u32_sub 8192 b = 4294975488 - b" using b by (simp add: u32_sub_def)
    then show ?thesis using b False by simp
  qed (auto simp: u32_sub_id)
qed

lemma advance_bytes:
  assumes "bytes bo < 4294967296"
  shows "bytes (advance_block_offset bo n) < 4294967296" and "bytes bo = 8192 \<Longrightarrow> bytes (advance_block_offset bo 0) = 8"
proof -
  have "u32 x < 4294967296" for x by (simp add: u32_def)
  then show "bytes (advance_block_offset bo n) < 4294967296"
    by (auto simp: advance_block_offset_def Let_def intro: less_imp_diff_less)
  show "bytes bo = 8192 \<Longrightarrow> bytes (advance_block_offset bo 0) = 8"
    by (simp add: advance_block_offset_def u32_def)
qed

lemma write_at_progress:
  assumes "write_at buf tb bo dn = Some (Inr n, dn')" and "bytes bo < 4294967296" and "tb < length buf" and "length buf < 4294967296"
  shows "(n = 0 \<longrightarrow> bytes bo = 8192) \<and> tb + n \<le> length buf"
proof -
  have "u32_sub (length buf) tb = length buf - tb" using assms by (simp add: u32_sub_id)
  then show ?thesis
    using assms u32_sub_zero [OF assms(2)] by (auto simp: write_at_def Let_def throw_def split: if_splits)
qed

lemma read_at_progress:
  assumes "read_at bo n dn = Some (Inr got, dn')" and "bytes bo < 4294967296" and "0 < n"
  shows "(length got = 0 \<longrightarrow> bytes bo = 8192) \<and> length got \<le> n"
proof -
  let ?k = "if n \<le> u32_sub 8192 (bytes bo) then n else u32_sub 8192 (bytes bo)"
  have "got = slice (dn_data dn) (bytes bo) ?k" "bytes bo + ?k \<le> length (dn_data dn)"
    using assms(1) by (auto simp: read_at_def Let_def throw_def split: if_splits)
  then have "length got = ?k" by simp
  then show ?thesis using assms(3) u32_sub_zero [OF assms(2)] by auto
qed

lemma write_step_progress:
  assumes "write_step ssl buf (bo, tb) s = Some (Inr (bo', tb'), t)"
    and "bytes bo < 4294967296" and "tb < length buf" and "length buf < 4294967296"
  shows "bytes bo' < 4294967296 \<and> tb \<le> tb' \<and> tb' \<le> length buf \<and> (tb = tb' \<longrightarrow> bytes bo = 8192 \<and> bytes bo' = 8)"
proof -
  have "\<exists>dn n dn'. write_at buf tb bo dn = Some (Inr n, dn') \<and> bo' = advance_block_offset bo n \<and> tb' = u32 (tb + n)"
    using assms(1) unfolding write_step_def
    by (auto elim!: bindM_InrD simp: ret_def in_slot_def zoom_def) blast
  then obtain dn n dn' where w: "write_at buf tb bo dn = Some (Inr n, dn')"
      and e: "bo' = advance_block_offset bo n" "tb' = u32 (tb + n)" by blast
  from write_at_progress [OF w assms(2-4)] e assms(4) advance_bytes [OF assms(2)] show ?thesis
    by (auto simp: u32_id)
qed

lemma read_step_progress:
  assumes "read_step ssl len (bo, tb, out) s = Some (Inr (bo', tb', out'), t)"
    and "bytes bo < 4294967296" and "tb < len" and "len < 4294967296"
  shows "bytes bo' < 4294967296 \<and> tb \<le> tb' \<and> tb' \<le> len \<and> (tb = tb' \<longrightarrow> bytes bo = 8192 \<and> bytes bo' = 8)"
proof -
  have "\<exists>dn got dn'. read_at bo (u32_sub len tb) dn = Some (Inr got, dn')
      \<and> bo' = advance_block_offset bo (length got) \<and> tb' = u32 (tb + length got)"
    using assms(1) unfolding read_step_def
    by (auto elim!: bindM_InrD simp: ret_def in_slot_def zoom_def) blast
  then obtain dn got dn' where r: "read_at bo (u32_sub len tb) dn = Some (Inr got, dn')"
      and e: "bo' = advance_block_offset bo (length got)" "tb' = u32 (tb + length got)" by blast
  have "u32_sub len tb = len - tb" using assms(3,4) by (simp add: u32_sub_id)
  with read_at_progress [OF r assms(2)] assms(3) have p: "length got = 0 \<longrightarrow> bytes bo = 8192" "tb + length got \<le> len" by auto
  then have "u32 (tb + length got) = tb + length got" using assms(4) by (simp add: u32_id)
  with p e advance_bytes [OF assms(2)] show ?thesis by auto
qed

lemma write_across_returns_eq:
  assumes "in_order s" and "bytes bo < 4294967296" and "length buf < 4294967296"
  shows "\<exists>r s'. write_across_data_nodes ssl buf bo s = Some (r, s')"
proof -
  let ?I = "\<lambda>(bo, tb) s. in_order s \<and> bytes bo < 4294967296 \<and> tb \<le> length buf"
  let ?f = "\<lambda>(bo, tb) _. 2 * (length buf - tb) + (if bytes bo = 8192 then 1 else 0)"
  have "\<exists>r s'. loop_m (\<lambda>(_, tb) _. tb < length buf) (write_step ssl buf) (bo, 0) s = Some (r, s')"
  proof (rule loop_returns [where I = ?I and f = ?f])
    fix l :: "block_offset_t \<times> nat" and s :: "'a data_node_io_scheme"
    assume i: "?I l s" and g: "(case l of (_, tb) \<Rightarrow> \<lambda>_. tb < length buf) s"
    obtain bo tb where l: "l = (bo, tb)" by (cases l)
    obtain q t where q: "write_step ssl buf l s = Some (q, t)"
      using total_onD [OF step_structure(1)] i l by fastforce
    have o: "in_order t" using preservesD [OF step_structure(2) _ q] i l by simp
    have "?I l' t \<and> ?f l' t < ?f l s" if "q = Inr l'" for l'
    proof -
      obtain bo' tb' where l': "l' = (bo', tb')" by (cases l')
      with write_step_progress [of ssl buf bo tb s bo' tb' t] q that l i g assms(3)
      have "bytes bo' < 4294967296" "tb \<le> tb'" "tb' \<le> length buf" "tb = tb' \<longrightarrow> bytes bo = 8192 \<and> bytes bo' = 8" by auto
      with o l l' g show ?thesis by (cases "tb = tb'") auto
    qed
    with q show "\<exists>q t. write_step ssl buf l s = Some (q, t) \<and> (\<forall>l'. q = Inr l' \<longrightarrow> ?I l' t \<and> ?f l' t < ?f l s)"
      by blast
  qed (use assms in simp)
  then show ?thesis by (auto simp: write_across_data_nodes_def bindM_def ret_def split: sum.splits)
qed

lemma read_across_returns_eq:
  assumes "in_order s" and "bytes bo < 4294967296" and "len < 4294967296"
  shows "\<exists>r s'. read_across_data_nodes ssl bo len out s = Some (r, s')"
proof -
  let ?I = "\<lambda>(bo, tb, _ :: bytes) s. in_order s \<and> bytes bo < 4294967296 \<and> tb \<le> len"
  let ?f = "\<lambda>(bo, tb, _ :: bytes) _. 2 * (len - tb) + (if bytes bo = 8192 then 1 else 0)"
  have "\<exists>r s'. loop_m (\<lambda>(_, tb, _) _. tb < len) (read_step ssl len) (bo, 0, out) s = Some (r, s')"
  proof (rule loop_returns [where I = ?I and f = ?f])
    fix l :: "block_offset_t \<times> nat \<times> bytes" and s :: "'a data_node_io_scheme"
    assume i: "?I l s" and g: "(case l of (_, tb, _) \<Rightarrow> \<lambda>_. tb < len) s"
    obtain bo tb out where l: "l = (bo, tb, out)" by (cases l)
    obtain q t where q: "read_step ssl len l s = Some (q, t)"
      using total_onD [OF step_structure(4)] i l by fastforce
    have o: "in_order t" using preservesD [OF step_structure(5) _ q] i l by simp
    have "?I l' t \<and> ?f l' t < ?f l s" if "q = Inr l'" for l'
    proof -
      obtain bo' tb' out' where l': "l' = (bo', tb', out')" by (cases l')
      with read_step_progress [of ssl len bo tb out s bo' tb' out' t] q that l i g assms(3)
      have "bytes bo' < 4294967296" "tb \<le> tb'" "tb' \<le> len" "tb = tb' \<longrightarrow> bytes bo = 8192 \<and> bytes bo' = 8" by auto
      with o l l' g show ?thesis by (cases "tb = tb'") auto
    qed
    with q show "\<exists>q t. read_step ssl len l s = Some (q, t) \<and> (\<forall>l'. q = Inr l' \<longrightarrow> ?I l' t \<and> ?f l' t < ?f l s)"
      by blast
  qed (use assms in simp)
  then show ?thesis by (auto simp: read_across_data_nodes_def bindM_def ret_def split: sum.splits)
qed

lemma bytes_canonical: "canonical_offset bo \<Longrightarrow> bytes bo < 4294967296"
  by (simp add: canonical_offset_def)

section \<open>Properties\<close>

text \<open>A state for the witnesses: one empty block, in the cache and modified.\<close>

definition demo_io :: data_node_io where
  "demo_io =
     \<lparr>warehouse = \<lparr>blockIds = [replicate 32 0], state_encryption_key = replicate 16 0\<rparr>, world = good_env,
      block_cache = [(0, \<lparr>pinned = True, refs = 0, is_modified = True, clock = 0, slot = 0\<rparr>)],
      data_nodes = replicate 512 (new_data_node 0), dn_queue = [1..<512], cache_clock = 1, synced_count = 0,
      free_space = new_free_space_collector, append_dn = 0\<rparr>"

lemma plain_crypto_ok: "crypto_ok plain_openssl"
  by (simp add: crypto_ok_def plain_openssl_correct)

lemma demo_contents: "contents plain_openssl demo_io [zero_block]"
proof -
  have "mset [0..<512] = add_mset 0 (mset [1..<512])" by (simp add: upt_conv_Cons del: upt_Suc)
  then have "slots_ok demo_io" by (simp add: slots_ok_def demo_io_def ordered_def)
  moreover have "world_ok plain_openssl demo_io"
    by (simp add: world_ok_def demo_io_def good_env_ok store_ok_def SYM_KEY_LEN_def) (simp add: good_env_def)
  ultimately show ?thesis
    by (auto simp: contents_def block_ok_def holds_def demo_io_def wf_new_data_node zero_block_def)
qed

lemma demo_at: "dn_at plain_openssl demo_io [zero_block] 0"
  using demo_contents
  by (simp add: dn_at_def dn_inv_def dn_core_def append_saved_def idle_def) (simp add: demo_io_def)

lemma demo_mem: "dn_mem plain_openssl demo_io zero_block"
  using demo_at plain_crypto_ok by (auto simp: dn_mem_def intro!: exI [of _ "[zero_block]"])

text \<open>C7: the data nodes are one memory. Writing bytes and then reading any range, across as many data
  nodes as both take and however blocks are evicted and loaded meanwhile, returns, and it gives the
  bytes of the memory with the write applied, as long as the blocks handed to the host have
  different hashes.\<close>

theorem memory_read_after_write:
  assumes "dn_mem ssl s m" and "length b < 4294967296" and "a + length b \<le> length m"
    and "n < 4294967296" and "c + n \<le> length m"
  shows "\<exists>r s'. bindM (write_across_data_nodes ssl b (offset_at a)) (\<lambda>_. read_across_data_nodes ssl (offset_at c) n []) s = Some (r, s')
     \<and> (world_intact ssl s' \<longrightarrow> r = Inr (slice (overwrite m a b) c n) \<and> dn_mem ssl s' (overwrite m a b))"
proof -
  have o: "in_order s" using assms(1) by (auto simp: dn_mem_def dn_at_def dn_inv_def dn_core_def contents_def slots_ok_def)
  obtain q t where q: "write_across_data_nodes ssl b (offset_at a) s = Some (q, t)"
    using write_across_returns_eq [OF o bytes_canonical [OF canonical_offset_at] assms(2)] by blast
  have "in_order t" using preservesD [OF across_structure(1) o q] .
  from read_across_returns_eq [OF this bytes_canonical [OF canonical_offset_at] assms(4), of ssl c "[]"] q
  obtain r s' where run: "bindM (dn_write ssl a b) (\<lambda>_. dn_read ssl c n) s = Some (r, s')"
    by (cases q) (auto simp: bindM_def dn_write_def dn_read_def)
  from tripleD [OF dn_memory.read_after_write [OF assms(2-5)] assms(1) this] run
  show ?thesis by (auto simp: dn_write_def dn_read_def)
qed

theorem memory_read_after_write_witness:
  "\<exists>r s'. bindM (write_across_data_nodes plain_openssl [1, 2, 3] (offset_at 100)) (\<lambda>_.
        read_across_data_nodes plain_openssl (offset_at 101) 2 []) demo_io = Some (r, s')
     \<and> (world_intact plain_openssl s' \<longrightarrow> r = Inr [2, 3])"
  using memory_read_after_write [OF demo_mem, of "[1, 2, 3]" 100 2 101]
  by (auto simp: slice_def overwrite_def zero_block_def)

text \<open>C10: a write that goes past the end appends exactly the data nodes it needs; afterwards the memory is
  the old one, extended with zero bytes to whole blocks and overwritten at the write's position,
  and the append cursor is behind what was written.\<close>

theorem write_across_appends:
  assumes "crypto_ok ssl" and "dn_at ssl s Ms c" and "canonical_offset bo" and "length buf < 4294967296"
    and "lin bo \<le> 8184 * length Ms" and "lin bo + length buf \<le> 8184 * 2147483647"
    and "lin bo = 8184 * length Ms \<longrightarrow> 8184 * length Ms < c + 8184"
  shows "\<exists>r s'. write_across_data_nodes ssl buf bo s = Some (r, s')
     \<and> (world_intact ssl s' \<longrightarrow> r = Inr () \<and> free_space s' = free_space s
         \<and> (\<exists>Mt. dn_at ssl s' Mt (if buf = [] then c else max c (lin bo + length buf))
              \<and> length Mt = max (length Ms) (if buf = [] then 0 else blocks_for (lin bo + length buf))
              \<and> concat Mt = overwrite (padded Ms (length Mt)) (lin bo) buf))"
proof -
  have "in_order s" using assms(2) by (auto simp: dn_at_def dn_inv_def dn_core_def contents_def slots_ok_def)
  then obtain r s' where run: "write_across_data_nodes ssl buf bo s = Some (r, s')"
    using write_across_returns_eq bytes_canonical [OF assms(3)] assms(4) by blast
  with tripleD [OF write_across_canonical [OF assms(1,6,4,3,5,7)] _ run, of "free_space s"] assms(2)
  show ?thesis by (auto simp: written_def)
qed

theorem write_across_appends_witness:
  "\<exists>r s'. write_across_data_nodes plain_openssl (replicate 10 7) (offset_at 8180) demo_io = Some (r, s')
     \<and> (world_intact plain_openssl s' \<longrightarrow> r = Inr () \<and> (\<exists>Mt. dn_at plain_openssl s' Mt 8190 \<and> length Mt = 2))"
  using write_across_appends [OF plain_crypto_ok demo_at, of "offset_at 8180" "replicate 10 7"]
  by (auto simp: blocks_for_def numeral_2_eq_2)

text \<open>C12: reading and writing across data nodes always return, with a result or an exception, from every
  state of the cache, for every offset and for every behaviour of the host, also when the blocks the
  host returns are not the ones it was given.\<close>

theorem across_data_nodes_return:
  assumes "ordered (block_cache s)" and "bytes bo < 4294967296" and "length buf < 4294967296" and "len < 4294967296"
  shows "(\<exists>r s'. write_across_data_nodes ssl buf bo s = Some (r, s'))
     \<and> (\<exists>r s'. read_across_data_nodes ssl bo len out s = Some (r, s'))"
  using write_across_returns_eq [OF assms(1-3)] read_across_returns_eq [OF assms(1,2,4)] by blast

theorem across_data_nodes_return_witness:
  "\<exists>r s'. read_across_data_nodes plain_openssl (offset_at 0) 5 [] demo_io = Some (r, s')"
proof -
  have "ordered (block_cache demo_io)" by (simp add: demo_io_def ordered_def)
  from across_data_nodes_return [OF this bytes_canonical [OF canonical_offset_at], of "[]" 5 plain_openssl 0 "[]"] show ?thesis by simp
qed

end

