(* ===== verification/Cache_Props.thy ===== *)
theory Cache_Props
  imports Memory_Props
begin

text \<open>
  Properties of the block cache: retrieving a block gives its contents and keeps those of all blocks,
  flushing brings every block to the host, the replacement policy takes the most recently loaded
  block that is not in use, and a load that fails costs the cache a slot.
\<close>

section \<open>Flushing\<close>

lemma flush_triple:
  assumes "crypto_ok ssl"
  shows "triple (world_intact ssl) (\<lambda>s :: 'z cache_scheme. contents ssl s Ms) (cache_flush ssl)
    (\<lambda>_ s. contents ssl s Ms \<and> \<not> block_cache s \<noteq> [])"
  unfolding cache_flush_def
proof (rule triple_loop [where I = "\<lambda>_ s. contents ssl s Ms"])
  show "triple (world_intact ssl) (\<lambda>s :: 'z cache_scheme. contents ssl s Ms \<and> block_cache s \<noteq> []) (bindM first_key (flush_entry ssl))
      (\<lambda>_ s. contents ssl s Ms)" for l :: unit
  proof (rule triple_run)
    fix s :: "'z cache_scheme" assume p: "contents ssl s Ms \<and> block_cache s \<noteq> []"
    then obtain k bce m where "block_cache s = (k, bce) # m" by (cases "block_cache s") auto
    then show "\<exists>x s'. bindM first_key (flush_entry ssl) s = Some (Inr x, s') \<and> (world_intact ssl s' \<longrightarrow> contents ssl s' Ms)"
      using flush_entry_run [OF assms, of s Ms k bce] p by (auto simp: first_key_def run_defs)
  qed
  show "preserves (\<lambda>s :: 'z cache_scheme. \<not> world_intact ssl s) (bindM first_key (flush_entry ssl))" for l :: unit
    unfolding first_key_def by (intro preserve_intros)
qed

text \<open>C9: flushing the cache returns with an empty cache; every block, modified or not, is then at the host
  under the identifier the warehouse has for it, and decrypts to the contents it had, as long as the
  blocks handed to the host have different hashes.\<close>

theorem cache_flush_saves:
  assumes "crypto_ok ssl" and "contents ssl s Ms"
  shows "\<exists>r s'. cache_flush ssl s = Some (r, s') \<and> (world_intact ssl s' \<longrightarrow> r = Inr () \<and> block_cache s' = []
     \<and> contents ssl s' Ms \<and> (\<forall>k < length Ms. on_host ssl s' k (Ms ! k)))"
proof -
  have "in_order s" using assms(2) by (simp add: contents_def slots_ok_def)
  then obtain r s' where run: "cache_flush ssl s = Some (r, s')" using total_onD [OF total_loops(2)] by blast
  with tripleD [OF flush_triple [OF assms(1)] assms(2) run] show ?thesis
    by (auto simp: contents_def block_ok_def)
qed

theorem cache_flush_saves_witness:
  "\<exists>r s'. cache_flush plain_openssl demo_io = Some (r, s')
     \<and> (world_intact plain_openssl s' \<longrightarrow> block_cache s' = [] \<and> on_host plain_openssl s' 0 zero_block)"
  using cache_flush_saves [OF plain_crypto_ok demo_contents] by auto

section \<open>Retrieving\<close>

text \<open>C8: retrieving a block returns, and gives a slot with the block's contents; the block is in use
  afterwards, no block's contents change and the blocks that were in use stay in their slots,
  whichever blocks are evicted to make room.\<close>

theorem retrieve_refines_contents:
  assumes "crypto_ok ssl" and "contents ssl s Ms" and "spare s" and "k < length Ms"
  shows "\<exists>r s'. retrieve ssl k pin s = Some (r, s') \<and> (world_intact ssl s' \<longrightarrow> (\<exists>d. r = Inr d
     \<and> dn_block_num (data_nodes s' ! d) = k \<and> drop 8 (dn_data (data_nodes s' ! d)) = Ms ! k \<and> contents ssl s' Ms
     \<and> (\<forall>j bce. j \<noteq> k \<longrightarrow> map_of (block_cache s) j = Some bce \<longrightarrow> busy bce \<longrightarrow>
           map_of (block_cache s') j = Some bce \<and> data_nodes s' ! slot bce = data_nodes s ! slot bce)))"
proof -
  have "in_order s" using assms(2) by (simp add: contents_def slots_ok_def)
  then obtain r s' where run: "retrieve ssl k pin s = Some (r, s')"
    using total_onD [OF retrieve_structure(1)] by blast
  have "\<exists>d. r = Inr d \<and> contents ssl s' Ms \<and> evolves {k} s s' \<and> keeps_busy {k} s s' \<and> retrieved pin k s d s'"
    if "world_intact ssl s'"
    using tripleD [OF retrieve_triple [OF assms(1)] _ run that] assms by blast
  moreover have "dn_block_num (data_nodes s' ! d) = k \<and> drop 8 (dn_data (data_nodes s' ! d)) = Ms ! k"
    if "contents ssl s' Ms" and "retrieved pin k s d s'" for d
    using that assms(4) by (auto simp: retrieved_def contents_def block_ok_def holds_def)
  moreover have "map_of (block_cache s') j = Some bce \<and> data_nodes s' ! slot bce = data_nodes s ! slot bce"
    if "evolves {k} s s'" "keeps_busy {k} s s'" "j \<noteq> k" "map_of (block_cache s) j = Some bce" "busy bce" for j bce
    using keeps_busyD [OF that(2) _ that(4,5)] evolvesD [OF that(1), of j bce] that(3) by simp
  ultimately show ?thesis using run by (intro exI [of _ r] exI [of _ s']) fast
qed

theorem retrieve_refines_contents_witness:
  "\<exists>r s'. retrieve plain_openssl 0 False demo_io = Some (r, s') \<and> (world_intact plain_openssl s' \<longrightarrow>
     (\<exists>d. r = Inr d \<and> drop 8 (dn_data (data_nodes s' ! d)) = zero_block))"
proof -
  have "spare demo_io" by (simp add: spare_def demo_io_def)
  from retrieve_refines_contents [OF plain_crypto_ok demo_contents this, of 0 False]
  obtain r s' where "retrieve plain_openssl 0 False demo_io = Some (r, s')" and "world_intact plain_openssl s' \<longrightarrow>
     (\<exists>d. r = Inr d \<and> drop 8 (dn_data (data_nodes s' ! d)) = [zero_block] ! 0)" by auto
  then show ?thesis by auto
qed

section \<open>Replacement\<close>

text \<open>The cache of the witnesses with its one block unpinned.\<close>

definition unpinned_io :: data_node_io where
  "unpinned_io = demo_io\<lparr>block_cache := [(0, \<lparr>pinned = False, refs = 0, is_modified = True, clock = 0, slot = 0\<rparr>)]\<rparr>"

lemma unpinned_contents: "contents plain_openssl unpinned_io [zero_block]"
proof -
  have "slots_ok unpinned_io" "world_ok plain_openssl unpinned_io"
    using demo_contents by (simp_all add: contents_def slots_ok_def world_ok_def unpinned_io_def demo_io_def ordered_def)
  moreover have "holds (data_nodes unpinned_io ! 0) 0 zero_block"
    by (simp add: unpinned_io_def demo_io_def holds_def wf_new_data_node zero_block_def)
  ultimately show ?thesis
    by (auto simp: contents_def block_ok_def) (auto simp: unpinned_io_def demo_io_def)
qed

text \<open>C13: the replacement policy evicts one block: one that is neither pinned nor referenced, and that no
  other such block was loaded after; when every block is in use it throws and changes nothing.\<close>

theorem mru_evicts_newest:
  assumes "crypto_ok ssl" and "contents ssl s Ms"
  shows "((\<forall>x \<in> set (block_cache s). busy (snd x)) \<longrightarrow> replacement_policy_MRU ssl s
        = Some (Inl (RuntimeError ''cache replacement MRU, no item to replace''), s))
     \<and> ((\<exists>x \<in> set (block_cache s). \<not> busy (snd x)) \<longrightarrow> (\<exists>k bce s'. replacement_policy_MRU ssl s = Some (Inr (), s')
        \<and> map_of (block_cache s) k = Some bce \<and> \<not> busy bce
        \<and> (\<forall>x \<in> set (block_cache s). \<not> busy (snd x) \<longrightarrow> clock (snd x) \<le> clock bce)
        \<and> (world_intact ssl s' \<longrightarrow> contents ssl s' Ms \<and> block_cache s' = map_erase k (block_cache s))))"
proof -
  have o: "in_order s" using assms(2) by (simp add: contents_def slots_ok_def)
  have keys: "\<forall>x \<in> set (block_cache s). fst x < 2147483648"
    using contents_keys [OF assms(2)] .
  have "scanned [] (-1) 0" by (simp add: scanned_def)
  from mru_scan_spec [OF keys this] obtain clk where sc: "scanned (block_cache s) (mru_scan (block_cache s) (-1) 0) clk"
    by auto
  show ?thesis
  proof (cases "\<forall>x \<in> set (block_cache s). busy (snd x)")
    case True
    with sc have "mru_scan (block_cache s) (-1) 0 = -1" by (force simp: scanned_def)
    with True show ?thesis by (auto simp: replacement_policy_MRU_def run_defs)
  next
    case False
    with sc obtain k bce where k: "mru_scan (block_cache s) (-1) 0 = int k" "(k, bce) \<in> set (block_cache s)"
        "\<not> busy bce" "\<forall>x \<in> set (block_cache s). \<not> busy (snd x) \<longrightarrow> clock (snd x) \<le> clock bce"
      unfolding scanned_def by blast
    have e: "map_of (block_cache s) k = Some bce" using k(2) map_of_ordered [OF o] by simp
    have "replacement_policy_MRU ssl s = flush_entry ssl k s"
      using k(1,2) keys int32(2) [of k] by (auto simp: replacement_policy_MRU_def run_defs)
    with flush_entry_run [OF assms e] e k(3,4) False show ?thesis by auto
  qed
qed

theorem mru_evicts_newest_witness:
  "replacement_policy_MRU plain_openssl demo_io
     = Some (Inl (RuntimeError ''cache replacement MRU, no item to replace''), demo_io)
   \<and> (\<exists>s'. replacement_policy_MRU plain_openssl unpinned_io = Some (Inr (), s')
        \<and> (world_intact plain_openssl s' \<longrightarrow> contents plain_openssl s' [zero_block] \<and> block_cache s' = []))"
proof
  have "\<forall>x \<in> set (block_cache demo_io). busy (snd x)" by (simp add: demo_io_def busy_def)
  then show "replacement_policy_MRU plain_openssl demo_io
      = Some (Inl (RuntimeError ''cache replacement MRU, no item to replace''), demo_io)"
    using mru_evicts_newest [OF plain_crypto_ok demo_contents] by blast
next
  have "\<exists>x \<in> set (block_cache unpinned_io). \<not> busy (snd x)" by (simp add: unpinned_io_def busy_def)
  then obtain k bce s' where r: "replacement_policy_MRU plain_openssl unpinned_io = Some (Inr (), s')"
      "map_of (block_cache unpinned_io) k = Some bce"
      "world_intact plain_openssl s' \<longrightarrow> contents plain_openssl s' [zero_block] \<and> block_cache s' = map_erase k (block_cache unpinned_io)"
    using mru_evicts_newest [OF plain_crypto_ok unpinned_contents] by blast
  have "k = 0" using r(2) by (simp add: unpinned_io_def split: if_splits)
  then have "map_erase k (block_cache unpinned_io) = []" by (simp add: unpinned_io_def)
  then show "\<exists>s'. replacement_policy_MRU plain_openssl unpinned_io = Some (Inr (), s')
      \<and> (world_intact plain_openssl s' \<longrightarrow> contents plain_openssl s' [zero_block] \<and> block_cache s' = [])"
    using r by auto
qed

section \<open>A load that fails\<close>

text \<open>Fetching a block takes one slot from the queue, also when it fails; what follows it does not fail.\<close>

lemma fetch_block_takes_slot:
  assumes "fetch_block ssl k s = Some (r, t)" and "k < length (blockIds (warehouse s))" and "dn_queue s = d # q"
  shows "block_cache t = block_cache s \<and> dn_queue t = q"
  using assms
  by (auto simp: fetch_block_def slots_allocate_def in_warehouse_def in_slot_def in_slot_world_def
      get_datablock_id_from_datablock_num_def zoom_def run_defs split: bind_splits sum.splits prod.splits)

lemma place_and_grab_run:
  assumes "map_of (block_cache s) k = None"
  shows "\<exists>d' s'. bindM (bindM (cache_put k d) (\<lambda>_. if pin then cache_pin k else ret ())) (\<lambda>_. grab k) s = Some (Inr d', s')"
  using assms by (simp add: cache_put_def cache_pin_def update_entry_def grab_def set_entry_def run_defs)

text \<open>
  What can happen to a cache afterwards: any call of its operations, reads and writes across data
  nodes, which use it, and any change in what the host has and how it behaves. An exception does not
  end the sequence.
\<close>

datatype cache_call =
    Call_retrieve nat bool
  | Call_done nat bool
  | Call_pin nat
  | Call_unpin nat
  | Call_modified nat
  | Call_sync
  | Call_flush
  | Call_drop
  | Call_replace
  | Call_write bytes block_offset_t
  | Call_read block_offset_t nat
  | Host_becomes env

fun do_cache_call :: "openssl \<Rightarrow> cache_call \<Rightarrow> ('z data_node_io_scheme, unit) m" where
  "do_cache_call ssl (Call_retrieve k pin) = bindM (retrieve ssl k pin) (\<lambda>_. ret ())"
| "do_cache_call ssl (Call_done k modified) = cache_done k modified"
| "do_cache_call ssl (Call_pin k) = cache_pin k"
| "do_cache_call ssl (Call_unpin k) = cache_unpin k"
| "do_cache_call ssl (Call_modified k) = cache_modified k"
| "do_cache_call ssl Call_sync = cache_sync ssl"
| "do_cache_call ssl Call_flush = cache_flush ssl"
| "do_cache_call ssl Call_drop = cache_drop"
| "do_cache_call ssl Call_replace = replacement_policy ssl"
| "do_cache_call ssl (Call_write buf bo) = write_across_data_nodes ssl buf bo"
| "do_cache_call ssl (Call_read bo n) = bindM (read_across_data_nodes ssl bo n []) (\<lambda>_. ret ())"
| "do_cache_call ssl (Host_becomes e) = modify (\<lambda>s. s\<lparr>world := e\<rparr>)"

fun cache_calls :: "openssl \<Rightarrow> cache_call list \<Rightarrow> 'z data_node_io_scheme \<Rightarrow> 'z data_node_io_scheme option" where
  "cache_calls ssl [] s = Some s"
| "cache_calls ssl (c # cs) s = (case do_cache_call ssl c s of None \<Rightarrow> None | Some (_, t) \<Rightarrow> cache_calls ssl cs t)"

text \<open>A slot is neither in the cache nor in the queue; no operation brings it back.\<close>

definition slot_lost :: "'z cache_scheme \<Rightarrow> bool" where
  "slot_lost s \<longleftrightarrow> in_order s \<and> length (block_cache s) + length (dn_queue s) < BLOCK_CACHE_MAX_ITEMS"

lemma slot_lost_policy:
  "slot_lost s \<Longrightarrow> replacement_policy ssl s = Some (Inl (RuntimeError ''cache replacement, invariant not satisfied''), s)"
  by (simp add: slot_lost_def replacement_policy_def available_slots_def run_defs)

lemma slot_lost_miss:
  assumes "slot_lost s" and "map_of (block_cache s) j = None"
  shows "retrieve ssl j pin s = Some (Inl (RuntimeError ''cache replacement, invariant not satisfied''), s)"
  using slot_lost_policy [OF assms(1)] assms(2) by (simp add: retrieve_def load_block_def run_defs)

lemma slot_lost_modify [preserve_intros]:
  "(\<And>s. block_cache (f s) = block_cache s \<and> dn_queue (f s) = dn_queue s) \<Longrightarrow> preserves slot_lost (modify f)"
  by (auto simp: preserves_def modify_def slot_lost_def)

lemma slot_lost_zoom [preserve_intros]:
  "preserves slot_lost (in_warehouse m)" "preserves slot_lost (in_slot d n)" "preserves slot_lost (in_slot_world d p)"
  by (auto simp: preserves_def in_warehouse_def in_slot_def in_slot_world_def zoom_def slot_lost_def)

lemma slot_lost_entries [preserve_intros]:
  "preserves slot_lost (update_entry k f)" "preserves slot_lost (drop_entry k)"
proof -
  have "length (map_erase k m) + n < 511" if "map_of m k = Some b" "length m + n < 512"
    for m :: "(nat \<times> block_cache_entry_t) list" and n b
    using length_map_erase [of m k] that by simp
  then show "preserves slot_lost (update_entry k f)" "preserves slot_lost (drop_entry k)"
    by (auto simp: preserves_def update_entry_def drop_entry_def slots_release_def set_entry_def slot_lost_def run_defs
        ordered_map_put ordered_map_erase length_map_put_old split: option.splits if_splits)
qed

lemma slot_lost_sync_entry [preserve_intros]: "preserves slot_lost (sync_entry ssl k)"
proof -
  have inner: "preserves (\<lambda>s. slot_lost s \<and> map_of (block_cache s) k \<noteq> None)
      (bindM (in_slot_world d op) (\<lambda>x. bindM (in_warehouse (g x)) (\<lambda>_. bindM (set_entry k e) (\<lambda>_.
        modify (synced_count_update h)))))" for d op g e h
    by (auto simp: preserves_def in_warehouse_def in_slot_world_def zoom_def slot_lost_def set_entry_def run_defs
        ordered_map_put length_map_put_old split: bind_splits sum.splits prod.splits)
  show ?thesis
    using preservesD [OF inner]
    by (fastforce simp: preserves_def sync_entry_def run_defs split: option.splits if_splits)
qed

lemma slot_lost_flush_entry [preserve_intros]: "preserves slot_lost (flush_entry ssl k)"
  unfolding flush_entry_def by (intro preserve_intros)

lemma slot_lost_sync_keys [preserve_intros]: "preserves slot_lost (sync_keys ssl ks)"
  by (induction ks) (auto intro: preserve_intros)

lemma slot_lost_loops [preserve_intros]:
  "preserves slot_lost (cache_flush ssl)" "preserves slot_lost cache_drop" "preserves slot_lost (cache_sync ssl)"
  "preserves slot_lost (replacement_policy ssl)"
  unfolding cache_flush_def cache_drop_def cache_sync_def first_key_def
  by (intro preserve_intros)+ (simp add: preserves_def slot_lost_policy)

lemma slot_lost_updates [preserve_intros]:
  "preserves slot_lost (cache_done k b)" "preserves slot_lost (cache_pin k)" "preserves slot_lost (cache_unpin k)"
  "preserves slot_lost (cache_modified k)" "preserves slot_lost (grab k)"
  unfolding cache_done_def cache_pin_def cache_unpin_def cache_modified_def grab_def by (intro preserve_intros)+

lemma slot_lost_retrieve [preserve_intros]: "preserves slot_lost (retrieve ssl k pin)"
  unfolding preserves_def
proof (intro allI impI)
  fix s :: "'z cache_scheme" and r s' assume l: "slot_lost s" and run: "retrieve ssl k pin s = Some (r, s')"
  show "slot_lost s'"
  proof (cases "map_of (block_cache s) k")
    case None
    with slot_lost_miss [OF l] run l show ?thesis by simp
  next
    case (Some e)
    then have "grab k s = Some (r, s')" using run by (simp add: retrieve_def run_defs)
    with l show ?thesis using preservesD [OF slot_lost_updates(5)] by blast
  qed
qed

lemma slot_lost_append [preserve_intros]: "preserves slot_lost (add_and_init_append_data_node ssl)"
proof -
  have "preserves slot_lost (bindM (replacement_policy ssl) f)" for f :: "unit \<Rightarrow> ('z data_node_io_scheme, unit) m"
    by (auto simp: preserves_def run_defs slot_lost_policy)
  note policy = this
  show ?thesis
    unfolding add_and_init_append_data_node_def last_block_def
    by (rule preserves_bind preserves_get preserves_throwIf slot_lost_updates policy)+
qed

lemma slot_lost_across [preserve_intros]:
  "preserves slot_lost (write_across_data_nodes ssl buf bo)" "preserves slot_lost (read_across_data_nodes ssl bo n out)"
  unfolding write_across_data_nodes_def read_across_data_nodes_def write_step_def read_step_def
    add_and_init_append_data_node_cond_def last_block_def
  by (intro preserve_intros)+

lemma slot_lost_call: "preserves slot_lost (do_cache_call ssl c)"
  by (cases c) (simp_all, (intro preserve_intros; simp)+)

lemma slot_lost_run: "slot_lost s \<Longrightarrow> cache_calls ssl cs s = Some t \<Longrightarrow> slot_lost t"
  by (induction cs arbitrary: s) (auto split: option.splits dest: preservesD [OF slot_lost_call])

text \<open>C31: when a retrieval of a block that is not in the cache fails although there is room in the cache and
  the count of slots is right, because the host does not provide the block or provides another one,
  the slot it allocated is lost. From then on, after any sequence of operations on the cache and of
  reads and writes across data nodes, whatever the host does meanwhile, every retrieval of a block
  that is not in the cache throws.\<close>

theorem failed_load_loses_slot:
  assumes "retrieve ssl k pin s = Some (Inl e, s')" and "map_of (block_cache s) k = None"
    and "k < length (blockIds (warehouse s))" and "length (block_cache s) + available_slots s = BLOCK_CACHE_MAX_ITEMS"
    and "length (block_cache s) < BLOCK_CACHE_MAX_ITEMS" and "ordered (block_cache s)"
    and "cache_calls ssl calls s' = Some s''" and "map_of (block_cache s'') j = None"
  shows "available_slots s' + 1 = available_slots s
     \<and> retrieve ssl j pin' s'' = Some (Inl (RuntimeError ''cache replacement, invariant not satisfied''), s'')"
proof -
  have same: "replacement_policy ssl s = Some (Inr (), s)"
    using assms(4,5) by (simp add: replacement_policy_def replacement_loop_def loop_m.simps run_defs)
  obtain d q where q: "dn_queue s = d # q" using assms(4,5) by (cases "dn_queue s") (auto simp: available_slots_def)
  obtain r t where f: "fetch_block ssl k s = Some (r, t)"
    using assms(1,2) same by (cases "fetch_block ssl k s") (auto simp: retrieve_def load_block_def run_defs)
  note t = fetch_block_takes_slot [OF f assms(3) q]
  have "\<nexists>d'. r = Inr d'"
  proof
    assume "\<exists>d'. r = Inr d'"
    then obtain d' where d': "r = Inr d'" ..
    have "map_of (block_cache t) k = None" using t assms(2) by simp
    from place_and_grab_run [OF this, of d' pin] f d' same assms(1,2) show False
      by (auto simp: retrieve_def load_block_def bindM_def get_def ret_def split: option.splits sum.splits)
  qed
  then have "block_cache s' = block_cache s \<and> dn_queue s' = q"
    using assms(1,2) same f t by (cases r) (auto simp: retrieve_def load_block_def run_defs)
  then have "slot_lost s'" and lost: "available_slots s' + 1 = available_slots s"
    using assms(4,6) q by (auto simp: slot_lost_def available_slots_def)
  from slot_lost_run [OF this(1) assms(7)] assms(8)
  have "retrieve ssl j pin' s'' = Some (Inl (RuntimeError ''cache replacement, invariant not satisfied''), s'')"
    by (rule slot_lost_miss)
  with lost show ?thesis by blast
qed

text \<open>A store whose second block the host does not have at first.\<close>

definition lost_block_io :: data_node_io where
  "lost_block_io = demo_io\<lparr>warehouse := (warehouse demo_io)\<lparr>blockIds := [replicate 32 0, replicate 32 1]\<rparr>\<rparr>"

definition found_block_env :: env where
  "found_block_env = good_env\<lparr>env_store := [replicate 32 1 \<mapsto> [1]]\<rparr>"

lemma dn_load_absent:
  assumes "ocalls_ok e" and "env_store e (dn_original_id dn) = None"
  shows "\<exists>x t. dn_load ssl key (dn, e) = Some (Inl x, t)"
  using sebio_fetch_run [OF assms(1), of ssl "dn_original_id dn"] assms(2)
  by (simp add: dn_load_def zoom_def run_defs)

lemma lost_block_fails:
  obtains e s' where "retrieve plain_openssl 1 False lost_block_io = Some (Inl e, s')"
    and "block_cache s' = block_cache lost_block_io" and "dn_queue s' = [2..<512]"
proof -
  have same: "replacement_policy plain_openssl lost_block_io = Some (Inr (), lost_block_io)"
    by (simp add: replacement_policy_def replacement_loop_def loop_m.simps run_defs lost_block_io_def demo_io_def
        available_slots_def)
  have store: "env_store (world lost_block_io) = Map.empty" "dn_queue lost_block_io = 1 # [2..<512]"
    by (simp_all add: lost_block_io_def demo_io_def good_env_def upt_conv_Cons del: upt_Suc)
  let ?t = "data_nodes_update (\<lambda>ns. ns[1 := deserialize_original_encrypted_data_id (replicate 32 1) (ns ! 1)])
    (lost_block_io\<lparr>dn_queue := [2..<512]\<rparr>)"
  have "ocalls_ok (world ?t)" "env_store (world ?t) (dn_original_id (data_nodes ?t ! 1)) = None"
    using store good_env_ok by (simp_all add: lost_block_io_def demo_io_def)
  from dn_load_absent [OF this, of plain_openssl "state_encryption_key (warehouse ?t)"]
  obtain e s' where f: "fetch_block plain_openssl 1 lost_block_io = Some (Inl e, s')"
    using store by (auto simp: fetch_block_def slots_allocate_def in_warehouse_def in_slot_def in_slot_world_def
      get_datablock_id_from_datablock_num_def zoom_def run_defs lost_block_io_def)
  have "1 < length (blockIds (warehouse lost_block_io))" by (simp add: lost_block_io_def)
  note t = fetch_block_takes_slot [OF f this store(2)]
  have "map_of (block_cache lost_block_io) 1 = None" by (simp add: lost_block_io_def demo_io_def)
  with same f have "retrieve plain_openssl 1 False lost_block_io = Some (Inl e, s')"
    by (simp add: retrieve_def load_block_def run_defs)
  with t show ?thesis using that by blast
qed

theorem failed_load_loses_slot_witness:
  "\<exists>e s' s''. retrieve plain_openssl 1 False lost_block_io = Some (Inl e, s')
     \<and> cache_calls plain_openssl [Host_becomes found_block_env, Call_retrieve 1 False] s' = Some s''
     \<and> retrieve plain_openssl 1 False s'' = Some (Inl (RuntimeError ''cache replacement, invariant not satisfied''), s'')"
proof -
  obtain e s' where f: "retrieve plain_openssl 1 False lost_block_io = Some (Inl e, s')"
      and c: "block_cache s' = block_cache lost_block_io" "dn_queue s' = [2..<512]"
    using lost_block_fails .
  let ?t = "s'\<lparr>world := found_block_env\<rparr>"
  have m: "map_of (block_cache ?t) 1 = None" using c by (simp add: lost_block_io_def demo_io_def)
  moreover have "slot_lost ?t" using c by (simp add: slot_lost_def lost_block_io_def demo_io_def ordered_def)
  ultimately have "retrieve plain_openssl 1 False ?t
      = Some (Inl (RuntimeError ''cache replacement, invariant not satisfied''), ?t)" by (rule slot_lost_miss [rotated])
  then have calls: "cache_calls plain_openssl [Host_becomes found_block_env, Call_retrieve 1 False] s' = Some ?t"
    by (simp add: run_defs)
  from failed_load_loses_slot [OF f _ _ _ _ _ calls m, of False] f calls show ?thesis
    by (auto simp: lost_block_io_def demo_io_def available_slots_def ordered_def)
qed

end
