(* ===== verification/Trie.thy ===== *)
theory Trie
  imports Memory_Props
begin

unbundle bit_operations_syntax

text \<open>
  The trie of the key-value store (\<open>common/state/trie.h\<close>, \<open>trie.cpp\<close>). A node takes 32 bytes of the data
  nodes' memory: a header byte of bit fields, the offsets of the next sibling and of the first child,
  and a chunk of at most fifteen bytes of the key. A node with an empty chunk ends a key, and its
  child offset is where the value is. The operations walk down with a stack of the nodes they
  pass, do their work at the node that ends the key, and write the changed nodes back on the way up.

  Local variables of type \<open>trie_node\<close> are not initialized by the code, except for the location and
  the two flags; the bytes they start with are the parameter \<open>uninit\<close> of the operations that have one.
  The entries of the stack are value-initialized, so they start with zeros.
\<close>

section \<open>Nodes and their bytes\<close>

datatype kv_operation_e = GET_OP | PUT_OP | DEL_OP

definition MAX_KEY_CHUNK_BYTE_SIZE :: nat where
  "MAX_KEY_CHUNK_BYTE_SIZE = 15"

record trie_node_header_t =
  isDeleted :: bool
  hasNext :: bool
  hasChild :: bool
  isValue :: bool
  keyChunkSize :: nat

record trie_node_h_with_ncc_t =
  hdr :: trie_node_header_t
  next_offset :: block_offset_t
  child_offset :: block_offset_t
  key_chunk :: bytes

text \<open>The bit fields fill the byte from its lowest bit.\<close>

definition header_byte :: "trie_node_header_t \<Rightarrow> byte" where
  "header_byte h = word_of_nat (of_bool (isDeleted h) + 2 * of_bool (hasNext h) + 4 * of_bool (hasChild h)
     + 8 * of_bool (isValue h) + 16 * (keyChunkSize h mod 16))"

definition header_of_byte :: "byte \<Rightarrow> trie_node_header_t" where
  "header_of_byte b = \<lparr>isDeleted = bit b 0, hasNext = bit b 1, hasChild = bit b 2, isValue = bit b 3,
     keyChunkSize = unat b div 16\<rparr>"

definition node_image :: "trie_node_h_with_ncc_t \<Rightarrow> bytes" where
  "node_image n = header_byte (hdr n) # to_ByteArray (next_offset n) @ to_ByteArray (child_offset n) @ key_chunk n"

definition offset_of_image :: "bytes \<Rightarrow> block_offset_t" where
  "offset_of_image b = \<lparr>block_num = le_nat (take 4 b), bytes = le_nat (take 4 (drop 4 b))\<rparr>"

definition node_of_image :: "bytes \<Rightarrow> trie_node_h_with_ncc_t" where
  "node_of_image b = \<lparr>hdr = header_of_byte (hd b), next_offset = offset_of_image (take 8 (drop 1 b)),
     child_offset = offset_of_image (take 8 (drop 9 b)), key_chunk = take 15 (drop 17 b)\<rparr>"

definition sizeof_trie_node_header_t :: nat where
  "sizeof_trie_node_header_t = 1"

definition sizeof_trie_node_h_with_nc_t :: nat where
  "sizeof_trie_node_h_with_nc_t = sizeof_trie_node_header_t + 8 + 8"

definition sizeof_trie_node_h_with_ncc_t :: nat where
  "sizeof_trie_node_h_with_ncc_t = sizeof_trie_node_h_with_nc_t + MAX_KEY_CHUNK_BYTE_SIZE"

definition sizeof_size_t :: nat where
  "sizeof_size_t = 8"

definition empty_trie_header :: trie_node_header_t where
  "empty_trie_header = \<lparr>isDeleted = False, hasNext = False, hasChild = False, isValue = False, keyChunkSize = 0\<rparr>"

record trie_node =
  node :: trie_node_h_with_ncc_t
  tn_modified :: bool
  tn_initialized :: bool
  location :: block_offset_t

definition new_trie_node :: "trie_node_h_with_ncc_t \<Rightarrow> trie_node" where
  "new_trie_node uninit = \<lparr>node = uninit, tn_modified = False, tn_initialized = False, location = empty_block_offset\<rparr>"

definition zero_node :: trie_node_h_with_ncc_t where
  "zero_node = \<lparr>hdr = empty_trie_header, next_offset = empty_block_offset, child_offset = empty_block_offset,
     key_chunk = replicate MAX_KEY_CHUNK_BYTE_SIZE 0\<rparr>"

section \<open>Reading and writing nodes\<close>

function shared_prefix_loop :: "bytes \<Rightarrow> nat \<Rightarrow> bytes \<Rightarrow> nat \<Rightarrow> nat \<Rightarrow> nat" where
  "shared_prefix_loop stored_chunk sc_length kchunk kc_length spl =
     (if spl < sc_length \<and> spl < kc_length \<and> stored_chunk ! spl = kchunk ! spl
      then shared_prefix_loop stored_chunk sc_length kchunk kc_length (Suc spl) else spl)"
  by auto
termination by (relation "measure (\<lambda>(_, sc_length, _, _, spl). sc_length - spl)") auto

declare shared_prefix_loop.simps [simp del]

definition shared_prefix_length :: "bytes \<Rightarrow> nat \<Rightarrow> bytes \<Rightarrow> nat \<Rightarrow> nat" where
  "shared_prefix_length stored_chunk sc_length kchunk kc_length =
     shared_prefix_loop stored_chunk sc_length kchunk kc_length 0"

definition new_trie_node_size :: nat where
  "new_trie_node_size = sizeof_trie_node_h_with_nc_t + MAX_KEY_CHUNK_BYTE_SIZE"

definition create_node :: "bytes \<Rightarrow> nat \<Rightarrow> nat \<Rightarrow> trie_node \<Rightarrow> trie_node" where
  "create_node key keyChunkBegin keyChunkEnd out_node =
     (let kcl = u32_sub keyChunkEnd keyChunkBegin;
          size = (if kcl > MAX_KEY_CHUNK_BYTE_SIZE then MAX_KEY_CHUNK_BYTE_SIZE else kcl);
          h = (hdr (node out_node))\<lparr>hasNext := True, hasChild := True, keyChunkSize := size\<rparr>
      in out_node\<lparr>node := \<lparr>hdr = h, next_offset = empty_block_offset, child_offset = empty_block_offset,
             key_chunk = overwrite (key_chunk (node out_node)) 0 (slice key keyChunkBegin size)\<rparr>,
           tn_modified := True, tn_initialized := True\<rparr>)"

definition read_trie_node :: "openssl \<Rightarrow> block_offset_t \<Rightarrow> trie_node \<Rightarrow> ('z data_node_io_scheme, trie_node) m" where
  "read_trie_node ssl in_block_offset out_trie_node =
     bindM (read_across_data_nodes ssl in_block_offset sizeof_trie_node_h_with_ncc_t []) (\<lambda>ba_node.
     bindM (throwIf (length ba_node \<noteq> sizeof_trie_node_h_with_ncc_t) (RuntimeError ''unable to read trie node'')) (\<lambda>_.
     ret (out_trie_node\<lparr>node := node_of_image ba_node, location := in_block_offset, tn_modified := False,
            tn_initialized := True\<rparr>)))"

text \<open>Free space that can be reused is preferred to appending.\<close>

definition allocate_or_append :: "nat \<Rightarrow> ('z data_node_io_scheme, block_offset_t) m" where
  "allocate_or_append space_required =
     bindM (in_free_space (allocate space_required)) (\<lambda>found. case found of
         Some bo \<Rightarrow> ret bo
       | None \<Rightarrow> block_offset_for_appending)"

definition write_trie_node :: "openssl \<Rightarrow> trie_node \<Rightarrow> ('z data_node_io_scheme, trie_node) m" where
  "write_trie_node ssl in_trie_node =
     bindM (if is_empty (location in_trie_node) then allocate_or_append new_trie_node_size
            else ret (location in_trie_node)) (\<lambda>bo.
     bindM (write_across_data_nodes ssl (node_image (node in_trie_node)) bo) (\<lambda>_.
     ret (in_trie_node\<lparr>location := bo, tn_modified := False\<rparr>)))"

definition init_trie_root :: "openssl \<Rightarrow> trie_node_h_with_ncc_t \<Rightarrow> ('z data_node_io_scheme, unit) m" where
  "init_trie_root ssl uninit =
     bindM (write_trie_node ssl
       (create_node [] 0 0 ((new_trie_node uninit)\<lparr>location := \<lparr>block_num = get_root_block_num, bytes = data_begin_index\<rparr>\<rparr>))) (\<lambda>_.
     ret ())"

section \<open>Values\<close>

definition first_byte :: "bytes \<Rightarrow> ('z data_node_io_scheme, byte) m" where
  "first_byte b = (case b of [] \<Rightarrow> throw (Undefined ''header read past the buffer'') | x # _ \<Rightarrow> ret x)"

definition do_read_value_info ::
    "openssl \<Rightarrow> block_offset_t \<Rightarrow> ('z data_node_io_scheme, block_offset_t \<times> bytes \<times> nat) m" where
  "do_read_value_info ssl bo_at =
     bindM (read_across_data_nodes ssl bo_at sizeof_trie_node_header_t []) (\<lambda>ba_header.
     let bo_at = advance_block_offset bo_at sizeof_trie_node_header_t in
     bindM (first_byte ba_header) (\<lambda>h.
     bindM (throwIf (\<not> isValue (header_of_byte h)) (RuntimeError ''read value, header read is not for value'')) (\<lambda>_.
     bindM (read_across_data_nodes ssl bo_at sizeof_size_t []) (\<lambda>ba_value_size.
     bindM (throwIf (length ba_value_size < sizeof_size_t) (Undefined ''size read past the buffer'')) (\<lambda>_.
     ret (advance_block_offset bo_at sizeof_size_t, ba_header, le_nat (take sizeof_size_t ba_value_size)))))))"

definition do_read_value :: "openssl \<Rightarrow> trie_node \<Rightarrow> bytes \<Rightarrow> ('z data_node_io_scheme, bytes) m" where
  "do_read_value ssl nd value =
     bindM (throwIf (is_empty (child_offset (node nd))) (RuntimeError ''read value, value is absent'')) (\<lambda>_.
     bindM (do_read_value_info ssl (child_offset (node nd))) (\<lambda>(bo, _, value_size).
     read_across_data_nodes ssl bo (u32 value_size) value))"

text \<open>The header, marked as deleted, is written at the offset that \<open>do_read_value_info\<close> has advanced.\<close>

definition do_delete_value :: "openssl \<Rightarrow> trie_node \<Rightarrow> ('z data_node_io_scheme, trie_node) m" where
  "do_delete_value ssl nd =
     bindM (do_read_value_info ssl (child_offset (node nd))) (\<lambda>(bo, ba_header, value_size).
     bindM (first_byte ba_header) (\<lambda>h.
     bindM (write_across_data_nodes ssl (ba_header[0 := header_byte ((header_of_byte h)\<lparr>isDeleted := True\<rparr>)]) bo) (\<lambda>_.
     bindM (in_free_space (collect (child_offset (node nd)) (u32 (length ba_header + sizeof_size_t + value_size)))) (\<lambda>_.
     ret (nd\<lparr>node := (node nd)\<lparr>child_offset := empty_block_offset\<rparr>, tn_modified := True\<rparr>)))))"

definition do_write_value :: "openssl \<Rightarrow> trie_node \<Rightarrow> bytes \<Rightarrow> ('z data_node_io_scheme, trie_node) m" where
  "do_write_value ssl nd value =
     bindM (if \<not> is_empty (child_offset (node nd)) then do_delete_value ssl nd else ret nd) (\<lambda>nd.
     let space_required = u32 (sizeof_trie_node_header_t + sizeof_size_t + length value) in
     bindM (allocate_or_append space_required) (\<lambda>child.
     let nd = nd\<lparr>node := (node nd)\<lparr>child_offset := child\<rparr>, tn_modified := True\<rparr>;
         bo = child;
         ba_trie_node = [header_byte (empty_trie_header\<lparr>isValue := True\<rparr>)] in
     bindM (write_across_data_nodes ssl ba_trie_node bo) (\<lambda>_.
     let bo = advance_block_offset bo (length ba_trie_node);
         space_required = u32_sub space_required (length ba_trie_node);
         ba_value_size = le_bytes sizeof_size_t (length value) in
     bindM (write_across_data_nodes ssl ba_value_size bo) (\<lambda>_.
     let bo = advance_block_offset bo (length ba_value_size);
         space_required = u32_sub space_required (length ba_value_size) in
     bindM (write_across_data_nodes ssl value bo) (\<lambda>_.
     bindM (throwIf (u32_sub space_required (length value) \<noteq> 0)
              (RuntimeError ''space estimated does not match space written'')) (\<lambda>_.
     ret nd))))))"

section \<open>Splitting and deleting nodes\<close>

definition do_split_trie_node ::
    "openssl \<Rightarrow> trie_node_h_with_ncc_t \<Rightarrow> trie_node \<Rightarrow> nat \<Rightarrow> ('z data_node_io_scheme, trie_node) m" where
  "do_split_trie_node ssl uninit nd spl =
     bindM (throwIf (\<not> (keyChunkSize (hdr (node nd)) > 0 \<and> spl < keyChunkSize (hdr (node nd))))
              (RuntimeError ''split node, wrong key chunk size and/or spl'')) (\<lambda>_.
     bindM (get (\<lambda>s. dn_free_bytes (data_nodes s ! append_dn s))) (\<lambda>free_bytes.
     bindM (consume_add_and_init_append_data_node_cond ssl (new_trie_node_size > free_bytes)) (\<lambda>_.
     let second_chunk = slice (key_chunk (node nd)) spl (keyChunkSize (hdr (node nd)) - spl);
         second_node = create_node second_chunk 0 (length second_chunk) (new_trie_node uninit);
         second_node = second_node\<lparr>node := (node second_node)\<lparr>next_offset := empty_block_offset,
                         child_offset := child_offset (node nd)\<rparr>, tn_modified := True\<rparr> in
     bindM (write_trie_node ssl second_node) (\<lambda>second_node.
     ret (nd\<lparr>node := (node nd)\<lparr>hdr := (hdr (node nd))\<lparr>keyChunkSize := spl\<rparr>, child_offset := location second_node\<rparr>,
            tn_modified := True\<rparr>)))))"

definition delete_trie_node_childless :: "openssl \<Rightarrow> trie_node \<Rightarrow> ('z data_node_io_scheme, trie_node) m" where
  "delete_trie_node_childless ssl nd =
     (if is_empty (child_offset (node nd)) then
        bindM (in_free_space (collect (location nd) new_trie_node_size)) (\<lambda>_.
        let nd = nd\<lparr>node := (node nd)\<lparr>hdr := (hdr (node nd))\<lparr>isDeleted := True\<rparr>\<rparr>, tn_modified := True\<rparr> in
        bindM (write_trie_node ssl nd) (\<lambda>nd.
        ret (nd\<lparr>location := next_offset (node nd)\<rparr>)))
      else ret nd)"

section \<open>The operations\<close>

record recursive_item =
  ri_node :: trie_node
  go_next :: bool

text \<open>An entry appended to the stack has only its location set. The last entry of the stack is the head of the list.\<close>

definition item_for :: "block_offset_t \<Rightarrow> recursive_item" where
  "item_for bo = \<lparr>ri_node = (new_trie_node zero_node)\<lparr>location := bo\<rparr>, go_next = False\<rparr>"

text \<open>
  The first loop goes on, leaves by \<open>break\<close> once the operation is done, or returns because the key
  is absent.
\<close>

datatype descent = Go "recursive_item list" nat | Break "recursive_item list" bytes | Return

definition load_item :: "openssl \<Rightarrow> kv_operation_e \<Rightarrow> bytes \<Rightarrow> nat \<Rightarrow> trie_node \<Rightarrow> ('z data_node_io_scheme, trie_node option) m" where
  "load_item ssl operation kvkey depth nd =
     (if tn_initialized nd then ret (Some nd)
      else if is_empty (location nd) then
        (if operation = PUT_OP then ret (Some (create_node kvkey depth (u32 (length kvkey)) nd)) else ret None)
      else bindM (read_trie_node ssl (location nd) nd) (\<lambda>nd. ret (Some nd)))"

definition do_operation ::
    "openssl \<Rightarrow> kv_operation_e \<Rightarrow> bytes \<Rightarrow> bytes \<Rightarrow> trie_node \<Rightarrow> ('z data_node_io_scheme, trie_node \<times> bytes) m" where
  "do_operation ssl operation in_value out_value nd =
     (case operation of
        PUT_OP \<Rightarrow> bindM (do_write_value ssl nd in_value) (\<lambda>nd. ret (nd, out_value))
      | GET_OP \<Rightarrow> bindM (do_read_value ssl nd out_value) (\<lambda>v. ret (nd, v))
      | DEL_OP \<Rightarrow> bindM (do_delete_value ssl nd) (\<lambda>nd. ret (nd, out_value)))"

definition operate_node ::
    "openssl \<Rightarrow> trie_node_h_with_ncc_t \<Rightarrow> kv_operation_e \<Rightarrow> bytes \<Rightarrow> bytes \<Rightarrow> bytes \<Rightarrow>
     recursive_item \<Rightarrow> recursive_item list \<Rightarrow> nat \<Rightarrow> ('z data_node_io_scheme, descent) m" where
  "operate_node ssl uninit operation kvkey in_value out_value ri stack depth =
     (let nd = node (ri_node ri);
          spl = shared_prefix_length (key_chunk nd) (keyChunkSize (hdr nd)) (drop depth kvkey) (u32_sub (length kvkey) depth)
      in if spl = 0 then
           if depth < length kvkey \<or> keyChunkSize (hdr nd) > 0
           then ret (Go (item_for (next_offset nd) # ri\<lparr>go_next := True\<rparr> # stack) depth)
           else bindM (do_operation ssl operation in_value out_value (ri_node ri)) (\<lambda>(n, out).
                ret (Break (ri\<lparr>ri_node := n\<rparr> # stack) out))
         else if spl = keyChunkSize (hdr nd)
         then ret (Go (item_for (child_offset nd) # ri\<lparr>go_next := False\<rparr> # stack) (u32 (depth + spl)))
         else if operation = PUT_OP
         then bindM (do_split_trie_node ssl uninit (ri_node ri) spl) (\<lambda>n. ret (Go (ri\<lparr>ri_node := n\<rparr> # stack) depth))
         else ret Return)"

definition descend_step ::
    "openssl \<Rightarrow> trie_node_h_with_ncc_t \<Rightarrow> kv_operation_e \<Rightarrow> bytes \<Rightarrow> bytes \<Rightarrow> bytes \<Rightarrow> descent \<Rightarrow> ('z data_node_io_scheme, descent) m" where
  "descend_step ssl uninit operation kvkey in_value out_value l =
     (case l of
        Go (ri # stack) depth \<Rightarrow>
          bindM (load_item ssl operation kvkey depth (ri_node ri)) (\<lambda>loaded. case loaded of
              None \<Rightarrow> ret Return
            | Some n \<Rightarrow> operate_node ssl uninit operation kvkey in_value out_value (ri\<lparr>ri_node := n\<rparr>) stack depth)
      | Go [] depth \<Rightarrow> throw (Undefined ''back of an empty stack'')
      | _ \<Rightarrow> ret l)"

definition going :: "descent \<Rightarrow> bool" where
  "going l = (case l of Go _ _ \<Rightarrow> True | _ \<Rightarrow> False)"

definition descend ::
    "openssl \<Rightarrow> trie_node_h_with_ncc_t \<Rightarrow> kv_operation_e \<Rightarrow> bytes \<Rightarrow> bytes \<Rightarrow> bytes \<Rightarrow> descent \<Rightarrow> ('z data_node_io_scheme, descent) m" where
  "descend ssl uninit operation kvkey in_value out_value =
     loop_m (\<lambda>l _. going l) (descend_step ssl uninit operation kvkey in_value out_value)"

text \<open>The second loop empties the stack: the offset of each entry's node is put into the entry before it.\<close>

definition link :: "block_offset_t \<Rightarrow> recursive_item \<Rightarrow> recursive_item" where
  "link bo prev =
     (let n = ri_node prev in
      if go_next prev
      then if next_offset (node n) \<noteq> bo
           then prev\<lparr>ri_node := n\<lparr>node := (node n)\<lparr>next_offset := bo\<rparr>, tn_modified := True\<rparr>\<rparr> else prev
      else if child_offset (node n) \<noteq> bo
           then prev\<lparr>ri_node := n\<lparr>node := (node n)\<lparr>child_offset := bo\<rparr>, tn_modified := True\<rparr>\<rparr> else prev)"

definition settle :: "openssl \<Rightarrow> kv_operation_e \<Rightarrow> nat \<Rightarrow> trie_node \<Rightarrow> ('z data_node_io_scheme, trie_node) m" where
  "settle ssl operation left n =
     bindM (if operation = DEL_OP \<and> left > 1 then delete_trie_node_childless ssl n else ret n) (\<lambda>n.
     if tn_modified n then write_trie_node ssl n else ret n)"

fun unwind :: "openssl \<Rightarrow> kv_operation_e \<Rightarrow> recursive_item list \<Rightarrow> ('z data_node_io_scheme, unit) m" where
  "unwind ssl operation [] = ret ()"
| "unwind ssl operation [ri] = bindM (settle ssl operation 0 (ri_node ri)) (\<lambda>_. ret ())"
| "unwind ssl operation (ri # prev # stack) =
     bindM (settle ssl operation (length (prev # stack)) (ri_node ri)) (\<lambda>n.
     unwind ssl operation (link (location n) prev # stack))"

definition operate_trie_non_recursive ::
    "openssl \<Rightarrow> trie_node_h_with_ncc_t \<Rightarrow> kv_operation_e \<Rightarrow> bytes \<Rightarrow> bytes \<Rightarrow> ('z data_node_io_scheme, bytes) m" where
  "operate_trie_non_recursive ssl uninit operation kvkey in_value =
     bindM (read_trie_node ssl \<lparr>block_num = get_root_block_num, bytes = data_begin_index\<rparr> (new_trie_node uninit)) (\<lambda>root.
     bindM (descend ssl uninit operation kvkey in_value []
              (Go [item_for (next_offset (node root)), \<lparr>ri_node = root, go_next = True\<rparr>] 0)) (\<lambda>l.
     case l of
       Break stack out \<Rightarrow> bindM (unwind ssl operation stack) (\<lambda>_. ret out)
     | _ \<Rightarrow> ret []))"

end
