(* ===== verification/Trie_Shape.thy ===== *)
theory Trie_Shape
  imports Trie
begin

text \<open>
  Tries as trees. A \<open>Branch\<close> is a node with a chunk of the key, its first child and its next sibling; a
  \<open>Leaf\<close> is a node that ends a key, with its value and its next sibling. The tree also says where the
  nodes and values are. \<open>lookup\<close> makes a tree a map from keys to values, by the walk of the code. A
  position in a tree is the list of \<open>frame\<close>s on the way to it, which is what the stack of the code holds.
\<close>

section \<open>Common prefixes\<close>

fun lcp :: "'a list \<Rightarrow> 'a list \<Rightarrow> nat" where
  "lcp (x # xs) (y # ys) = (if x = y then Suc (lcp xs ys) else 0)"
| "lcp _ _ = 0"

lemma lcp_le: "lcp xs ys \<le> length xs" "lcp xs ys \<le> length ys"
  by (induction xs ys rule: lcp.induct) auto

lemma lcp_take: "take (lcp xs ys) xs = take (lcp xs ys) ys"
  by (induction xs ys rule: lcp.induct) auto

lemma lcp_full: "lcp xs ys = length xs \<longleftrightarrow> (\<exists>zs. ys = xs @ zs)"
  by (induction xs ys rule: lcp.induct) auto

lemma lcp_append [simp]: "lcp xs (xs @ ys) = length xs"
  by (simp add: lcp_full)

lemma lcp_zero: "xs \<noteq> [] \<Longrightarrow> lcp xs ys = 0 \<longleftrightarrow> ys = [] \<or> hd ys \<noteq> hd xs"
  by (cases xs; cases ys) auto

lemma lcp_drop: "lcp (drop (lcp xs ys) xs) (drop (lcp xs ys) ys) = 0"
  by (induction xs ys rule: lcp.induct) auto

lemma lcp_append_left:
  "lcp (xs @ zs) ys = (if lcp xs ys = length xs then length xs + lcp zs (drop (length xs) ys) else lcp xs ys)"
  by (induction xs ys rule: lcp.induct) auto

text \<open>The loop of the code computes the length of the common prefix.\<close>

lemma shared_prefix_loop_lcp:
  assumes "n \<le> length xs" and "k \<le> length ys" and "i \<le> n" and "i \<le> k"
  shows "shared_prefix_loop xs n ys k i = i + lcp (drop i (take n xs)) (drop i (take k ys))"
  using assms
proof (induction xs n ys k i rule: shared_prefix_loop.induct)
  case (1 xs n ys k i)
  show ?case
  proof (cases "i < n \<and> i < k")
    case True
    then have "drop i (take n xs) = xs ! i # drop (Suc i) (take n xs)" "drop i (take k ys) = ys ! i # drop (Suc i) (take k ys)"
      using 1(2,3) by (simp_all add: Cons_nth_drop_Suc [symmetric])
    then show ?thesis using 1 True by (subst shared_prefix_loop.simps) simp
  next
    case False
    then have "drop i (take n xs) = [] \<or> drop i (take k ys) = []" using 1 by auto
    then show ?thesis using False by (subst shared_prefix_loop.simps) auto
  qed
qed

lemma shared_prefix_length_lcp:
  "n \<le> length xs \<Longrightarrow> k \<le> length ys \<Longrightarrow> shared_prefix_length xs n ys k = lcp (take n xs) (take k ys)"
  by (simp add: shared_prefix_length_def shared_prefix_loop_lcp)

section \<open>Trees and what they map\<close>

datatype tree =
    Tip
  | Branch block_offset_t bytes tree tree
  | Leaf block_offset_t block_offset_t bytes tree

fun loc :: "tree \<Rightarrow> block_offset_t" where
  "loc Tip = empty_block_offset"
| "loc (Branch bo _ _ _) = bo"
| "loc (Leaf bo _ _ _) = bo"

fun lookup :: "tree \<Rightarrow> bytes \<Rightarrow> bytes option" where
  "lookup Tip k = None"
| "lookup (Leaf _ _ v n) k = (if k = [] then Some v else lookup n k)"
| "lookup (Branch _ ch c n) k =
     (if lcp ch k = 0 then lookup n k else if lcp ch k = length ch then lookup c (drop (lcp ch k) k) else None)"

text \<open>The siblings of a chain start with different bytes, and at most one of them is a leaf; values are not empty.\<close>

definition head_of :: "bytes \<Rightarrow> byte option" where
  "head_of k = (case k of [] \<Rightarrow> None | b # _ \<Rightarrow> Some b)"

fun heads :: "tree \<Rightarrow> byte option set" where
  "heads Tip = {}"
| "heads (Leaf _ _ _ n) = insert None (heads n)"
| "heads (Branch _ ch _ n) = insert (head_of ch) (heads n)"

fun wf_tree :: "tree \<Rightarrow> bool" where
  "wf_tree Tip \<longleftrightarrow> True"
| "wf_tree (Leaf _ _ v n) \<longleftrightarrow> v \<noteq> [] \<and> None \<notin> heads n \<and> wf_tree n"
| "wf_tree (Branch _ ch c n) \<longleftrightarrow> ch \<noteq> [] \<and> length ch \<le> 15 \<and> head_of ch \<notin> heads n \<and> wf_tree c \<and> wf_tree n"

lemma head_of_eq: "ch \<noteq> [] \<Longrightarrow> head_of ch = head_of k \<longleftrightarrow> lcp ch k \<noteq> 0"
  by (cases ch; cases k) (auto simp: head_of_def)

lemma lookup_heads: "wf_tree t \<Longrightarrow> head_of k \<notin> heads t \<Longrightarrow> lookup t k = None"
proof (induction t k rule: lookup.induct)
  case (3 bo ch c n k)
  then have "lcp ch k = 0" using head_of_eq [of ch k] by auto
  with 3 show ?case by simp
qed (auto simp: head_of_def)

text \<open>The same tree wherever it is stored.\<close>

fun skel :: "tree \<Rightarrow> tree" where
  "skel Tip = Tip"
| "skel (Branch _ ch c n) = Branch empty_block_offset ch (skel c) (skel n)"
| "skel (Leaf _ _ v n) = Leaf empty_block_offset empty_block_offset v (skel n)"

lemma skel_same [simp]: "lookup (skel t) k = lookup t k" "heads (skel t) = heads t" "wf_tree (skel t) = wf_tree t"
proof -
  show h: "heads (skel t) = heads t" for t by (induction t) auto
  show "lookup (skel t) k = lookup t k" by (induction t k rule: lookup.induct) auto
  show "wf_tree (skel t) = wf_tree t" by (induction t) (auto simp: h)
qed

lemma skel_eqD: "skel t = skel u \<Longrightarrow> lookup t = lookup u \<and> heads t = heads u \<and> wf_tree t = wf_tree u"
  by (metis ext skel_same)

section \<open>Frames\<close>

datatype frame =
    NextB block_offset_t bytes tree
  | NextL block_offset_t block_offset_t bytes
  | Child block_offset_t bytes tree

fun fbo :: "frame \<Rightarrow> block_offset_t" where
  "fbo (NextB bo _ _) = bo"
| "fbo (NextL bo _ _) = bo"
| "fbo (Child bo _ _) = bo"

fun plug :: "frame \<Rightarrow> tree \<Rightarrow> tree" where
  "plug (NextB bo ch c) t = Branch bo ch c t"
| "plug (NextL bo vb v) t = Leaf bo vb v t"
| "plug (Child bo ch n) t = Branch bo ch t n"

text \<open>A node without child goes away when the code deletes; what remains of its chain takes its place.\<close>

fun childless :: "frame \<Rightarrow> tree \<Rightarrow> bool" where
  "childless (NextB _ _ c) t \<longleftrightarrow> c = Tip"
| "childless (NextL _ _ _) t \<longleftrightarrow> False"
| "childless (Child _ _ _) t \<longleftrightarrow> t = Tip"

fun remainder :: "frame \<Rightarrow> tree \<Rightarrow> tree" where
  "remainder (NextB _ _ _) t = t"
| "remainder (NextL _ _ _) t = t"
| "remainder (Child _ _ n) t = n"

definition settled :: "kv_operation_e \<Rightarrow> frame list \<Rightarrow> frame \<Rightarrow> tree \<Rightarrow> tree" where
  "settled operation fs f t = (if operation = DEL_OP \<and> fs \<noteq> [] \<and> childless f t then remainder f t else plug f t)"

fun close :: "kv_operation_e \<Rightarrow> frame list \<Rightarrow> tree \<Rightarrow> tree" where
  "close operation [] t = t"
| "close operation (f # fs) t = close operation fs (settled operation fs f t)"

text \<open>Where the walk for a key ends: at the leaf of the key, at a branch whose chunk matches in part, or at the end of a chain.\<close>

fun locate :: "tree \<Rightarrow> bytes \<Rightarrow> frame list \<Rightarrow> frame list \<times> tree \<times> bytes" where
  "locate Tip k fs = (fs, Tip, k)"
| "locate (Leaf bo vb v n) k fs = (if k = [] then (fs, Leaf bo vb v n, k) else locate n k (NextL bo vb v # fs))"
| "locate (Branch bo ch c n) k fs =
     (if lcp ch k = 0 then locate n k (NextB bo ch c # fs)
      else if lcp ch k = length ch then locate c (drop (lcp ch k) k) (Child bo ch n # fs)
      else (fs, Branch bo ch c n, k))"

text \<open>A frame routes a key to its hole, with what remains of the key there.\<close>

fun routes :: "frame \<Rightarrow> bytes \<Rightarrow> bytes \<Rightarrow> bool" where
  "routes (NextB _ ch _) k k' \<longleftrightarrow> ch \<noteq> [] \<and> lcp ch k = 0 \<and> k' = k"
| "routes (NextL _ _ _) k k' \<longleftrightarrow> k \<noteq> [] \<and> k' = k"
| "routes (Child _ ch _) k k' \<longleftrightarrow> ch \<noteq> [] \<and> k = ch @ k'"

fun all_route :: "frame list \<Rightarrow> bytes \<Rightarrow> bytes \<Rightarrow> bool" where
  "all_route [] k k' \<longleftrightarrow> k = k'"
| "all_route (f # fs) k k' \<longleftrightarrow> (\<exists>k1. routes f k1 k' \<and> all_route fs k k1)"

lemma routes_same: "routes f k k' \<Longrightarrow> routes f k2 k' \<Longrightarrow> k = k2"
  by (cases f) auto

lemma lookup_routes: "routes f k k' \<Longrightarrow> lookup (plug f t) k = lookup t k'"
  by (cases f) auto

text \<open>Changing the value of one key below a frame changes the value of one key above it.\<close>

definition updates :: "tree \<Rightarrow> tree \<Rightarrow> bytes \<Rightarrow> bytes option \<Rightarrow> bool" where
  "updates t t' k r \<longleftrightarrow> lookup t' = (lookup t)(k := r)"

lemma updates_plug:
  assumes "updates t t' k' r" and "routes f k k'"
  shows "updates (plug f t) (plug f t') k r"
proof -
  have u: "lookup t' = (lookup t)(k' := r)" using assms(1) by (simp add: updates_def)
  show ?thesis
  proof (cases f)
    case (NextB bo ch c)
    then show ?thesis using assms(2) u by (auto simp: updates_def)
  next
    case (NextL bo vb v)
    then show ?thesis using assms(2) u by (auto simp: updates_def)
  next
    case (Child bo ch n)
    then have k: "ch \<noteq> []" "k = ch @ k'" using assms(2) by auto
    have "lookup (plug f t') x = ((lookup (plug f t))(k := r)) x" for x
    proof (cases "lcp ch x = length ch")
      case True
      then obtain z where "x = ch @ z" by (auto simp: lcp_full)
      then show ?thesis using Child k u by auto
    qed (use Child k in auto)
    then show ?thesis by (auto simp: updates_def)
  qed
qed

lemma wf_plug:
  assumes "wf_tree (plug f t)" and "wf_tree t'" and "heads t' \<subseteq> insert (head_of k') (heads t)" and "routes f k k'"
  shows "wf_tree (plug f t') \<and> heads (plug f t') \<subseteq> insert (head_of k) (heads (plug f t))"
proof (cases f)
  case (NextB bo ch c)
  then have "head_of ch \<noteq> head_of k'" using assms(4) head_of_eq [of ch k'] by auto
  then show ?thesis using NextB assms by auto
next
  case (NextL bo vb v)
  then have "head_of k' \<noteq> None" using assms(4) by (cases k') (auto simp: head_of_def)
  then show ?thesis using NextL assms by auto
next
  case (Child bo ch n)
  then show ?thesis using assms by auto
qed

lemma lookup_remainder: "wf_tree (plug f t) \<Longrightarrow> childless f t \<Longrightarrow> lookup (remainder f t) = lookup (plug f t)"
proof (rule ext)
  fix k assume w: "wf_tree (plug f t)" and c: "childless f t"
  show "lookup (remainder f t) k = lookup (plug f t) k"
  proof (cases f)
    case (NextB bo ch c')
    then show ?thesis using w c lookup_heads [of t k] head_of_eq [of ch k] by auto
  next
    case (Child bo ch n)
    then show ?thesis using w c lookup_heads [of n k] head_of_eq [of ch k] by auto
  qed (use c in simp)
qed

lemma wf_remainder: "wf_tree (plug f t) \<Longrightarrow> wf_tree (remainder f t) \<and> heads (remainder f t) \<subseteq> heads (plug f t)"
  by (cases f) auto

lemma wf_close: "wf_tree (close GET_OP fs t) \<Longrightarrow> wf_tree t"
proof (induction fs arbitrary: t)
  case (Cons f fs)
  then have "wf_tree (plug f t)" by (simp add: settled_def)
  then show ?case by (cases f) auto
qed simp

lemma close_updates:
  assumes "updates t t' k' r" and "wf_tree (close GET_OP fs t)" and "wf_tree t'" and "heads t' \<subseteq> insert (head_of k') (heads t)"
    and "all_route fs k k'"
  shows "updates (close GET_OP fs t) (close operation fs t') k r \<and> wf_tree (close operation fs t')
     \<and> heads (close operation fs t') \<subseteq> insert (head_of k) (heads (close GET_OP fs t))"
  using assms
proof (induction fs arbitrary: t t' k')
  case (Cons f fs)
  then obtain k1 where k1: "routes f k1 k'" "all_route fs k k1" by auto
  have w: "wf_tree (close GET_OP fs (plug f t))" using Cons.prems(2) by (simp add: settled_def)
  have wf: "wf_tree (plug f t)" using w by (rule wf_close)
  note p = updates_plug [OF Cons.prems(1) k1(1)] wf_plug [OF wf Cons.prems(3,4) k1(1)]
  let ?t = "settled operation fs f t'"
  have "updates (plug f t) ?t k1 r \<and> wf_tree ?t \<and> heads ?t \<subseteq> insert (head_of k1) (heads (plug f t))"
  proof (cases "operation = DEL_OP \<and> fs \<noteq> [] \<and> childless f t'")
    case True
    then show ?thesis using p lookup_remainder [of f t'] wf_remainder [of f t'] by (auto simp: settled_def updates_def)
  qed (use p in \<open>auto simp: settled_def\<close>)
  then show ?case using Cons.IH [OF _ w _ _ k1(2), of ?t] by (simp add: settled_def)
qed simp

section \<open>The place the walk ends\<close>

fun is_place :: "tree \<Rightarrow> bytes \<Rightarrow> bool" where
  "is_place Tip k \<longleftrightarrow> True"
| "is_place (Leaf _ _ _ _) k \<longleftrightarrow> k = []"
| "is_place (Branch _ ch _ _) k \<longleftrightarrow> 0 < lcp ch k \<and> lcp ch k < length ch"

lemma locate_place:
  assumes "locate t k fs = (fs', t', k')" and "wf_tree t" and "all_route fs K k"
  shows "close GET_OP fs' t' = close GET_OP fs t \<and> all_route fs' K k' \<and> is_place t' k'"
  using assms
proof (induction t k fs rule: locate.induct)
  case (2 bo vb v n k fs)
  then show ?case by (auto simp: settled_def split: if_splits)
next
  case (3 bo ch c n k fs)
  consider "lcp ch k = 0" | "lcp ch k \<noteq> 0" "lcp ch k = length ch" | "lcp ch k \<noteq> 0" "lcp ch k \<noteq> length ch" by blast
  then show ?case
  proof cases
    case 2
    then obtain z where "k = ch @ z" by (auto simp: lcp_full)
    then show ?thesis using 2 3 by (auto simp: settled_def)
  next
    case 3
    then show ?thesis using "3.prems" lcp_le(1) [of ch k] by auto
  qed (use 3 in \<open>auto simp: settled_def\<close>)
qed auto

lemma lookup_close:
  "all_route fs k k' \<Longrightarrow> lookup (close GET_OP fs t) k = lookup t k'"
  by (induction fs arbitrary: t k') (auto simp: settled_def lookup_routes)

lemma lookup_place:
  "is_place t k \<Longrightarrow> lookup t k = (case t of Leaf _ _ v _ \<Rightarrow> Some v | _ \<Rightarrow> None)"
  by (cases t) auto

section \<open>New trees\<close>

text \<open>The chain of nodes that the code creates for a key: chunks of at most fifteen bytes, and the leaf.\<close>

function spine :: "bytes \<Rightarrow> bytes \<Rightarrow> tree" where
  "spine k v = (if k = [] then Leaf empty_block_offset empty_block_offset v Tip
     else Branch empty_block_offset (take 15 k) (spine (drop 15 k) v) Tip)"
  by auto
termination by (relation "measure (\<lambda>(k, _). length k)") auto

declare spine.simps [simp del]

lemma lookup_spine: "lookup (spine k v) x = (if x = k then Some v else None)"
proof (induction k v arbitrary: x rule: spine.induct)
  case (1 k v)
  show ?case
  proof (cases "k = []")
    case True
    then show ?thesis by (simp add: spine.simps [of "[]"])
  next
    case False
    let ?ch = "take 15 k"
    have s: "spine k v = Branch empty_block_offset ?ch (spine (drop 15 k) v) Tip" using False by (simp add: spine.simps [of k v])
    have k: "k = ?ch @ drop 15 k" and ne: "?ch \<noteq> []" using False by simp_all
    show ?thesis
    proof (cases "lcp ?ch x = length ?ch")
      case True
      then obtain z where z: "x = ?ch @ z" using lcp_full [of ?ch x] by blast
      have "x = k \<longleftrightarrow> z = drop 15 k" using z k by (metis append_eq_append_conv)
      moreover have "lookup (spine k v) x = lookup (spine (drop 15 k) v) z"
        using s True z ne by (metis append_eq_conv_conj length_0_conv lookup.simps(3))
      ultimately show ?thesis using 1 [OF False] by simp
    next
      case False
      then have "x \<noteq> k" using k lcp_append by metis
      with False s show ?thesis by simp
    qed
  qed
qed

lemma wf_spine: "v \<noteq> [] \<Longrightarrow> wf_tree (spine k v) \<and> heads (spine k v) = {head_of k}"
proof (induction k v rule: spine.induct)
  case (1 k v)
  then show ?case by (cases k) (auto simp: spine.simps [of "[]"] spine.simps [of "_ # _"] head_of_def)
qed

text \<open>Splitting a branch where the key leaves its chunk, and the new chain beside the second part.\<close>

lemma updates_split:
  fixes bo1 bo2 :: block_offset_t
  assumes "0 < p" and "p = lcp ch k" and "p < length ch" and "wf_tree (Branch bo ch c n)" and "v \<noteq> []"
  defines "t' \<equiv> Branch bo1 (take p ch) (Branch bo2 (drop p ch) c (spine (drop p k) v)) n"
  shows "updates (Branch bo ch c n) t' k (Some v)" and "wf_tree t'" and "heads t' = heads (Branch bo ch c n)"
proof -
  let ?q = "drop p ch"
  have ch: "ch = take p ch @ ?q" and q: "?q \<noteq> []" using assms(3) by simp_all
  have t: "take p ch = take p k" using lcp_take [of ch k] assms(2) by simp
  have k: "k = take p ch @ drop p k" and z: "lcp ?q (drop p k) = 0" using t lcp_drop [of ch k] assms(2) by simp_all
  have lp: "length (take p ch) = p" "take p ch \<noteq> []" using assms(1,3) by auto
  have "lookup t' x = ((lookup (Branch bo ch c n))(k := Some v)) x" for x
  proof (cases "lcp (take p ch) x = p")
    case True
    then obtain y where x: "x = take p ch @ y" using lp lcp_full [of "take p ch" x] by auto
    have eq: "x = k \<longleftrightarrow> y = drop p k" using x k same_append_eq [of "take p ch" y "drop p k"] by argo
    have l: "lcp ch x = p + lcp ?q y" using lcp_append_left [of "take p ch" ?q x] x lp by simp
    have new: "lookup t' x = lookup (Branch bo2 ?q c (spine (drop p k) v)) y"
      using x lp assms(1) by (simp add: t'_def)
    show ?thesis
    proof (cases "lcp ?q y = 0")
      case True
      then show ?thesis using new eq l assms(1,3) by (simp add: lookup_spine)
    next
      case False
      then have "y \<noteq> drop p k" using z by auto
      moreover have "lookup (Branch bo ch c n) x = lookup (Branch bo2 ?q c (spine (drop p k) v)) y"
      proof (cases "lcp ?q y = length ?q")
        case True
        then have "lcp ch x = length ch" using l assms(3) by simp
        then show ?thesis using True False x lp assms(1) by simp
      next
        case False
        then have "lcp ch x \<noteq> length ch" "lcp ch x \<noteq> 0" using l assms(1,3) by simp_all
        then show ?thesis using False \<open>lcp ?q y \<noteq> 0\<close> by simp
      qed
      ultimately show ?thesis using new eq by simp
    qed
  next
    case False
    have "lcp (take p ch) k = p" using lcp_append [of "take p ch" "drop p k"] k lp(1) by argo
    then have xk: "x \<noteq> k" using False by blast
    have "lcp ch x = lcp (take p ch) x" using lcp_append_left [of "take p ch" ?q x] False lp by simp
    moreover have "lcp (take p ch) x < p" using False lcp_le(1) [of "take p ch" x] lp by simp
    ultimately show ?thesis using xk lp assms(3) by (simp add: t'_def)
  qed
  then show "updates (Branch bo ch c n) t' k (Some v)" by (auto simp: updates_def)
  have "head_of (take p ch) = head_of ch" using assms(1) by (cases ch; cases p) (auto simp: head_of_def)
  moreover have "head_of ?q \<noteq> head_of (drop p k)" using head_of_eq [OF q] z by simp
  moreover have "length ch - p \<le> 15" "p \<le> 15" using assms(3,4) by auto
  ultimately show "wf_tree t'" "heads t' = heads (Branch bo ch c n)"
    unfolding t'_def using assms(4) wf_spine [OF assms(5), of "drop p k"] lp(2) q assms(3) by (simp_all add: min_def)
qed

lemma updates_spine: "updates Tip (spine k v) k (Some v)"
  by (auto simp: updates_def lookup_spine)

end
