(* ===== verification/Trie_Heap.thy ===== *)
theory Trie_Heap
  imports Trie
begin

text \<open>
  The memory the trie works with. \<open>heap ssl s m F\<close>: the data nodes up to the append cursor hold the bytes
  \<open>m\<close>, and \<open>F\<close> are the positions the free space collector has to give away. Reading, writing, allocating and
  collecting are operations on \<open>m\<close> and \<open>F\<close>; blocks, slots and the cursor do not appear any more.
\<close>

definition heap :: "openssl \<Rightarrow> 'z data_node_io_scheme \<Rightarrow> bytes \<Rightarrow> nat set \<Rightarrow> bool" where
  "heap ssl s m F \<longleftrightarrow> (\<exists>Ms. dn_at ssl s Ms (length m) \<and> m = take (length m) (concat Ms))
     \<and> fsc_inv (free_space s) \<and> free_set (free_space s) = F \<and> F \<subseteq> {..<length m} \<and> length m < 4294967296"

lemma heap_bounds: "heap ssl s m F \<Longrightarrow> F \<subseteq> {..<length m} \<and> length m < 4294967296"
  by (simp add: heap_def)

lemma length_overwrite_max: "a \<le> length m \<Longrightarrow> length (overwrite m a b) = max (length m) (a + length b)"
  by (simp add: overwrite_def)

lemma take_overwrite:
  assumes "a \<le> c" and "c \<le> length xs"
  shows "take (max c (a + length b)) (overwrite xs a b) = overwrite (take c xs) a b"
proof (cases "c \<le> a + length b")
  case True
  then show ?thesis using assms by (simp add: overwrite_def min_absorb1)
next
  case False
  then have "c - (a + length b) + (a + length b) = c" by simp
  then show ?thesis using assms False by (simp add: overwrite_def min_absorb1 max_def drop_take)
qed

lemma slice_take: "a + n \<le> c \<Longrightarrow> slice (take c xs) a n = slice xs a n"
  by (simp add: slice_def drop_take min_absorb1)

section \<open>Reading and writing\<close>

lemma heap_read:
  assumes cr: "crypto_ok ssl" and bo: "wf_offset bo" and n: "lin bo + n \<le> length m"
  shows "triple (world_intact ssl) (\<lambda>s :: 'z data_node_io_scheme. heap ssl s m F) (read_across_data_nodes ssl bo n out)
    (\<lambda>r s. r = out @ slice m (lin bo) n \<and> heap ssl s m F)"
proof (rule triple_assume)
  fix s0 :: "'z data_node_io_scheme" assume h: "heap ssl s0 m F"
  then obtain Ms where at: "dn_at ssl s0 Ms (length m)" and m: "m = take (length m) (concat Ms)" by (auto simp: heap_def)
  have len: "length m \<le> 8184 * length Ms" using at by (simp add: dn_at_def)
  have n': "n < 4294967296" and le: "lin bo + n \<le> 8184 * length Ms" using n len heap_bounds [OF h] by simp_all
  have "slice (concat Ms) (lin bo) n = slice m (lin bo) n"
    using slice_take [OF n, of "concat Ms"] m by simp
  then show "triple (world_intact ssl) (\<lambda>s. s = s0 \<and> heap ssl s m F) (read_across_data_nodes ssl bo n out)
      (\<lambda>r s. r = out @ slice m (lin bo) n \<and> heap ssl s m F)"
    by (intro triple_conseq [OF read_across_triple [OF cr n' bo le, where c = "length m" and fs = "free_space s0"]])
      (use h at m in \<open>auto simp: heap_def\<close>)
qed

lemma heap_write:
  assumes cr: "crypto_ok ssl" and bo: "wf_offset bo" "lin bo \<le> length m" and n: "lin bo + length b < 4294967296"
  shows "triple (world_intact ssl) (\<lambda>s :: 'z data_node_io_scheme. heap ssl s m F) (write_across_data_nodes ssl b bo)
    (\<lambda>_ s. heap ssl s (overwrite m (lin bo) b) F)"
proof (rule triple_assume)
  fix s0 :: "'z data_node_io_scheme" assume h: "heap ssl s0 m F"
  then obtain Ms where at: "dn_at ssl s0 Ms (length m)" and m: "m = take (length m) (concat Ms)" by (auto simp: heap_def)
  have len: "length m \<le> length (concat Ms)" using at length_concat_blocks [OF dn_at_blocks [OF at]] by (simp add: dn_at_def)
  have post: "heap ssl s (overwrite m (lin bo) b) F"
    if "dn_at ssl s Mt (if b = [] then length m else max (length m) (lin bo + length b))" "free_space s = free_space s0"
      "written Ms (lin bo) b Mt" for s :: "'z data_node_io_scheme" and Mt
  proof -
    let ?P = "padded Ms (length Mt)"
    have "take (length m) ?P = m" using len by (subst (2) m) (simp add: padded_def)
    moreover have "length m \<le> length ?P" using len by (simp add: padded_def)
    ultimately have "take (max (length m) (lin bo + length b)) (concat Mt) = overwrite m (lin bo) b"
      using take_overwrite [OF bo(2), of ?P b] that(3) by (simp add: written_def)
    moreover have "(if b = [] then length m else max (length m) (lin bo + length b)) = max (length m) (lin bo + length b)"
      using bo(2) by simp
    ultimately show ?thesis
      using that(1,2) h n by (auto simp: heap_def length_overwrite_max [OF bo(2)] intro!: exI [of _ Mt])
  qed
  have n': "lin bo + length b \<le> 8184 * 2147483647" "length b < 4294967296" using n by simp_all
  show "triple (world_intact ssl) (\<lambda>s. s = s0 \<and> heap ssl s m F) (write_across_data_nodes ssl b bo)
      (\<lambda>_ s. heap ssl s (overwrite m (lin bo) b) F)"
    by (rule triple_conseq [OF write_across_triple [OF cr n' bo, where Ms = Ms and fs = "free_space s0"]])
      (use at post in blast)+
qed

section \<open>Allocating and collecting\<close>

lemma lost_free_space [preserve_intros]: "preserves (\<lambda>s. \<not> world_intact ssl s) (in_free_space op)"
  by (auto simp: preserves_def in_free_space_def zoom_def world_intact_def)

lemma order_free_space [preserve_intros]: "preserves in_order (in_free_space op)"
  by (auto simp: preserves_def in_free_space_def zoom_def)

lemma heap_free_space:
  "heap ssl s m F \<Longrightarrow> fsc_inv c \<Longrightarrow> free_set c = F' \<Longrightarrow> F' \<subseteq> {..<length m} \<Longrightarrow>
   heap ssl (free_space_update (\<lambda>_. c) s) m F'"
  by (auto simp: heap_def dn_at_def dn_inv_def dn_core_def append_saved_def idle_def persisted_def)

lemma cursor_run:
  assumes "heap ssl s m F"
  shows "\<exists>bo. block_offset_for_appending s = Some (Inr bo, s) \<and> wf_offset bo \<and> lin bo = length m"
proof -
  obtain Ms where at: "dn_at ssl s Ms (length m)" using assms by (auto simp: heap_def)
  let ?dn = "data_nodes s ! append_dn s"
  have core: "dn_core ssl s Ms (8184 * length Ms - length m)" and b: "length m \<le> 8184 * length Ms" "8184 * length Ms \<le> length m + 8184"
    using at by (simp_all add: dn_at_def dn_inv_def)
  have ne: "Ms \<noteq> []" and f: "dn_free_bytes ?dn = 8184 * length Ms - length m" using core by (simp_all add: dn_core_def)
  have "block_ok ssl s (length Ms - 1) (Ms ! (length Ms - 1))" using core ne by (simp add: dn_core_def contents_def)
  then have "holds ?dn (length Ms - 1) (Ms ! (length Ms - 1))"
    using core by (auto simp: dn_core_def block_ok_def)
  then have "cursor ?dn = \<lparr>block_num = length Ms - 1, bytes = 8192 - (8184 * length Ms - length m)\<rparr>"
    using f by (auto simp: holds_def cursor_eq)
  moreover have "8184 * length Ms = 8184 * (length Ms - 1) + 8184" using ne by (cases Ms) simp_all
  ultimately show ?thesis
    using b by (auto simp: block_offset_for_appending_def get_def lin_def wf_offset_def)
qed

lemma heap_alloc:
  assumes n: "0 < n" "length m + n < 4294967296"
  shows "triple (world_intact ssl) (\<lambda>s :: 'z data_node_io_scheme. heap ssl s m F) (allocate_or_append n)
    (\<lambda>bo s. valid_region bo n \<and> (region bo n \<subseteq> F \<or> lin bo = length m) \<and> heap ssl s m (F - region bo n))"
proof (rule triple_run)
  fix s :: "'z data_node_io_scheme" assume h: "heap ssl s m F"
  then have inv: "fsc_inv (free_space s)" and F: "free_set (free_space s) = F" "F \<subseteq> {..<length m}" by (simp_all add: heap_def)
  from allocate_run [OF inv n(1)] obtain r c' where a: "allocate n (free_space s) = Some (Inr r, c')" "fsc_inv c'"
    and r: "case r of None \<Rightarrow> free_set c' = F \<and> (\<forall>x\<in>set (free_space_collection c'). fsi_length x < n)
       | Some bo \<Rightarrow> valid_region bo n \<and> region bo n \<subseteq> F \<and> free_set c' = F - region bo n"
    using F(1) by blast
  let ?t = "free_space_update (\<lambda>_. c') s"
  show "\<exists>bo s'. allocate_or_append n s = Some (Inr bo, s') \<and> (world_intact ssl s' \<longrightarrow> valid_region bo n
      \<and> (region bo n \<subseteq> F \<or> lin bo = length m) \<and> heap ssl s' m (F - region bo n))"
  proof (cases r)
    case (Some bo)
    then have "heap ssl ?t m (F - region bo n)" using r F(2) by (intro heap_free_space [OF h a(2)]) auto
    then show ?thesis
      using Some r a(1) by (auto simp: allocate_or_append_def in_free_space_def zoom_def bindM_def ret_def)
  next
    case None
    then have h': "heap ssl ?t m F" using r F(2) by (intro heap_free_space [OF h a(2)]) auto
    from cursor_run [OF this] obtain bo where bo: "block_offset_for_appending ?t = Some (Inr bo, ?t)" "wf_offset bo" "lin bo = length m"
      by blast
    then have "F - region bo n = F" using F(2) by (auto simp: region_def)
    then show ?thesis
      using None bo a(1) h' n by (auto simp: allocate_or_append_def in_free_space_def zoom_def bindM_def valid_region_def)
  qed
qed

lemma heap_collect:
  assumes "valid_region bo n" and "region bo n \<inter> F = {}" and "lin bo + n \<le> length m"
  shows "triple (world_intact ssl) (\<lambda>s :: 'z data_node_io_scheme. heap ssl s m F) (in_free_space (collect bo n))
    (\<lambda>_ s. heap ssl s m (F \<union> region bo n))"
proof (rule triple_run)
  fix s :: "'z data_node_io_scheme" assume h: "heap ssl s m F"
  then have inv: "fsc_inv (free_space s)" and F: "free_set (free_space s) = F" "F \<subseteq> {..<length m}" by (simp_all add: heap_def)
  from collect_run [OF inv assms(1)] obtain c' where c: "collect bo n (free_space s) = Some (Inr (), c')" "fsc_inv c'"
      "free_set c' = F \<union> region bo n"
    using F(1) assms(2) by blast
  have "region bo n \<subseteq> {..<length m}" using assms(3) by (auto simp: region_def)
  then have "heap ssl (free_space_update (\<lambda>_. c') s) m (F \<union> region bo n)" using F(2) c(3) by (intro heap_free_space [OF h c(2)]) auto
  then show "\<exists>x s'. in_free_space (collect bo n) s = Some (Inr x, s') \<and> (world_intact ssl s' \<longrightarrow> heap ssl s' m (F \<union> region bo n))"
    using c(1) by (simp add: in_free_space_def zoom_def)
qed

text \<open>
  Before a node is split, the rest of an append block with too little space for a node is given to the
  collector, and a new block is appended.
\<close>

lemma dn_core_consume:
  assumes core: "dn_core ssl s Ms A"
  defines "dn \<equiv> data_nodes s ! append_dn s"
  shows "dn_core ssl (s\<lparr>data_nodes := (data_nodes s)[append_dn s := dn\<lparr>dn_free_bytes := 0\<rparr>]\<rparr>) Ms 0"
proof -
  let ?k = "length Ms - 1"
  obtain bce where b: "map_of (block_cache s) ?k = Some bce" "slot bce = append_dn s" "pinned bce"
    and c: "contents ssl s Ms" and ne: "Ms \<noteq> []" using core by (auto simp: dn_core_def)
  have k: "?k < length Ms" using ne by simp
  have "block_ok ssl s ?k (Ms ! ?k)" using c k by (simp add: contents_def)
  then have h: "holds dn ?k (Ms ! ?k)" "length (Ms ! ?k) = 8184" using b by (auto simp: block_ok_def dn_def)
  then have "holds (dn\<lparr>dn_free_bytes := 0\<rparr>) ?k (Ms ! ?k)" by (auto simp: holds_def wf_data_node_def)
  from contents_modify [OF c b(1) k this h(2), of bce] b(1,2) c
  have "contents ssl (s\<lparr>data_nodes := (data_nodes s)[append_dn s := dn\<lparr>dn_free_bytes := 0\<rparr>]\<rparr>) Ms"
    by (simp add: map_put_same contents_def slots_ok_def list_update_id)
  moreover have "append_dn s < length (data_nodes s)" using contents_slot [OF c b(1)] b(2) by simp
  ultimately show ?thesis using core b by (simp add: dn_core_def idle_def)
qed

lemma dn_core_free_space [simp]: "dn_core ssl (free_space_update f s) = dn_core ssl s"
  by (intro ext) (simp add: dn_core_def idle_def)

lemma consume_run:
  assumes h: "heap ssl s m F" and at: "dn_at ssl s Ms (length m)" and A: "A = 8184 * length Ms - length m" "0 < A" "A < 32"
    and lim: "length m + 32 < 4294967296"
  shows "\<exists>u. consume_add_and_init_append_data_node ssl s = add_and_init_append_data_node ssl u \<and> dn_core ssl u Ms 0
    \<and> fsc_inv (free_space u) \<and> free_set (free_space u) = F \<union> {length m..<8184 * length Ms}"
proof -
  let ?dn = "data_nodes s ! append_dn s"
  have core: "dn_core ssl s Ms A" using at A by (simp add: dn_at_def dn_inv_def)
  then have free: "dn_free_bytes ?dn = A" by (simp add: dn_core_def)
  from cursor_run [OF h] obtain bo where bo: "block_offset_for_appending s = Some (Inr bo, s)" "wf_offset bo" "lin bo = length m" by blast
  have reg: "region bo A = {length m..<8184 * length Ms}" using bo(3) A by (auto simp: region_def)
  have inv: "fsc_inv (free_space s)" and F: "free_set (free_space s) = F" "F \<subseteq> {..<length m}" using h by (simp_all add: heap_def)
  have "valid_region bo A" using bo(2,3) A lim by (simp add: valid_region_def)
  moreover have "region bo A \<inter> free_set (free_space s) = {}" using F reg by auto
  ultimately obtain c' where c: "collect bo A (free_space s) = Some (Inr (), c')" "fsc_inv c'"
      "free_set c' = F \<union> {length m..<8184 * length Ms}"
    using collect_run [OF inv] F(1) reg by metis
  let ?u = "free_space_update (\<lambda>_. c') (s\<lparr>data_nodes := (data_nodes s)[append_dn s := ?dn\<lparr>dn_free_bytes := 0\<rparr>]\<rparr>)"
  have "consume_add_and_init_append_data_node ssl s = add_and_init_append_data_node ssl ?u"
    using bo(1) c(1) free A(2)
    by (simp add: consume_add_and_init_append_data_node_def in_free_space_def in_slot_def zoom_def consume_free_space_def run_defs)
      (cases s, simp)
  then show ?thesis using dn_core_consume [OF core] c by (intro exI [of _ ?u]) simp
qed

lemma heap_consume:
  assumes cr: "crypto_ok ssl" and lim: "length m + 32 < 4294967296"
  shows "triple (world_intact ssl) (\<lambda>s :: 'z data_node_io_scheme. heap ssl s m F)
    (bindM (get (\<lambda>s. dn_free_bytes (data_nodes s ! append_dn s))) (\<lambda>free. consume_add_and_init_append_data_node_cond ssl (new_trie_node_size > free)))
    (\<lambda>_ s. \<exists>m'. length m' < 32 \<and> heap ssl s (m @ m') (F \<union> {length m..<length (m @ m')}))"
proof (rule tripleI)
  fix s r and s' :: "'z data_node_io_scheme"
  assume h: "heap ssl s m F" and i: "world_intact ssl s'"
    and run: "bindM (get (\<lambda>s. dn_free_bytes (data_nodes s ! append_dn s))) (\<lambda>free. consume_add_and_init_append_data_node_cond ssl (new_trie_node_size > free)) s = Some (r, s')"
  then obtain Ms where at: "dn_at ssl s Ms (length m)" and m: "m = take (length m) (concat Ms)" by (auto simp: heap_def)
  define A where "A = 8184 * length Ms - length m"
  have core: "dn_core ssl s Ms A" and b: "length m \<le> 8184 * length Ms" "8184 * length Ms = length m + A"
    using at by (simp_all add: dn_at_def dn_inv_def A_def)
  have free: "dn_free_bytes (data_nodes s ! append_dn s) = A" using core by (simp add: dn_core_def)
  have size: "new_trie_node_size = 32"
    by (simp add: new_trie_node_size_def sizeof_trie_node_h_with_nc_t_def sizeof_trie_node_header_t_def MAX_KEY_CHUNK_BYTE_SIZE_def)
  show "\<exists>x. r = Inr x \<and> (\<exists>m'. length m' < 32 \<and> heap ssl s' (m @ m') (F \<union> {length m..<length (m @ m')}))"
  proof (cases "A < 32")
    case False
    then have "r = Inr ()" "s' = s"
      using run free size by (auto simp: run_defs consume_add_and_init_append_data_node_cond_def)
    then show ?thesis using h by (intro exI [of _ "()"]) (auto intro!: exI [of _ "[]"])
  next
    case True
    have inv: "fsc_inv (free_space s)" and F: "free_set (free_space s) = F" "F \<subseteq> {..<length m}" using h by (simp_all add: heap_def)
    have run': "consume_add_and_init_append_data_node ssl s = Some (r, s')"
      using run free size True by (simp add: run_defs consume_add_and_init_append_data_node_cond_def)
    obtain u where u: "add_and_init_append_data_node ssl u = Some (r, s')" "dn_core ssl u Ms 0"
        "fsc_inv (free_space u)" "free_set (free_space u) = F \<union> {length m..<8184 * length Ms}"
    proof (cases "A = 0")
      case True
      then have "consume_add_and_init_append_data_node ssl s = add_and_init_append_data_node ssl s"
        using free by (simp add: consume_add_and_init_append_data_node_def block_offset_for_appending_def run_defs)
      then show ?thesis using that [of s] run' core inv F b True by simp
    next
      case False
      with consume_run [OF h at A_def _ \<open>A < 32\<close> lim] run' that show ?thesis by auto
    qed
    have "Suc (length Ms) < 2147483648" using b lim True by linarith
    from tripleD [OF add_and_init_triple [OF cr this] conjI [OF refl conjI [OF u(2)]] u(1) i]
    have r: "r = Inr ()" "dn_inv ssl s' (Ms @ [zero_block]) 8184" "free_space s' = free_space u" by auto
    let ?m' = "drop (length m) (concat Ms)"
    have len: "length (concat Ms) = 8184 * length Ms" using length_concat_blocks [OF dn_at_blocks [OF at]] .
    have mm: "m @ ?m' = concat Ms" using m append_take_drop_id [of "length m" "concat Ms"] by simp
    have "dn_at ssl s' (Ms @ [zero_block]) (length (m @ ?m'))" using r(2) by (simp only: mm len) (simp add: dn_at_def)
    then have "heap ssl s' (m @ ?m') (F \<union> {length m..<length (m @ ?m')})"
      unfolding heap_def mm len using u r(3) F(2) b True lim
      by (auto simp: len intro!: exI [of _ "Ms @ [zero_block]"])
    then show ?thesis using r(1) b True len by (intro exI [of _ "()"]) (auto intro!: exI [of _ ?m'])
  qed
qed

section \<open>Operations on the memory\<close>

text \<open>
  \<open>yields ssl m F op Q\<close>: run on the memory \<open>m\<close> with the free positions \<open>F\<close>, the operation gives a result, a
  memory and free positions with \<open>Q\<close>, unless hashes of blocks collide.
\<close>

definition yields ::
    "openssl \<Rightarrow> bytes \<Rightarrow> nat set \<Rightarrow> ('z data_node_io_scheme, 'a) m \<Rightarrow> ('a \<Rightarrow> bytes \<Rightarrow> nat set \<Rightarrow> bool) \<Rightarrow> bool" where
  "yields ssl m F op Q \<longleftrightarrow>
     triple (world_intact ssl) (\<lambda>s. heap ssl s m F) op (\<lambda>x s. \<exists>m' F'. heap ssl s m' F' \<and> Q x m' F')"

lemma yields_bind:
  assumes p: "yields ssl m F p Q" and f: "\<And>x m' F'. Q x m' F' \<Longrightarrow> yields ssl m' F' (f x) R"
    and lost: "\<And>x. preserves (\<lambda>s. \<not> world_intact ssl s) (f x)"
  shows "yields ssl m F (bindM p f) R"
  unfolding yields_def
proof (rule triple_bind [OF p [unfolded yields_def] _ lost])
  fix x
  show "triple (world_intact ssl) (\<lambda>s. \<exists>m' F'. heap ssl s m' F' \<and> Q x m' F') (f x) (\<lambda>x s. \<exists>m' F'. heap ssl s m' F' \<and> R x m' F')"
    using f [unfolded yields_def] unfolding triple_def by blast
qed

lemma yields_ret: "Q x m F \<Longrightarrow> yields ssl m F (ret x) Q"
  by (auto simp: yields_def intro: triple_ret)

lemma yields_conseq: "yields ssl m F p Q \<Longrightarrow> (\<And>x m' F'. Q x m' F' \<Longrightarrow> R x m' F') \<Longrightarrow> yields ssl m F p R"
  unfolding yields_def by (erule triple_conseq) blast+

lemma yields_bounds:
  "(F \<subseteq> {..<length m} \<Longrightarrow> length m < 4294967296 \<Longrightarrow> yields ssl m F p Q) \<Longrightarrow> yields ssl m F p Q"
  unfolding yields_def triple_def using heap_bounds by blast

lemma yields_throwIf: "\<not> c \<Longrightarrow> yields ssl m F (f ()) Q \<Longrightarrow> yields ssl m F (bindM (throwIf c e) f) Q"
  by (simp add: throwIf_def)

lemma yields_read:
  assumes "crypto_ok ssl" and "wf_offset bo" and "lin bo + n \<le> length m"
  shows "yields ssl m F (read_across_data_nodes ssl bo n out) (\<lambda>r m' F'. r = out @ slice m (lin bo) n \<and> m' = m \<and> F' = F)"
  unfolding yields_def by (rule triple_conseq [OF heap_read [OF assms]]) auto

lemma yields_write:
  assumes "crypto_ok ssl" and "wf_offset bo" and "lin bo \<le> length m" and "lin bo + length b < 4294967296"
  shows "yields ssl m F (write_across_data_nodes ssl b bo) (\<lambda>_ m' F'. m' = overwrite m (lin bo) b \<and> F' = F)"
  unfolding yields_def by (rule triple_conseq [OF heap_write [OF assms]]) auto

lemma yields_alloc:
  assumes "0 < n" and "length m + n < 4294967296"
  shows "yields ssl m F (allocate_or_append n)
    (\<lambda>bo m' F'. valid_region bo n \<and> (region bo n \<subseteq> F \<or> lin bo = length m) \<and> m' = m \<and> F' = F - region bo n)"
  unfolding yields_def by (rule triple_conseq [OF heap_alloc [OF assms]]) auto

lemma yields_collect:
  assumes "valid_region bo n" and "region bo n \<inter> F = {}" and "lin bo + n \<le> length m"
  shows "yields ssl m F (in_free_space (collect bo n)) (\<lambda>_ m' F'. m' = m \<and> F' = F \<union> region bo n)"
  unfolding yields_def by (rule triple_conseq [OF heap_collect [OF assms]]) auto

lemma yields_consume:
  assumes "crypto_ok ssl" and "length m + 32 < 4294967296"
  shows "yields ssl m F
    (bindM (get (\<lambda>s. dn_free_bytes (data_nodes s ! append_dn s))) (\<lambda>free. consume_add_and_init_append_data_node_cond ssl (new_trie_node_size > free)))
    (\<lambda>_ m' F'. \<exists>z. length z < 32 \<and> m' = m @ z \<and> F' = F \<union> {length m..<length m'})"
  unfolding yields_def by (rule triple_conseq [OF heap_consume [OF assms]]) blast+

end
