(* ===== verification/Trie_Stored.thy ===== *)
theory Trie_Stored
  imports Trie_Shape Trie_Heap
begin

text \<open>
  Trees in memory. \<open>stored m t\<close> says that the nodes and values of \<open>t\<close> are in the bytes \<open>m\<close> where the tree says;
  \<open>foot t\<close> are the positions they take and \<open>sep t\<close> that these do not overlap. The entries of the stack
  represent frames in the same way, except that a modified entry is newer than the memory.
\<close>

section \<open>Bytes that change\<close>

definition changed :: "bytes \<Rightarrow> bytes \<Rightarrow> nat set \<Rightarrow> bool" where
  "changed m m' R \<longleftrightarrow> length m \<le> length m' \<and> (\<forall>x < length m. x \<notin> R \<longrightarrow> m' ! x = m ! x)"

lemma changed_refl [simp]: "changed m m R"
  by (simp add: changed_def)

lemma changed_trans: "changed m m' R \<Longrightarrow> changed m' m'' R' \<Longrightarrow> changed m m'' (R \<union> R')"
  by (auto simp: changed_def)

lemma changed_mono: "changed m m' R \<Longrightarrow> R \<subseteq> R' \<Longrightarrow> changed m m' R'"
  by (auto simp: changed_def)

lemma changed_append: "changed m (m @ m') R"
  by (auto simp: changed_def nth_append)

lemma changed_overwrite: "a \<le> length m \<Longrightarrow> changed m (overwrite m a b) {a..<a + length b}"
  by (auto simp: changed_def length_overwrite_max overwrite_def nth_append min_def)

lemma slice_changed:
  assumes "changed m m' R" and "{a..<a + n} \<inter> R = {}" and "a + n \<le> length m"
  shows "slice m' a n = slice m a n"
proof (rule nth_equalityI)
  have l: "a + n \<le> length m'" using assms by (simp add: changed_def)
  then show "length (slice m' a n) = length (slice m a n)" using assms(3) by simp
  fix i assume "i < length (slice m' a n)"
  then have "i < n" using l by simp
  then have "a + i \<in> {a..<a + n}" "a + i < length m" using assms(3) by simp_all
  then have "a + i \<notin> R" "a + i < length m" using assms(2) by blast+
  then show "slice m' a n ! i = slice m a n ! i"
    using assms(1,3) l \<open>i < n\<close> by (simp add: nth_slice changed_def)
qed

lemma slice_overwrite: "a \<le> length m \<Longrightarrow> slice (overwrite m a b) a (length b) = b"
  by (simp add: slice_def overwrite_def)

section \<open>Nodes as bytes\<close>

lemma header_roundtrip: "keyChunkSize h < 16 \<Longrightarrow> header_of_byte (header_byte h) = h"
proof -
  assume s: "keyChunkSize h < 16"
  let ?n = "of_bool (isDeleted h) + 2 * of_bool (hasNext h) + 4 * of_bool (hasChild h) + 8 * of_bool (isValue h) + 16 * keyChunkSize h"
  have byte: "unat (word_of_nat x :: byte) = x" if "x < 256" for x
    using that by (simp add: unsigned_of_nat take_bit_eq_mod)
  have "?n < 256" using s by (auto simp: of_bool_def)
  from byte [OF this] have u: "unat (header_byte h) = ?n" using s by (simp only: header_byte_def mod_less)
  have bits: "bit (header_byte h) i \<longleftrightarrow> odd (?n div 2 ^ i)" if "i < 8" for i
  proof -
    have "bit (unat (header_byte h)) i \<longleftrightarrow> bit (header_byte h) i" using that by (simp add: bit_unsigned_iff)
    then show ?thesis unfolding u bit_iff_odd by simp
  qed
  have half: "(of_bool b + 2 * x) div 2 = (x :: nat)" "odd (of_bool b + 2 * x) = b" for b and x :: nat by (cases b; simp)+
  have n: "?n = of_bool (isDeleted h) + 2 * (of_bool (hasNext h) + 2 * (of_bool (hasChild h) + 2 * (of_bool (isValue h) + 2 * keyChunkSize h)))"
    by simp
  have d: "x div 4 = x div 2 div 2" "x div 8 = x div 2 div 2 div 2" "x div 16 = x div 2 div 2 div 2 div 2" for x :: nat
    by (simp_all flip: div_mult2_eq)
  have "?n div 16 = keyChunkSize h" unfolding n d half ..
  moreover have "odd ?n = isDeleted h" "odd (?n div 2) = hasNext h" "odd (?n div 4) = hasChild h" "odd (?n div 8) = isValue h"
    unfolding n d half by (rule refl)+
  ultimately show ?thesis
    using bits [of 0] bits [of 1] bits [of 2] bits [of 3] u by (cases h) (simp add: header_of_byte_def)
qed

text \<open>What the code looks at in a node: the chunk and the two offsets.\<close>

definition node_is :: "trie_node_h_with_ncc_t \<Rightarrow> bytes \<Rightarrow> block_offset_t \<Rightarrow> block_offset_t \<Rightarrow> bool" where
  "node_is nd ch nx cd \<longleftrightarrow> keyChunkSize (hdr nd) = length ch \<and> length ch \<le> 15 \<and> length (key_chunk nd) = 15
     \<and> take (length ch) (key_chunk nd) = ch \<and> next_offset nd = nx \<and> child_offset nd = cd \<and> bo_u32 nx \<and> bo_u32 cd"

lemma length_node_image [simp]: "node_is nd ch nx cd \<Longrightarrow> length (node_image nd) = 32"
  by (simp add: node_image_def node_is_def)

lemma offset_of_to_ByteArray: "bo_u32 bo \<Longrightarrow> offset_of_image (to_ByteArray bo) = bo"
  by (cases bo) (simp add: offset_of_image_def to_ByteArray_def bo_u32_def)

lemma node_roundtrip: "node_is nd ch nx cd \<Longrightarrow> node_of_image (node_image nd) = nd"
proof -
  assume n: "node_is nd ch nx cd"
  then have "keyChunkSize (hdr nd) < 16" by (simp add: node_is_def)
  with n show ?thesis
    by (cases nd) (simp add: node_of_image_def node_image_def header_roundtrip offset_of_to_ByteArray node_is_def)
qed

definition placed :: "bytes \<Rightarrow> block_offset_t \<Rightarrow> nat \<Rightarrow> bool" where
  "placed m bo n \<longleftrightarrow> valid_region bo n \<and> lin bo + n \<le> length m"

definition node_at :: "bytes \<Rightarrow> block_offset_t \<Rightarrow> bytes \<Rightarrow> block_offset_t \<Rightarrow> block_offset_t \<Rightarrow> bool" where
  "node_at m bo ch nx cd \<longleftrightarrow> placed m bo 32 \<and> node_is (node_of_image (slice m (lin bo) 32)) ch nx cd"

definition value_image :: "bytes \<Rightarrow> bytes" where
  "value_image v = header_byte (empty_trie_header\<lparr>isValue := True\<rparr>) # le_bytes 8 (length v) @ v"

definition value_at :: "bytes \<Rightarrow> block_offset_t \<Rightarrow> bytes \<Rightarrow> bool" where
  "value_at m vb v \<longleftrightarrow> placed m vb (9 + length v) \<and> slice m (lin vb) (9 + length v) = value_image v"

lemma placed_not_empty: "placed m bo n \<Longrightarrow> bo \<noteq> empty_block_offset"
  by (auto simp: placed_def valid_region_def wf_offset_def empty_block_offset_def)

lemma bo_u32_valid: "valid_region bo n \<Longrightarrow> bo_u32 bo"
  by (auto simp: valid_region_def bo_u32_def wf_offset_def lin_def)

lemma bo_u32_empty [simp]: "bo_u32 empty_block_offset"
  by (simp add: bo_u32_def empty_block_offset_def)

lemma placed_changed: "placed m bo n \<Longrightarrow> changed m m' R \<Longrightarrow> placed m' bo n"
  by (auto simp: placed_def changed_def)

lemma node_at_changed:
  "node_at m bo ch nx cd \<Longrightarrow> changed m m' R \<Longrightarrow> region bo 32 \<inter> R = {} \<Longrightarrow> node_at m' bo ch nx cd"
  using slice_changed [of m m' R "lin bo" 32] placed_changed [of m bo 32 m' R]
  by (simp add: node_at_def placed_def region_def)

lemma value_at_changed:
  "value_at m vb v \<Longrightarrow> changed m m' R \<Longrightarrow> region vb (9 + length v) \<inter> R = {} \<Longrightarrow> value_at m' vb v"
  using slice_changed [of m m' R "lin vb" "9 + length v"] placed_changed [of m vb "9 + length v" m' R]
  by (simp add: value_at_def placed_def region_def)

section \<open>Trees in memory\<close>

fun stored :: "bytes \<Rightarrow> tree \<Rightarrow> bool" where
  "stored m Tip \<longleftrightarrow> True"
| "stored m (Branch bo ch c n) \<longleftrightarrow> node_at m bo ch (loc n) (loc c) \<and> stored m c \<and> stored m n"
| "stored m (Leaf bo vb v n) \<longleftrightarrow> node_at m bo [] (loc n) vb \<and> value_at m vb v \<and> stored m n"

fun foot :: "tree \<Rightarrow> nat set" where
  "foot Tip = {}"
| "foot (Branch bo ch c n) = region bo 32 \<union> foot c \<union> foot n"
| "foot (Leaf bo vb v n) = region bo 32 \<union> region vb (9 + length v) \<union> foot n"

fun sep :: "tree \<Rightarrow> bool" where
  "sep Tip \<longleftrightarrow> True"
| "sep (Branch bo ch c n) \<longleftrightarrow> region bo 32 \<inter> (foot c \<union> foot n) = {} \<and> foot c \<inter> foot n = {} \<and> sep c \<and> sep n"
| "sep (Leaf bo vb v n) \<longleftrightarrow> region bo 32 \<inter> (region vb (9 + length v) \<union> foot n) = {}
     \<and> region vb (9 + length v) \<inter> foot n = {} \<and> sep n"

lemma stored_changed: "stored m t \<Longrightarrow> changed m m' R \<Longrightarrow> foot t \<inter> R = {} \<Longrightarrow> stored m' t"
proof (induction t)
  case (Branch bo ch c n)
  then have "foot c \<inter> R = {}" "foot n \<inter> R = {}" "region bo 32 \<inter> R = {}" by auto
  with Branch show ?case using node_at_changed [of m bo ch "loc n" "loc c" m' R] by simp
next
  case (Leaf bo vb v n)
  then have "foot n \<inter> R = {}" "region bo 32 \<inter> R = {}" "region vb (9 + length v) \<inter> R = {}" by auto
  with Leaf show ?case using node_at_changed [of m bo "[]" "loc n" vb m' R] value_at_changed [of m vb v m' R] by simp
qed simp

lemma placed_region: "placed m bo n \<Longrightarrow> region bo n \<subseteq> {..<length m}"
  by (auto simp: placed_def region_def)

lemma stored_bound: "stored m t \<Longrightarrow> foot t \<subseteq> {..<length m}"
proof (induction t)
  case (Branch bo ch c n)
  then show ?case using placed_region [of m bo 32] by (simp add: node_at_def)
next
  case (Leaf bo vb v n)
  then show ?case
    using placed_region [of m bo 32] placed_region [of m vb "9 + length v"] by (simp add: node_at_def value_at_def)
qed simp

lemma loc_empty: "stored m t \<Longrightarrow> loc t = empty_block_offset \<longleftrightarrow> t = Tip"
  using placed_not_empty by (cases t) (auto simp: node_at_def)

lemma loc_u32: "stored m t \<Longrightarrow> bo_u32 (loc t)"
  by (cases t) (auto simp: node_at_def placed_def dest: bo_u32_valid)

section \<open>The stack\<close>

fun fchunk :: "frame \<Rightarrow> bytes" where
  "fchunk (NextB _ ch _) = ch"
| "fchunk (NextL _ _ _) = []"
| "fchunk (Child _ ch _) = ch"

fun to_next :: "frame \<Rightarrow> bool" where
  "to_next (Child _ _ _) \<longleftrightarrow> False"
| "to_next _ \<longleftrightarrow> True"

text \<open>The two offsets of a frame's node, when the one that leads to the hole is \<open>off\<close>.\<close>

fun fnext :: "frame \<Rightarrow> block_offset_t \<Rightarrow> block_offset_t" where
  "fnext (Child _ _ n) off = loc n"
| "fnext _ off = off"

fun fchild :: "frame \<Rightarrow> block_offset_t \<Rightarrow> block_offset_t" where
  "fchild (NextB _ _ c) off = loc c"
| "fchild (NextL _ vb _) off = vb"
| "fchild (Child _ _ _) off = off"

fun side_stored :: "bytes \<Rightarrow> frame \<Rightarrow> bool" where
  "side_stored m (NextB _ _ c) \<longleftrightarrow> stored m c"
| "side_stored m (NextL _ vb v) \<longleftrightarrow> value_at m vb v"
| "side_stored m (Child _ _ n) \<longleftrightarrow> stored m n"

fun side_foot :: "frame \<Rightarrow> nat set" where
  "side_foot (NextB _ _ c) = foot c"
| "side_foot (NextL _ vb v) = region vb (9 + length v)"
| "side_foot (Child _ _ n) = foot n"

fun side_sep :: "frame \<Rightarrow> bool" where
  "side_sep (NextB _ _ c) \<longleftrightarrow> sep c"
| "side_sep (NextL _ _ _) \<longleftrightarrow> True"
| "side_sep (Child _ _ n) \<longleftrightarrow> sep n"

definition nfoot :: "block_offset_t \<Rightarrow> nat set" where
  "nfoot bo = (if bo = empty_block_offset then {} else region bo 32)"

definition ffoot :: "frame \<Rightarrow> nat set" where
  "ffoot f = nfoot (fbo f) \<union> side_foot f"

definition node_rep :: "bytes \<Rightarrow> trie_node \<Rightarrow> block_offset_t \<Rightarrow> bytes \<Rightarrow> block_offset_t \<Rightarrow> block_offset_t \<Rightarrow> bool" where
  "node_rep m n bo ch nx cd \<longleftrightarrow> tn_initialized n \<and> location n = bo \<and> node_is (node n) ch nx cd
     \<and> (bo = empty_block_offset \<longrightarrow> tn_modified n) \<and> (bo \<noteq> empty_block_offset \<longrightarrow> placed m bo 32)
     \<and> (\<not> tn_modified n \<longrightarrow> node_at m bo ch nx cd)"

definition item_rep :: "bytes \<Rightarrow> frame \<Rightarrow> block_offset_t \<Rightarrow> recursive_item \<Rightarrow> bool" where
  "item_rep m f off it \<longleftrightarrow> node_rep m (ri_node it) (fbo f) (fchunk f) (fnext f off) (fchild f off)
     \<and> go_next it = to_next f \<and> side_stored m f \<and> side_sep f \<and> nfoot (fbo f) \<inter> side_foot f = {}"

definition root_bo :: block_offset_t where
  "root_bo = \<lparr>block_num = get_root_block_num, bytes = data_begin_index\<rparr>"

fun stack_rep :: "bytes \<Rightarrow> frame list \<Rightarrow> block_offset_t \<Rightarrow> recursive_item list \<Rightarrow> bool" where
  "stack_rep m [] off its \<longleftrightarrow> (\<exists>it. its = [it] \<and> node_rep m (ri_node it) root_bo [] off empty_block_offset \<and> go_next it)"
| "stack_rep m (f # fs) off its \<longleftrightarrow> (\<exists>it its'. its = it # its' \<and> item_rep m f off it \<and> stack_rep m fs (fbo f) its')"

fun ctx_foot :: "frame list \<Rightarrow> nat set" where
  "ctx_foot [] = region root_bo 32"
| "ctx_foot (f # fs) = ffoot f \<union> ctx_foot fs"

fun ctx_sep :: "frame list \<Rightarrow> bool" where
  "ctx_sep [] \<longleftrightarrow> True"
| "ctx_sep (f # fs) \<longleftrightarrow> ffoot f \<inter> ctx_foot fs = {} \<and> ctx_sep fs"

lemma length_stack: "stack_rep m fs off its \<Longrightarrow> length its = Suc (length fs)"
  by (induction fs arbitrary: off its) auto

lemma node_rep_changed:
  "node_rep m n bo ch nx cd \<Longrightarrow> changed m m' R \<Longrightarrow> nfoot bo \<inter> R = {} \<Longrightarrow> node_rep m' n bo ch nx cd"
  by (auto simp: node_rep_def nfoot_def placed_changed node_at_changed split: if_splits)

lemma item_rep_changed:
  assumes "item_rep m f off it" and "changed m m' R" and "ffoot f \<inter> R = {}"
  shows "item_rep m' f off it"
proof -
  have d: "nfoot (fbo f) \<inter> R = {}" "side_foot f \<inter> R = {}" using assms(3) by (auto simp: ffoot_def)
  have "side_stored m' f"
    using assms(1,2) d(2) by (cases f) (auto simp: item_rep_def stored_changed value_at_changed)
  with assms(1) node_rep_changed [OF _ assms(2) d(1)] show ?thesis by (simp add: item_rep_def)
qed

lemma stack_rep_changed:
  "stack_rep m fs off its \<Longrightarrow> changed m m' R \<Longrightarrow> ctx_foot fs \<inter> R = {} \<Longrightarrow> stack_rep m' fs off its"
proof (induction fs arbitrary: off its)
  case Nil
  have "nfoot root_bo = region root_bo 32" by (simp add: nfoot_def root_bo_def empty_block_offset_def data_begin_index_def)
  with Nil show ?case using node_rep_changed by fastforce
next
  case (Cons f fs)
  then have "ffoot f \<inter> R = {}" "ctx_foot fs \<inter> R = {}" by auto
  with Cons item_rep_changed [OF _ Cons.prems(2)] show ?case by fastforce
qed

lemma placed_root: "stack_rep m fs off its \<Longrightarrow> placed m root_bo 32"
proof (induction fs arbitrary: off its)
  case Nil
  then show ?case by (auto simp: node_rep_def root_bo_def empty_block_offset_def data_begin_index_def)
qed auto

lemma ctx_bound: "stack_rep m fs off its \<Longrightarrow> ctx_foot fs \<subseteq> {..<length m}"
proof (induction fs arbitrary: off its)
  case Nil
  then show ?case using placed_region [OF placed_root] by fastforce
next
  case (Cons f fs)
  then obtain it its' where it: "item_rep m f off it" and r: "stack_rep m fs (fbo f) its'" by auto
  have "nfoot (fbo f) \<subseteq> {..<length m}" using it placed_region by (auto simp: item_rep_def node_rep_def nfoot_def)
  moreover have "side_foot f \<subseteq> {..<length m}"
    using it stored_bound placed_region by (cases f) (auto simp: item_rep_def value_at_def)
  ultimately show ?case using Cons.IH [OF r] by (simp add: ffoot_def)
qed

end
