(* ===== verification/Trie_Ops.thy ===== *)
theory Trie_Ops
  imports Trie_Stored
begin

text \<open>
  The operations on nodes and values as operations on trees in memory: reading and writing a node,
  reading, writing and deleting a value, and the second loop of the code, which puts the changed
  nodes back and links them.
\<close>

section \<open>Lost collisions stay lost\<close>

lemma lost_consume [preserve_intros]:
  "preserves (\<lambda>s. \<not> world_intact ssl' s) (consume_add_and_init_append_data_node_cond ssl c)"
  unfolding consume_add_and_init_append_data_node_cond_def consume_add_and_init_append_data_node_def block_offset_for_appending_def
  by (intro preserve_intros)

lemma lost_nodes [preserve_intros]:
  "preserves (\<lambda>s. \<not> world_intact ssl' s) (allocate_or_append n)"
  "preserves (\<lambda>s. \<not> world_intact ssl' s) (read_trie_node ssl bo nd)"
  "preserves (\<lambda>s. \<not> world_intact ssl' s) (first_byte b)"
  unfolding allocate_or_append_def read_trie_node_def first_byte_def block_offset_for_appending_def
  by (intro preserve_intros)+

lemma lost_write_node [preserve_intros]: "preserves (\<lambda>s. \<not> world_intact ssl' s) (write_trie_node ssl nd)"
  unfolding write_trie_node_def by (intro preserve_intros)

lemma lost_value_info [preserve_intros]: "preserves (\<lambda>s. \<not> world_intact ssl' s) (do_read_value_info ssl bo)"
  unfolding do_read_value_info_def Let_def by (intro preserve_intros)

lemma lost_values [preserve_intros]:
  "preserves (\<lambda>s. \<not> world_intact ssl' s) (do_read_value ssl nd v)"
  "preserves (\<lambda>s. \<not> world_intact ssl' s) (do_delete_value ssl nd)"
  unfolding do_read_value_def do_delete_value_def by (intro preserve_intros)+

lemma lost_changes [preserve_intros]:
  "preserves (\<lambda>s. \<not> world_intact ssl' s) (do_write_value ssl nd v)"
  "preserves (\<lambda>s. \<not> world_intact ssl' s) (do_split_trie_node ssl uninit nd spl)"
  "preserves (\<lambda>s. \<not> world_intact ssl' s) (delete_trie_node_childless ssl nd)"
  unfolding do_write_value_def do_split_trie_node_def delete_trie_node_childless_def Let_def by (intro preserve_intros)+

lemma lost_settle [preserve_intros]: "preserves (\<lambda>s. \<not> world_intact ssl' s) (settle ssl operation left n)"
  unfolding settle_def by (intro preserve_intros)

lemma lost_unwind [preserve_intros]: "preserves (\<lambda>s. \<not> world_intact ssl' s) (unwind ssl operation its)"
proof (induction ssl operation its rule: unwind.induct)
  case (3 ssl operation ri prev stack)
  then show ?case by (simp del: length_Cons) (intro preserve_intros)
qed (simp_all, (intro preserve_intros)+)

section \<open>Nodes\<close>

lemma size_32 [simp]: "new_trie_node_size = 32" "sizeof_trie_node_h_with_ncc_t = 32"
  by (simp_all add: new_trie_node_size_def sizeof_trie_node_h_with_ncc_t_def sizeof_trie_node_h_with_nc_t_def
      sizeof_trie_node_header_t_def MAX_KEY_CHUNK_BYTE_SIZE_def)

lemma yields_read_node:
  assumes cr: "crypto_ok ssl" and n: "node_at m bo ch nx cd"
  shows "yields ssl m F (read_trie_node ssl bo n0) (\<lambda>n m' F'. node_rep m n bo ch nx cd \<and> \<not> tn_modified n \<and> m' = m \<and> F' = F)"
  unfolding read_trie_node_def
proof (rule yields_bind [OF yields_read [OF cr]])
  show p: "wf_offset bo" "lin bo + sizeof_trie_node_h_with_ncc_t \<le> length m" using n by (simp_all add: node_at_def placed_def valid_region_def)
  fix b m' F'
  assume b: "b = [] @ slice m (lin bo) sizeof_trie_node_h_with_ncc_t \<and> m' = m \<and> F' = F"
  then have "length b = 32" "b = slice m (lin bo) 32" using p by simp_all
  then show "yields ssl m' F' (bindM (throwIf (length b \<noteq> sizeof_trie_node_h_with_ncc_t) (RuntimeError ''unable to read trie node''))
      (\<lambda>_. ret (n0\<lparr>node := node_of_image b, location := bo, tn_modified := False, tn_initialized := True\<rparr>)))
      (\<lambda>n m' F'. node_rep m n bo ch nx cd \<and> \<not> tn_modified n \<and> m' = m \<and> F' = F)"
    using n b placed_not_empty [of m bo 32]
    by (intro yields_throwIf yields_ret) (auto simp: node_rep_def node_at_def)
qed (intro preserve_intros)

text \<open>Space that was free or lies behind the end.\<close>

definition fresh :: "bytes \<Rightarrow> nat set \<Rightarrow> nat set \<Rightarrow> bool" where
  "fresh m F R \<longleftrightarrow> R \<subseteq> F \<union> {length m..}"

lemma fresh_region: "region bo n \<subseteq> F \<or> lin bo = length m \<Longrightarrow> fresh m F (region bo n)"
  by (auto simp: fresh_def region_def)

lemma fresh_disjoint: "fresh m F R \<Longrightarrow> A \<subseteq> {..<length m} \<Longrightarrow> A \<inter> F = {} \<Longrightarrow> R \<inter> A = {}"
  by (fastforce simp: fresh_def)

lemma alloc_inside:
  assumes "region bo n \<subseteq> F \<or> lin bo = length m" and "F \<subseteq> {..<length m}" and "0 < n"
  shows "lin bo \<le> length m"
proof -
  have "lin bo \<in> region bo n" using assms(3) by (simp add: region_def)
  with assms(1,2) show ?thesis by fastforce
qed

definition wrote :: "bytes \<Rightarrow> nat set \<Rightarrow> trie_node \<Rightarrow> trie_node \<Rightarrow> bytes \<Rightarrow> nat set \<Rightarrow> bool" where
  "wrote m F n n' m' F' \<longleftrightarrow> n' = n\<lparr>location := location n', tn_modified := False\<rparr>
     \<and> changed m m' (region (location n') 32) \<and> length m' \<le> length m + (if location n = empty_block_offset then 32 else 0)
     \<and> (if location n = empty_block_offset then fresh m F (region (location n') 32) \<and> F' = F - region (location n') 32
        else location n' = location n \<and> F' = F)"

lemma node_at_overwrite:
  assumes "node_is nd ch nx cd" and "valid_region bo 32" and "lin bo \<le> length m"
  shows "node_at (overwrite m (lin bo) (node_image nd)) bo ch nx cd"
  using assms slice_overwrite [OF assms(3), of "node_image nd"]
  by (simp add: node_at_def placed_def length_overwrite_max node_roundtrip)

lemma yields_write_node:
  assumes cr: "crypto_ok ssl" and n: "node_is (node n) ch nx cd" and old: "location n \<noteq> empty_block_offset \<longrightarrow> placed m (location n) 32"
    and lim: "location n = empty_block_offset \<longrightarrow> length m + 32 < 4294967296"
  shows "yields ssl m F (write_trie_node ssl n) (\<lambda>n' m' F'. node_at m' (location n') ch nx cd \<and> wrote m F n n' m' F')"
  unfolding write_trie_node_def
proof (rule yields_bounds, intro yields_bind)
  assume sub: "F \<subseteq> {..<length m}"
  let ?Q = "\<lambda>bo m' F'. valid_region bo 32 \<and> lin bo \<le> length m \<and> m' = m \<and>
      (if location n = empty_block_offset then fresh m F (region bo 32) \<and> F' = F - region bo 32
       else bo = location n \<and> lin bo + 32 \<le> length m \<and> F' = F)"
  show "yields ssl m F (if is_empty (location n) then allocate_or_append new_trie_node_size else ret (location n)) ?Q"
  proof (cases "location n = empty_block_offset")
    case True
    then have "yields ssl m F (allocate_or_append 32) ?Q"
      using lim alloc_inside [where n = 32, OF _ sub] fresh_region [of _ 32 F m] by (intro yields_conseq [OF yields_alloc]) auto
    then show ?thesis using True by (simp add: is_empty_def)
  next
    case False
    then show ?thesis using old by (auto simp: is_empty_def placed_def intro!: yields_ret)
  qed
  fix bo m' F' assume bo: "?Q bo m' F'"
  have img: "length (node_image (node n)) = 32" using n by simp
  have "lin bo + length (node_image (node n)) < 4294967296" using bo img by (simp add: valid_region_def)
  then show "yields ssl m' F' (write_across_data_nodes ssl (node_image (node n)) bo)
      (\<lambda>_ m' F'. m' = overwrite m (lin bo) (node_image (node n)) \<and> ?Q bo m F')"
    using bo by (intro yields_conseq [OF yields_write [OF cr]]) (auto simp: valid_region_def)
  fix x :: unit and m2 F2 assume m2: "m2 = overwrite m (lin bo) (node_image (node n)) \<and> ?Q bo m F2"
  have "changed m m2 (region bo 32)" using m2 changed_overwrite [of "lin bo" m "node_image (node n)"] img by (simp add: region_def)
  moreover have "node_at m2 bo ch nx cd" using m2 node_at_overwrite [OF n, of bo m] by simp
  ultimately show "yields ssl m2 F2 (ret (n\<lparr>location := bo, tn_modified := False\<rparr>))
      (\<lambda>n' m' F'. node_at m' (location n') ch nx cd \<and> wrote m F n n' m' F')"
    using m2 img by (intro yields_ret) (auto simp: wrote_def length_overwrite_max)
qed (intro preserve_intros)+

section \<open>Values\<close>

lemma value_parts:
  assumes "value_at m vb v"
  shows "slice m (lin vb) 1 = [header_byte (empty_trie_header\<lparr>isValue := True\<rparr>)]" "slice m (lin vb + 1) 8 = le_bytes 8 (length v)"
    "slice m (lin vb + 9) (length v) = v"
proof -
  have "slice m (lin vb) (1 + 8 + length v) = value_image v" and len: "lin vb + 9 + length v \<le> length m"
    using assms by (simp_all add: value_at_def placed_def add.assoc)
  then have "slice m (lin vb) 1 @ slice m (lin vb + 1) 8 @ slice m (lin vb + 9) (length v)
      = [header_byte (empty_trie_header\<lparr>isValue := True\<rparr>)] @ le_bytes 8 (length v) @ v"
    by (simp only: slice_add value_image_def append_assoc append_Cons append_Nil add.assoc) simp
  then show "slice m (lin vb) 1 = [header_byte (empty_trie_header\<lparr>isValue := True\<rparr>)]" "slice m (lin vb + 1) 8 = le_bytes 8 (length v)"
    "slice m (lin vb + 9) (length v) = v"
    using len by (simp_all add: append_eq_append_conv del: One_nat_def append_Cons append_Nil)
qed

lemma advance_region:
  assumes "valid_region bo k" and "n \<le> k"
  shows "wf_offset (advance_block_offset bo n) \<and> lin (advance_block_offset bo n) = lin bo + n"
  using advance_block_offset_lin [of bo n] assms canonical_wf by (auto simp: valid_region_def addr_limit_def)

lemma value_header: "isValue (header_of_byte (header_byte (empty_trie_header\<lparr>isValue := True\<rparr>)))"
  by (subst header_roundtrip) (simp_all add: empty_trie_header_def)

lemma yields_value_info:
  assumes cr: "crypto_ok ssl" and v: "value_at m vb v"
  shows "yields ssl m F (do_read_value_info ssl vb) (\<lambda>r m' F'. m' = m \<and> F' = F \<and>
    (\<exists>bo. r = (bo, [header_byte (empty_trie_header\<lparr>isValue := True\<rparr>)], length v) \<and> wf_offset bo \<and> lin bo = lin vb + 9))"
proof -
  have reg: "valid_region vb (9 + length v)" and len: "lin vb + 9 + length v \<le> length m" using v by (simp_all add: value_at_def placed_def)
  note parts = value_parts [OF v]
  let ?h = "header_byte (empty_trie_header\<lparr>isValue := True\<rparr>)" and ?b1 = "advance_block_offset vb 1"
  have b1: "wf_offset ?b1" "lin ?b1 = lin vb + 1" using advance_region [OF reg, of 1] by simp_all
  have r1: "valid_region ?b1 (8 + length v)" using b1 reg by (simp add: valid_region_def)
  have b9: "wf_offset (advance_block_offset ?b1 8)" "lin (advance_block_offset ?b1 8) = lin vb + 9" using advance_region [OF r1, of 8] b1(2) by simp_all
  have lv: "length v < 18446744073709551616" using reg by (simp add: valid_region_def)
  show ?thesis
    unfolding do_read_value_info_def Let_def
  proof (rule yields_bind [OF yields_read [OF cr]])
    fix b m' F' assume b: "b = [] @ slice m (lin vb) sizeof_trie_node_header_t \<and> m' = m \<and> F' = F"
    then have "b = [?h]" using parts(1) by (simp add: sizeof_trie_node_header_t_def)
    moreover have "yields ssl m F (bindM (read_across_data_nodes ssl ?b1 8 []) (\<lambda>z. bindM (throwIf (length z < sizeof_size_t) (Undefined ''size read past the buffer''))
          (\<lambda>_. ret (advance_block_offset ?b1 sizeof_size_t, [?h], le_nat (take sizeof_size_t z)))))
        (\<lambda>r m' F'. m' = m \<and> F' = F \<and> (\<exists>bo. r = (bo, [?h], length v) \<and> wf_offset bo \<and> lin bo = lin vb + 9))"
      by (rule yields_bind [OF yields_read [OF cr b1(1)]], use b1 len in simp,
          intro yields_throwIf yields_ret) (auto simp: sizeof_size_t_def b1(2) parts(2) lv b9 simp del: One_nat_def intro!: preserve_intros)
    ultimately show "yields ssl m' F' (bindM (first_byte b) (\<lambda>h. bindM (throwIf (\<not> isValue (header_of_byte h)) (RuntimeError ''read value, header read is not for value''))
        (\<lambda>_. bindM (read_across_data_nodes ssl (advance_block_offset vb sizeof_trie_node_header_t) sizeof_size_t [])
          (\<lambda>z. bindM (throwIf (length z < sizeof_size_t) (Undefined ''size read past the buffer''))
            (\<lambda>_. ret (advance_block_offset (advance_block_offset vb sizeof_trie_node_header_t) sizeof_size_t, b, le_nat (take sizeof_size_t z)))))))
        (\<lambda>r m' F'. m' = m \<and> F' = F \<and> (\<exists>bo. r = (bo, [?h], length v) \<and> wf_offset bo \<and> lin bo = lin vb + 9))"
      using b value_header by (simp add: first_byte_def throwIf_def sizeof_trie_node_header_t_def sizeof_size_t_def)
  qed (use reg len in \<open>auto simp: valid_region_def sizeof_trie_node_header_t_def intro!: preserve_intros\<close>)
qed

lemma yields_read_value:
  assumes cr: "crypto_ok ssl" and v: "value_at m (child_offset (node nd)) v"
  shows "yields ssl m F (do_read_value ssl nd []) (\<lambda>r m' F'. r = v \<and> m' = m \<and> F' = F)"
  unfolding do_read_value_def
proof (intro yields_throwIf yields_bind [OF yields_value_info [OF cr v]])
  show "\<not> is_empty (child_offset (node nd))"
    using v placed_not_empty [of m "child_offset (node nd)" "9 + length v"] by (auto simp: value_at_def is_empty_def)
  have len: "lin (child_offset (node nd)) + 9 + length v \<le> length m" "length v < 4294967296"
    using v by (simp_all add: value_at_def placed_def valid_region_def)
  fix r m' F' assume "m' = m \<and> F' = F \<and> (\<exists>bo. r = (bo, [header_byte (empty_trie_header\<lparr>isValue := True\<rparr>)], length v)
      \<and> wf_offset bo \<and> lin bo = lin (child_offset (node nd)) + 9)"
  then obtain bo where r: "m' = m" "F' = F" "r = (bo, [header_byte (empty_trie_header\<lparr>isValue := True\<rparr>)], length v)" "wf_offset bo"
      "lin bo = lin (child_offset (node nd)) + 9" by blast
  show "yields ssl m' F' (case r of (bo, _, value_size) \<Rightarrow> read_across_data_nodes ssl bo (u32 value_size) []) (\<lambda>r m' F'. r = v \<and> m' = m \<and> F' = F)"
    using r len value_parts(3) [OF v] by (auto simp: u32_id intro!: yields_conseq [OF yields_read [OF cr]])
qed (intro preserve_intros)

text \<open>The deleted header goes over the first byte of the value, so there has to be one.\<close>

lemma yields_delete_value:
  assumes cr: "crypto_ok ssl" and v: "value_at m vb v" "v \<noteq> []" "vb = child_offset (node nd)"
    and F: "region vb (9 + length v) \<inter> F = {}"
  shows "yields ssl m F (do_delete_value ssl nd) (\<lambda>nd' m' F'. nd' = nd\<lparr>node := (node nd)\<lparr>child_offset := empty_block_offset\<rparr>, tn_modified := True\<rparr>
    \<and> F' = F \<union> region vb (9 + length v) \<and> changed m m' (region vb (9 + length v)) \<and> length m' = length m)"
  unfolding do_delete_value_def
proof (rule yields_bind)
  let ?h = "header_byte (empty_trie_header\<lparr>isValue := True\<rparr>)"
  let ?nd = "nd\<lparr>node := (node nd)\<lparr>child_offset := empty_block_offset\<rparr>, tn_modified := True\<rparr>"
  show "yields ssl m F (do_read_value_info ssl (child_offset (node nd)))
      (\<lambda>r m' F'. m' = m \<and> F' = F \<and> (\<exists>bo. r = (bo, [?h], length v) \<and> wf_offset bo \<and> lin bo = lin vb + 9))"
    using yields_value_info [OF cr v(1)] v(3) by simp
  have reg: "valid_region vb (9 + length v)" and len: "lin vb + 9 + length v \<le> length m" using v by (simp_all add: value_at_def placed_def)
  fix r m1 F1 assume "m1 = m \<and> F1 = F \<and> (\<exists>bo. r = (bo, [?h], length v) \<and> wf_offset bo \<and> lin bo = lin vb + 9)"
  then obtain bo where r: "m1 = m" "F1 = F" "r = (bo, [?h], length v)" "wf_offset bo" "lin bo = lin vb + 9" by blast
  let ?b = "[header_byte ((header_of_byte ?h)\<lparr>isDeleted := True\<rparr>)]" and ?size = "u32 (Suc 0 + sizeof_size_t + length v)"
  let ?m = "overwrite m (lin vb + 9) ?b"
  have sz: "?size = 9 + length v" using reg by (simp add: sizeof_size_t_def u32_id valid_region_def)
  obtain x w where "v = x # w" using v(2) by (cases v) simp_all
  then have lv: "lin vb + 10 \<le> length m" "0 < length v" "lin vb + 10 < 4294967296" using len reg by (simp_all add: valid_region_def)
  have ml: "length ?m = length m" using lv(1) by (simp add: length_overwrite_max)
  have ch: "changed m ?m (region vb (9 + length v))"
    by (rule changed_mono [OF changed_overwrite]) (use lv in \<open>auto simp: region_def Suc_le_eq\<close>)
  have "yields ssl m F (bindM (write_across_data_nodes ssl ?b bo) (\<lambda>_. bindM (in_free_space (collect vb ?size)) (\<lambda>_. ret ?nd)))
      (\<lambda>nd' m' F'. nd' = ?nd \<and> F' = F \<union> region vb (9 + length v) \<and> changed m m' (region vb (9 + length v)) \<and> length m' = length m)"
  proof (rule yields_bind [OF yields_write [OF cr r(4)]])
    show "lin bo \<le> length m" "lin bo + length ?b < 4294967296" using r(5) lv by simp_all
    fix x :: unit and m' F' assume m': "m' = overwrite m (lin bo) ?b \<and> F' = F"
    show "yields ssl m' F' (bindM (in_free_space (collect vb ?size)) (\<lambda>_. ret ?nd))
        (\<lambda>nd' m' F'. nd' = ?nd \<and> F' = F \<union> region vb (9 + length v) \<and> changed m m' (region vb (9 + length v)) \<and> length m' = length m)"
      unfolding sz
      by (rule yields_bind [OF yields_collect [OF reg]])
        (use m' r(5) F len ml ch in \<open>auto intro!: yields_ret preserve_intros\<close>)
  qed (intro preserve_intros)
  then show "yields ssl m1 F1 (case r of (bo, ba_header, value_size) \<Rightarrow> bindM (first_byte ba_header) (\<lambda>h.
      bindM (write_across_data_nodes ssl (ba_header[0 := header_byte ((header_of_byte h)\<lparr>isDeleted := True\<rparr>)]) bo) (\<lambda>_.
      bindM (in_free_space (collect (child_offset (node nd)) (u32 (length ba_header + sizeof_size_t + value_size)))) (\<lambda>_. ret ?nd))))
      (\<lambda>nd' m' F'. nd' = ?nd \<and> F' = F \<union> region vb (9 + length v) \<and> changed m m' (region vb (9 + length v)) \<and> length m' = length m)"
    using r v(3) by (simp add: first_byte_def)
qed (intro preserve_intros)

lemma overwrite_twice:
  "i \<le> length xs \<Longrightarrow> overwrite (overwrite xs i ys) (i + length ys) zs = overwrite xs i (ys @ zs)"
proof -
  assume i: "i \<le> length xs"
  have "drop (i + length ys + length zs) (take i xs @ ys @ drop (i + length ys) xs) = drop (i + length (ys @ zs)) xs"
    using i by (simp add: min_def ac_simps)
  moreover have "take (i + length ys) (take i xs @ ys @ drop (i + length ys) xs) = take i xs @ ys" using i by (simp add: min_def)
  ultimately show ?thesis by (simp add: overwrite_def)
qed

lemma yields_new_value:
  assumes cr: "crypto_ok ssl" and e: "child_offset (node nd) = empty_block_offset" and lim: "length m + 9 + length v < 4294967296"
  shows "yields ssl m F (do_write_value ssl nd v) (\<lambda>nd' m' F'. \<exists>vb. nd' = nd\<lparr>node := (node nd)\<lparr>child_offset := vb\<rparr>, tn_modified := True\<rparr>
    \<and> value_at m' vb v \<and> fresh m F (region vb (9 + length v)) \<and> F' = F - region vb (9 + length v)
    \<and> changed m m' (region vb (9 + length v)) \<and> length m' \<le> length m + 9 + length v)"
proof (rule yields_bounds)
  assume sub: "F \<subseteq> {..<length m}"
  let ?h = "header_byte (empty_trie_header\<lparr>isValue := True\<rparr>)" and ?k = "9 + length v"
  have lv: "length v < 4294967296" using lim by simp
  have sz: "u32 (sizeof_trie_node_header_t + 8 + length v) = ?k"
      "u32_sub (u32_sub (u32_sub ?k 1) 8) (length v) = 0"
    using lim by (simp_all add: sizeof_trie_node_header_t_def sizeof_size_t_def u32_id u32_sub_id)
  let ?Q = "\<lambda>nd' m' F'. \<exists>vb. nd' = nd\<lparr>node := (node nd)\<lparr>child_offset := vb\<rparr>, tn_modified := True\<rparr>
    \<and> value_at m' vb v \<and> fresh m F (region vb ?k) \<and> F' = F - region vb ?k \<and> changed m m' (region vb ?k) \<and> length m' \<le> length m + 9 + length v"
  have "yields ssl m F (bindM (allocate_or_append ?k) (\<lambda>vb.
      bindM (write_across_data_nodes ssl [?h] vb) (\<lambda>_.
      bindM (write_across_data_nodes ssl (le_bytes 8 (length v)) (advance_block_offset vb 1)) (\<lambda>_.
      bindM (write_across_data_nodes ssl v (advance_block_offset (advance_block_offset vb 1) 8)) (\<lambda>_.
      ret (nd\<lparr>node := (node nd)\<lparr>child_offset := vb\<rparr>, tn_modified := True\<rparr>)))))) ?Q"
  proof (rule yields_bind [OF yields_alloc])
    show "0 < ?k" "length m + ?k < 4294967296" using lim by simp_all
    fix vb m' F' assume a: "valid_region vb ?k \<and> (region vb ?k \<subseteq> F \<or> lin vb = length m) \<and> m' = m \<and> F' = F - region vb ?k"
    then have reg: "valid_region vb ?k" by simp
    have in_m: "lin vb \<le> length m" using a by (intro alloc_inside [where n = ?k, OF _ sub]) simp_all
    let ?b1 = "advance_block_offset vb 1"
    have b1: "wf_offset ?b1" "lin ?b1 = lin vb + 1" using advance_region [OF reg, of 1] by simp_all
    have r1: "valid_region ?b1 (8 + length v)" using b1 reg by (simp add: valid_region_def)
    have b9: "wf_offset (advance_block_offset ?b1 8)" "lin (advance_block_offset ?b1 8) = lin vb + 9" using advance_region [OF r1, of 8] b1(2) by simp_all
    have lims: "lin vb + 9 + length v < 4294967296" "wf_offset vb" using reg by (simp_all add: valid_region_def)
    let ?m1 = "overwrite m (lin vb) [?h]" and ?m2 = "overwrite m (lin vb) ([?h] @ le_bytes 8 (length v))"
    let ?m3 = "overwrite m (lin vb) (([?h] @ le_bytes 8 (length v)) @ v)"
    have m2: "overwrite ?m1 (lin vb + 1) (le_bytes 8 (length v)) = ?m2"
      using overwrite_twice [OF in_m, of "[?h]" "le_bytes 8 (length v)"] by simp
    have m3: "overwrite ?m2 (lin vb + 9) v = ?m3"
      using overwrite_twice [OF in_m, of "[?h] @ le_bytes 8 (length v)" v] by simp
    have lens: "lin vb + 1 \<le> length ?m1" "lin vb + 9 \<le> length ?m2" using in_m by (simp_all add: length_overwrite_max)
    have img: "([?h] @ le_bytes 8 (length v)) @ v = value_image v" "length (value_image v) = ?k" by (simp_all add: value_image_def)
    have post: "?Q (nd\<lparr>node := (node nd)\<lparr>child_offset := vb\<rparr>, tn_modified := True\<rparr>) ?m3 (F - region vb ?k)"
      unfolding img(1) using a reg in_m img(2) changed_overwrite [OF in_m, of "value_image v"] slice_overwrite [OF in_m, of "value_image v"]
      by (auto simp: value_at_def placed_def length_overwrite_max region_def intro!: fresh_region [unfolded region_def])
    show "yields ssl m' F' (bindM (write_across_data_nodes ssl [?h] vb) (\<lambda>_.
        bindM (write_across_data_nodes ssl (le_bytes 8 (length v)) ?b1) (\<lambda>_.
        bindM (write_across_data_nodes ssl v (advance_block_offset ?b1 8)) (\<lambda>_.
        ret (nd\<lparr>node := (node nd)\<lparr>child_offset := vb\<rparr>, tn_modified := True\<rparr>))))) ?Q"
    proof (rule yields_bind [OF yields_write [OF cr]])
      fix x :: unit and n1 F1 assume "n1 = overwrite m' (lin vb) [?h] \<and> F1 = F'"
      then have 1: "n1 = ?m1" "F1 = F - region vb ?k" using a by simp_all
      show "yields ssl n1 F1 (bindM (write_across_data_nodes ssl (le_bytes 8 (length v)) ?b1) (\<lambda>_.
        bindM (write_across_data_nodes ssl v (advance_block_offset ?b1 8)) (\<lambda>_.
        ret (nd\<lparr>node := (node nd)\<lparr>child_offset := vb\<rparr>, tn_modified := True\<rparr>)))) ?Q"
      proof (rule yields_bind [OF yields_write [OF cr b1(1)]])
        fix x :: unit and n2 F2 assume "n2 = overwrite n1 (lin ?b1) (le_bytes 8 (length v)) \<and> F2 = F1"
        then have 2: "n2 = ?m2" "F2 = F - region vb ?k" using 1 b1(2) m2 by simp_all
        show "yields ssl n2 F2 (bindM (write_across_data_nodes ssl v (advance_block_offset ?b1 8)) (\<lambda>_.
          ret (nd\<lparr>node := (node nd)\<lparr>child_offset := vb\<rparr>, tn_modified := True\<rparr>))) ?Q"
          by (rule yields_bind [OF yields_write [OF cr b9(1)]])
            (use 2 b9(2) lens lims m3 post in \<open>auto intro!: yields_ret preserve_intros\<close>)
      qed (use 1 b1 lens lims in \<open>auto intro!: preserve_intros\<close>)
    qed (use a in_m lims in \<open>auto intro!: preserve_intros\<close>)
  qed (intro preserve_intros)
  then show "yields ssl m F (do_write_value ssl nd v) ?Q"
    unfolding do_write_value_def Let_def using e lv
    by (simp add: is_empty_def sz(1) sizeof_size_t_def throwIf_def sz(2) flip: One_nat_def)
qed

lemma yields_overwrite_value:
  assumes cr: "crypto_ok ssl" and v: "value_at m vb v" "v \<noteq> []" "vb = child_offset (node nd)"
    and F: "region vb (9 + length v) \<inter> F = {}" and lim: "length m + 9 + length w < 4294967296"
  shows "yields ssl m F (do_write_value ssl nd w) (\<lambda>nd' m' F'. \<exists>wb. nd' = nd\<lparr>node := (node nd)\<lparr>child_offset := wb\<rparr>, tn_modified := True\<rparr>
    \<and> value_at m' wb w \<and> fresh m (F \<union> region vb (9 + length v)) (region wb (9 + length w))
    \<and> F' = (F \<union> region vb (9 + length v)) - region wb (9 + length w)
    \<and> changed m m' (region vb (9 + length v) \<union> region wb (9 + length w)) \<and> length m' \<le> length m + 9 + length w)"
proof -
  have ne: "\<not> is_empty (child_offset (node nd))" "is_empty empty_block_offset"
    using v placed_not_empty [of m vb "9 + length v"] by (auto simp: value_at_def is_empty_def)
  show ?thesis
    unfolding do_write_value_def if_P [OF ne(1)]
  proof (rule yields_bind [OF yields_delete_value [OF cr v F]], goal_cases)
    case d: (1 nd1 m1 F1)
    have e: "child_offset (node nd1) = empty_block_offset" and lim1: "length m1 + 9 + length w < 4294967296" using d lim by simp_all
    from e ne(2) have "\<not> \<not> is_empty (child_offset (node nd1))" by simp
    note yields_new_value [OF cr e lim1, of F1, unfolded do_write_value_def if_not_P [OF this] bindM_ret]
    then show ?case
      by (rule yields_conseq) (use d in \<open>auto simp: fresh_def intro: changed_trans\<close>)
  qed (auto simp: Let_def intro!: preserve_intros)
qed

section \<open>Putting nodes back\<close>

lemma yields_keep_node:
  assumes cr: "crypto_ok ssl" and n: "node_rep m n bo ch nx cd" and d: "F \<inter> nfoot bo = {}"
    and lim: "bo = empty_block_offset \<longrightarrow> length m + 32 < 4294967296"
  shows "yields ssl m F (if tn_modified n then write_trie_node ssl n else ret n)
    (\<lambda>n' m' F'. node_at m' (location n') ch nx cd \<and> changed m m' (region (location n') 32)
      \<and> region (location n') 32 \<subseteq> F \<union> nfoot bo \<union> {length m..} \<and> F' = F - region (location n') 32
      \<and> length m' \<le> length m + (if bo = empty_block_offset then 32 else 0) \<and> (bo \<noteq> empty_block_offset \<longrightarrow> location n' = bo))"
proof (cases "tn_modified n")
  case True
  have w: "yields ssl m F (write_trie_node ssl n) (\<lambda>n' m' F'. node_at m' (location n') ch nx cd \<and> wrote m F n n' m' F')"
    using n lim by (intro yields_write_node [OF cr]) (auto simp: node_rep_def)
  show ?thesis
    unfolding if_P [OF True]
    by (rule yields_conseq [OF w]) (use n d in \<open>auto simp: wrote_def node_rep_def nfoot_def fresh_def split: if_splits\<close>)
next
  case False
  then show ?thesis using n d by (auto simp: node_rep_def nfoot_def intro!: yields_ret)
qed

lemma yields_drop_node:
  assumes cr: "crypto_ok ssl" and n: "node_rep m n bo ch nx empty_block_offset" and bo: "bo \<noteq> empty_block_offset"
    and d: "region bo 32 \<inter> F = {}" and left: "left > 1"
  shows "yields ssl m F (settle ssl DEL_OP left n)
    (\<lambda>n' m' F'. location n' = nx \<and> F' = F \<union> region bo 32 \<and> changed m m' (region bo 32) \<and> length m' = length m)"
proof -
  let ?n = "n\<lparr>node := (node n)\<lparr>hdr := (hdr (node n))\<lparr>isDeleted := True\<rparr>\<rparr>, tn_modified := True\<rparr>"
  have p: "placed m bo 32" and l: "location n = bo" "node_is (node n) ch nx empty_block_offset" using n bo by (simp_all add: node_rep_def)
  have n': "node_is (node ?n) ch nx empty_block_offset" using l(2) by (simp add: node_is_def)
  have "yields ssl m F (bindM (in_free_space (collect bo 32)) (\<lambda>_. bindM (write_trie_node ssl ?n) (\<lambda>nd. ret (nd\<lparr>location := next_offset (node nd)\<rparr>))))
      (\<lambda>n' m' F'. location n' = nx \<and> \<not> tn_modified n' \<and> F' = F \<union> region bo 32 \<and> changed m m' (region bo 32) \<and> length m' = length m)"
  proof (rule yields_bind [OF yields_collect])
    fix x :: unit and m' F' assume m': "m' = m \<and> F' = F \<union> region bo 32"
    show "yields ssl m' F' (bindM (write_trie_node ssl ?n) (\<lambda>nd. ret (nd\<lparr>location := next_offset (node nd)\<rparr>)))
      (\<lambda>n' m' F'. location n' = nx \<and> \<not> tn_modified n' \<and> F' = F \<union> region bo 32 \<and> changed m m' (region bo 32) \<and> length m' = length m)"
    proof (rule yields_bind [OF yields_write_node [OF cr n']])
      fix n2 m2 F2 assume w: "node_at m2 (location n2) ch nx empty_block_offset \<and> wrote m' F' ?n n2 m2 F2"
      then have eq: "n2 = ?n\<lparr>location := location n2, tn_modified := False\<rparr>" "location n2 = bo"
        using l bo unfolding wrote_def by (blast, simp)
      have "next_offset (node n2) = nx" using l(2) by (subst eq) (simp add: node_is_def)
      moreover have "\<not> tn_modified n2" by (subst eq) simp
      ultimately show "yields ssl m2 F2 (ret (n2\<lparr>location := next_offset (node n2)\<rparr>))
          (\<lambda>n' m' F'. location n' = nx \<and> \<not> tn_modified n' \<and> F' = F \<union> region bo 32 \<and> changed m m' (region bo 32) \<and> length m' = length m)"
        using w m' eq(2) l bo by (intro yields_ret) (auto simp: wrote_def changed_def)
    qed (use l p m' bo in \<open>auto intro!: preserve_intros\<close>)
  qed (use p d in \<open>auto simp: placed_def intro!: preserve_intros\<close>)
  then have del: "yields ssl m F (delete_trie_node_childless ssl n)
      (\<lambda>n' m' F'. location n' = nx \<and> \<not> tn_modified n' \<and> F' = F \<union> region bo 32 \<and> changed m m' (region bo 32) \<and> length m' = length m)"
    using l by (simp add: delete_trie_node_childless_def node_is_def is_empty_def Let_def)
  have c: "DEL_OP = DEL_OP \<and> left > 1" using left by simp
  show ?thesis
    unfolding settle_def if_P [OF c]
    by (rule yields_bind [OF del]) (auto intro!: yields_ret preserve_intros)
qed

fun move :: "block_offset_t \<Rightarrow> frame \<Rightarrow> frame" where
  "move bo (NextB _ ch c) = NextB bo ch c"
| "move bo (NextL _ vb v) = NextL bo vb v"
| "move bo (Child _ ch n) = Child bo ch n"

lemma move_simps [simp]: "fbo (move bo f) = bo" "skel (plug (move bo f) t) = skel (plug f t)" "loc (plug (move bo f) t) = bo"
    "side_foot (move bo f) = side_foot f"
  by (cases f; simp)+

lemma stored_plug:
  "stored m (plug f t) \<longleftrightarrow> node_at m (fbo f) (fchunk f) (fnext f (loc t)) (fchild f (loc t)) \<and> side_stored m f \<and> stored m t"
  by (cases f) auto

lemma foot_plug: "foot (plug f t) = region (fbo f) 32 \<union> side_foot f \<union> foot t"
  by (cases f) auto

lemma sep_plug:
  "sep (plug f t) \<longleftrightarrow> region (fbo f) 32 \<inter> (side_foot f \<union> foot t) = {} \<and> side_foot f \<inter> foot t = {} \<and> side_sep f \<and> sep t"
  by (cases f) auto

lemma move_fields [simp]: "fchunk (move bo f) = fchunk f" "fnext (move bo f) off = fnext f off" "fchild (move bo f) off = fchild f off"
    "side_stored m (move bo f) = side_stored m f" "side_sep (move bo f) = side_sep f"
  by (cases f; simp)+

text \<open>A tree in its memory, apart from the positions \<open>C\<close> and from the free space.\<close>

definition apart :: "bytes \<Rightarrow> nat set \<Rightarrow> nat set \<Rightarrow> tree \<Rightarrow> bool" where
  "apart m F C t \<longleftrightarrow> stored m t \<and> sep t \<and> foot t \<inter> C = {} \<and> F \<inter> (foot t \<union> C) = {}"

lemma side_bound: "item_rep m f off it \<Longrightarrow> side_foot f \<subseteq> {..<length m}"
  using stored_bound placed_region by (cases f) (auto simp: item_rep_def value_at_def)

lemma yields_settle:
  assumes cr: "crypto_ok ssl" and it: "item_rep m f (loc t) it" and t: "apart m F (ffoot f) t"
    and left: "left > 1 \<longleftrightarrow> fs \<noteq> []" and del: "operation = DEL_OP \<longrightarrow> fbo f \<noteq> empty_block_offset"
    and lim: "fbo f = empty_block_offset \<longrightarrow> length m + 32 < 4294967296"
  shows "yields ssl m F (settle ssl operation left (ri_node it))
    (\<lambda>n' m' F'. \<exists>t'. location n' = loc t' \<and> apart m' F' {} t' \<and> skel t' = skel (settled operation fs f t)
      \<and> changed m m' (F \<union> ffoot f \<union> {length m..}) \<and> foot t' \<union> F' \<subseteq> F \<union> ffoot f \<union> foot t \<union> {length m..}
      \<and> length m' \<le> length m + (if fbo f = empty_block_offset then 32 else 0))"
proof (cases "operation = DEL_OP \<and> fs \<noteq> [] \<and> childless f t")
  case True
  let ?bo = "fbo f" and ?r = "remainder f t"
  have ne: "?bo \<noteq> empty_block_offset" and l: "left > 1" using True del left by auto
  have n: "node_rep m (ri_node it) ?bo (fchunk f) (loc ?r) empty_block_offset"
    using True it by (cases f) (auto simp: item_rep_def)
  have r: "stored m ?r" "sep ?r" "foot ?r \<subseteq> side_foot f \<union> foot t" "foot ?r \<inter> region ?bo 32 = {}" "foot ?r \<inter> F = {}"
    using True it t ne by (cases f; auto simp: item_rep_def apart_def ffoot_def nfoot_def)+
  have reg: "region ?bo 32 \<subseteq> ffoot f" "region ?bo 32 \<inter> F = {}" using t ne by (auto simp: apart_def ffoot_def nfoot_def)
  have sub: "foot ?r \<subseteq> ffoot f \<union> foot t" using r(3) by (auto simp: ffoot_def)
  have op: "operation = DEL_OP" "settled operation fs f t = ?r" using True by (simp_all add: settled_def)
  show ?thesis
    unfolding op(2) unfolding op(1)
    by (intro yields_conseq [OF yields_drop_node [OF cr n ne reg(2) l]] exI [of _ ?r])
      (use r reg sub in \<open>auto simp: apart_def ne intro: stored_changed changed_mono\<close>)
next
  case False
  let ?bo = "fbo f"
  have n: "node_rep m (ri_node it) ?bo (fchunk f) (fnext f (loc t)) (fchild f (loc t))" using it by (simp add: item_rep_def)
  have same: "(if operation = DEL_OP \<and> left > 1 then delete_trie_node_childless ssl (ri_node it) else ret (ri_node it)) = ret (ri_node it)"
  proof (cases "operation = DEL_OP \<and> left > 1")
    case True
    then have "\<not> childless f t" using False left by simp
    then have "fchild f (loc t) \<noteq> empty_block_offset"
      using it t placed_not_empty by (cases f) (auto simp: item_rep_def apart_def loc_empty value_at_def)
    then show ?thesis using n by (simp add: delete_trie_node_childless_def node_rep_def node_is_def is_empty_def)
  qed (rule if_not_P)
  have eq: "settle ssl operation left (ri_node it) = (if tn_modified (ri_node it) then write_trie_node ssl (ri_node it) else ret (ri_node it))"
    by (simp only: settle_def same bindM_ret)
  have d: "F \<inter> nfoot ?bo = {}" using t by (auto simp: apart_def ffoot_def)
  have s: "settled operation fs f t = plug f t" using False by (auto simp: settled_def)
  have "yields ssl m F (if tn_modified (ri_node it) then write_trie_node ssl (ri_node it) else ret (ri_node it))
    (\<lambda>n' m' F'. \<exists>t'. location n' = loc t' \<and> apart m' F' {} t' \<and> skel t' = skel (plug f t)
      \<and> changed m m' (F \<union> ffoot f \<union> {length m..}) \<and> foot t' \<union> F' \<subseteq> F \<union> ffoot f \<union> foot t \<union> {length m..}
      \<and> length m' \<le> length m + (if ?bo = empty_block_offset then 32 else 0))"
  proof (rule yields_conseq [OF yields_keep_node [OF cr n d lim]], intro exI conjI)
    fix n' m' F'
    let ?R = "region (location n') 32" and ?f = "move (location n') f"
    assume w: "node_at m' (location n') (fchunk f) (fnext f (loc t)) (fchild f (loc t)) \<and> changed m m' ?R \<and> ?R \<subseteq> F \<union> nfoot ?bo \<union> {length m..}
      \<and> F' = F - ?R \<and> length m' \<le> length m + (if ?bo = empty_block_offset then 32 else 0) \<and> (?bo \<noteq> empty_block_offset \<longrightarrow> location n' = ?bo)"
    have "side_foot f \<inter> {length m..} = {}" "foot t \<inter> {length m..} = {}"
      using t side_bound [OF it] stored_bound [of m t] by (auto simp: apart_def)
    then have "side_foot f \<inter> ?R = {}" "foot t \<inter> ?R = {}"
      using w it t unfolding apart_def item_rep_def ffoot_def by blast+
    moreover from this have "side_stored m' f" "stored m' t"
      using w it t by (cases f; auto simp: item_rep_def apart_def stored_changed value_at_changed)+
    ultimately show "apart m' F' {} (plug ?f t)"
      using w t it by (auto simp: apart_def stored_plug sep_plug foot_plug item_rep_def ffoot_def)
    show "location n' = loc (plug ?f t)" "skel (plug ?f t) = skel (plug f t)" by simp_all
    show "changed m m' (F \<union> ffoot f \<union> {length m..})" using w by (elim conjE changed_mono) (auto simp: ffoot_def)
    show "foot (plug ?f t) \<union> F' \<subseteq> F \<union> ffoot f \<union> foot t \<union> {length m..}" using w by (auto simp: foot_plug ffoot_def)
    show "length m' \<le> length m + (if ?bo = empty_block_offset then 32 else 0)" using w by simp
  qed
  then show ?thesis unfolding eq s .
qed

lemma skel_Tip: "skel t = Tip \<longleftrightarrow> t = Tip"
  by (cases t) auto

lemma skel_plug: "skel t = skel u \<Longrightarrow> skel (plug f t) = skel (plug f u)"
  by (cases f) auto

lemma skel_settled: "skel t = skel u \<Longrightarrow> skel (settled operation fs f t) = skel (settled operation fs f u)"
proof -
  assume eq: "skel t = skel u"
  then have "t = Tip \<longleftrightarrow> u = Tip" using skel_Tip [of t] skel_Tip [of u] by simp
  then have "childless f t = childless f u" "skel (remainder f t) = skel (remainder f u)" using eq by (cases f; simp)+
  then show ?thesis using skel_plug [OF eq] by (simp add: settled_def)
qed

lemma skel_close: "skel t = skel u \<Longrightarrow> skel (close operation fs t) = skel (close operation fs u)"
proof (induction fs arbitrary: t u)
  case (Cons f fs)
  show ?case using Cons.IH [OF skel_settled [OF Cons.prems]] by simp
qed simp

definition rooted :: "bytes \<Rightarrow> nat set \<Rightarrow> tree \<Rightarrow> bool" where
  "rooted m F t \<longleftrightarrow> node_at m root_bo [] (loc t) empty_block_offset \<and> apart m F (region root_bo 32) t"

definition news :: "frame list \<Rightarrow> nat" where
  "news fs = length (filter (\<lambda>f. fbo f = empty_block_offset) fs)"

lemma nfoot_root: "nfoot root_bo = region root_bo 32" "root_bo \<noteq> empty_block_offset"
  by (simp_all add: nfoot_def root_bo_def empty_block_offset_def data_begin_index_def)

lemma node_rep_link:
  assumes "node_rep m n bo ch nx cd" and "bo_u32 off"
  shows "node_rep m (n\<lparr>node := (node n)\<lparr>next_offset := off\<rparr>, tn_modified := True\<rparr>) bo ch off cd"
    "node_rep m (n\<lparr>node := (node n)\<lparr>child_offset := off\<rparr>, tn_modified := True\<rparr>) bo ch nx off"
  using assms by (auto simp: node_rep_def node_is_def)

lemma item_rep_link:
  assumes "item_rep m f off it" and "bo_u32 off'"
  shows "item_rep m f off' (link off' it)"
  using assms node_rep_link [OF _ assms(2)]
  by (cases f) (auto simp: item_rep_def link_def Let_def node_rep_def node_is_def)

lemma stack_rep_link:
  assumes "stack_rep m fs off (prev # stack)" and "bo_u32 off'"
  shows "stack_rep m fs off' (link off' prev # stack)"
proof (cases fs)
  case Nil
  then show ?thesis
    using assms node_rep_link(1) [OF _ assms(2), of m "ri_node prev" root_bo "[]" off empty_block_offset]
    by (auto simp: link_def Let_def node_rep_def node_is_def)
next
  case (Cons f fs')
  then show ?thesis using assms item_rep_link by auto
qed

lemma yields_unwind:
  assumes cr: "crypto_ok ssl"
  shows "stack_rep m fs (loc t) its \<Longrightarrow> apart m F (ctx_foot fs) t \<Longrightarrow> ctx_sep fs \<Longrightarrow>
    operation = DEL_OP \<longrightarrow> news fs = 0 \<Longrightarrow> length m + 32 * news fs < 4294967296 \<Longrightarrow>
    yields ssl m F (unwind ssl operation its :: ('z data_node_io_scheme, unit) m)
      (\<lambda>_ m' F'. \<exists>t'. rooted m' F' t' \<and> skel t' = skel (close operation fs t) \<and> length m' \<le> length m + 32 * news fs)"
proof (induction fs arbitrary: m F t its)
  case Nil
  then obtain it where it: "its = [it]" "node_rep m (ri_node it) root_bo [] (loc t) empty_block_offset" by auto
  have d: "F \<inter> nfoot root_bo = {}" using Nil.prems(2) by (auto simp: apart_def nfoot_root)
  have eq: "settle ssl operation 0 (ri_node it) = (if tn_modified (ri_node it) then write_trie_node ssl (ri_node it) else ret (ri_node it))"
    by (simp add: settle_def)
  have "yields ssl m F (settle ssl operation 0 (ri_node it)) (\<lambda>n' m' F'. rooted m' F' t \<and> length m' \<le> length m)"
    unfolding eq
    by (rule yields_conseq [OF yields_keep_node [OF cr it(2) d]])
      (use Nil.prems(2) nfoot_root in \<open>auto simp: rooted_def apart_def intro: stored_changed\<close>)
  then show ?case unfolding it(1) unwind.simps by (rule yields_bind) (auto intro!: yields_ret preserve_intros)
next
  case (Cons f fs)
  then obtain it its' where its: "its = it # its'" and it: "item_rep m f (loc t) it" and st: "stack_rep m fs (fbo f) its'" by auto
  have len: "length its' = Suc (length fs)" using length_stack [OF st] .
  then obtain prev stack where its': "its' = prev # stack" by (cases its') auto
  have left: "length its' > 1 \<longleftrightarrow> fs \<noteq> []" using len by simp
  have ap: "apart m F (ffoot f) t" using Cons.prems(2) by (auto simp: apart_def)
  have new: "news (f # fs) = news fs + (if fbo f = empty_block_offset then 1 else 0)" by (simp add: news_def)
  have "yields ssl m F (settle ssl operation (length its') (ri_node it))
    (\<lambda>n' m' F'. \<exists>t'. location n' = loc t' \<and> apart m' F' {} t' \<and> skel t' = skel (settled operation fs f t)
      \<and> changed m m' (F \<union> ffoot f \<union> {length m..}) \<and> foot t' \<union> F' \<subseteq> F \<union> ffoot f \<union> foot t \<union> {length m..}
      \<and> length m' \<le> length m + (if fbo f = empty_block_offset then 32 else 0))"
    using Cons.prems(4,5) new by (intro yields_settle [OF cr it ap left]) (auto split: if_splits)
  then show ?case
    unfolding its its' unwind.simps
  proof (rule yields_bind)
    fix n' m' F'
    assume "\<exists>t'. location n' = loc t' \<and> apart m' F' {} t' \<and> skel t' = skel (settled operation fs f t)
      \<and> changed m m' (F \<union> ffoot f \<union> {length m..}) \<and> foot t' \<union> F' \<subseteq> F \<union> ffoot f \<union> foot t \<union> {length m..}
      \<and> length m' \<le> length m + (if fbo f = empty_block_offset then 32 else 0)"
    then obtain t' where t': "location n' = loc t'" "apart m' F' {} t'" "skel t' = skel (settled operation fs f t)"
      "changed m m' (F \<union> ffoot f \<union> {length m..})" "foot t' \<union> F' \<subseteq> F \<union> ffoot f \<union> foot t \<union> {length m..}"
      "length m' \<le> length m + (if fbo f = empty_block_offset then 32 else 0)" by blast
    have d: "ctx_foot fs \<inter> (F \<union> ffoot f \<union> foot t \<union> {length m..}) = {}"
      using Cons.prems(2,3) ctx_bound [OF st] by (auto simp: apart_def)
    have st': "stack_rep m' fs (loc t') (link (loc t') prev # stack)"
      using stack_rep_changed [OF st t'(4)] d t'(2) its' by (intro stack_rep_link [of m' fs "fbo f"] loc_u32) (auto simp: apart_def)
    have ap': "apart m' F' (ctx_foot fs) t'" using t'(2,5) d by (auto simp: apart_def)
    have "length m' + 32 * news fs \<le> length m + 32 * news (f # fs)" using t'(6) new by (auto split: if_splits)
    then show "yields ssl m' F' (unwind ssl operation (link (location n') prev # stack) :: ('z data_node_io_scheme, unit) m)
      (\<lambda>_ m' F'. \<exists>t'. rooted m' F' t' \<and> skel t' = skel (close operation (f # fs) t) \<and> length m' \<le> length m + 32 * news (f # fs))"
      unfolding t'(1) using Cons.prems(3-5) new skel_close [OF t'(3), of operation fs]
      by (intro yields_conseq [OF Cons.IH [OF st' ap']]) auto
  qed (intro preserve_intros)
qed

end
