(* ===== verification/Trie_Walk.thy ===== *)
theory Trie_Walk
  imports Trie_Ops
begin

text \<open>
  The first loop of the code on trees in memory: the walk to the place of a key, the chain of nodes that is
  created for a key that is absent, and the split of a node. The loop is taken here with a bound on its
  iterations, so that a run that ends within the bound is a run of the loop.
\<close>

section \<open>A loop with a bound\<close>

fun loop_upto :: "nat \<Rightarrow> ('l \<Rightarrow> 's \<Rightarrow> bool) \<Rightarrow> ('l \<Rightarrow> ('s, 'l) m) \<Rightarrow> 'l \<Rightarrow> ('s, 'l) m" where
  "loop_upto 0 b c l = throw (RuntimeError ''out of steps'')"
| "loop_upto (Suc N) b c l = (\<lambda>s. if b l s then bindM (c l) (loop_upto N b c) s else ret l s)"

lemma loop_upto_loop: "loop_upto N b c l s = Some (Inr x, s') \<Longrightarrow> loop_m b c l s = Some (Inr x, s')"
proof (induction N arbitrary: l s)
  case (Suc N)
  show ?case
  proof (cases "b l s")
    case True
    with Suc.prems have "bindM (c l) (loop_upto N b c) s = Some (Inr x, s')" by simp
    then obtain l' t where "c l s = Some (Inr l', t)" "loop_upto N b c l' t = Some (Inr x, s')"
      by (erule bindM_InrD)
    then show ?thesis using True Suc.IH by (simp add: loop_m.simps [of b c l s] bindM_def)
  next
    case False
    then show ?thesis using Suc.prems by (simp add: loop_m.simps [of b c l s])
  qed
qed (simp add: throw_def)

lemma preserves_loop_upto [preserve_intros]:
  "(\<And>l. preserves P (c l)) \<Longrightarrow> preserves P (loop_upto N b c l)"
proof (induction N arbitrary: l)
  case (Suc N)
  then have "preserves P (bindM (c l) (loop_upto N b c))" by (intro preserve_intros) auto
  then show ?case by (auto simp: preserves_def ret_def)
qed (auto simp: preserves_def throw_def)

text \<open>The rest of an operation from an entry of the first loop on.\<close>

definition finish :: "openssl \<Rightarrow> kv_operation_e \<Rightarrow> descent \<Rightarrow> ('z data_node_io_scheme, bytes) m" where
  "finish ssl operation l = (case l of Break stack out \<Rightarrow> bindM (unwind ssl operation stack) (\<lambda>_. ret out) | _ \<Rightarrow> ret [])"

definition walk ::
    "openssl \<Rightarrow> trie_node_h_with_ncc_t \<Rightarrow> kv_operation_e \<Rightarrow> bytes \<Rightarrow> bytes \<Rightarrow> nat \<Rightarrow> descent \<Rightarrow> ('z data_node_io_scheme, bytes) m" where
  "walk ssl uninit operation key value N l =
     bindM (loop_upto N (\<lambda>l _. going l) (descend_step ssl uninit operation key value []) l) (finish ssl operation)"

definition operate_upto ::
    "openssl \<Rightarrow> trie_node_h_with_ncc_t \<Rightarrow> nat \<Rightarrow> kv_operation_e \<Rightarrow> bytes \<Rightarrow> bytes \<Rightarrow> ('z data_node_io_scheme, bytes) m" where
  "operate_upto ssl uninit N operation key value =
     bindM (read_trie_node ssl root_bo (new_trie_node uninit)) (\<lambda>root.
     walk ssl uninit operation key value N (Go [item_for (next_offset (node root)), \<lparr>ri_node = root, go_next = True\<rparr>] 0))"

lemma operate_upto_operate:
  assumes "operate_upto ssl uninit N operation key value s = Some (Inr x, s')"
  shows "operate_trie_non_recursive ssl uninit operation key value s = Some (Inr x, s')"
proof -
  from assms obtain root t where r: "read_trie_node ssl root_bo (new_trie_node uninit) s = Some (Inr root, t)"
    "walk ssl uninit operation key value N (Go [item_for (next_offset (node root)), \<lparr>ri_node = root, go_next = True\<rparr>] 0) t = Some (Inr x, s')"
    unfolding operate_upto_def by (erule bindM_InrD)
  from r(2) obtain l u where l: "loop_upto N (\<lambda>l _. going l) (descend_step ssl uninit operation key value [])
      (Go [item_for (next_offset (node root)), \<lparr>ri_node = root, go_next = True\<rparr>] 0) t = Some (Inr l, u)" "finish ssl operation l u = Some (Inr x, s')"
    unfolding walk_def by (erule bindM_InrD)
  show ?thesis
    using r(1) loop_upto_loop [OF l(1)] l(2)
    by (simp add: operate_trie_non_recursive_def bindM_def descend_def root_bo_def finish_def)
qed

lemma walk_Go:
  "walk ssl uninit operation key value (Suc N) (Go its d) =
   bindM (descend_step ssl uninit operation key value [] (Go its d)) (walk ssl uninit operation key value N)"
  by (simp add: walk_def [abs_def] going_def bindM_assoc flip: eta_contract_eq)

lemma walk_end [simp]:
  "walk ssl uninit operation key value (Suc N) Return = ret []"
  "walk ssl uninit operation key value (Suc N) (Break stack out) = bindM (unwind ssl operation stack) (\<lambda>_. ret out)"
  by (simp_all add: walk_def going_def finish_def)

lemma lost_parts [preserve_intros]:
  "preserves (\<lambda>s. \<not> world_intact ssl' s) (load_item ssl operation key d n)"
  "preserves (\<lambda>s. \<not> world_intact ssl' s) (do_operation ssl operation value out n)"
  unfolding load_item_def do_operation_def by (intro preserve_intros, cases operation, (simp, intro preserve_intros)+)

lemma lost_operate_node [preserve_intros]:
  "preserves (\<lambda>s. \<not> world_intact ssl' s) (operate_node ssl uninit operation key value out ri stack d)"
  unfolding operate_node_def Let_def by (intro preserve_intros)

lemma lost_step [preserve_intros]: "preserves (\<lambda>s. \<not> world_intact ssl' s) (descend_step ssl uninit operation key value out l)"
  unfolding descend_step_def by (cases l) (auto split: list.splits intro!: preserve_intros)

lemma lost_walk [preserve_intros]: "preserves (\<lambda>s. \<not> world_intact ssl' s) (walk ssl uninit operation key value N l)"
proof -
  have "preserves (\<lambda>s. \<not> world_intact ssl' s) (finish ssl operation l)" for l
    unfolding finish_def by (cases l) (simp_all, (intro preserve_intros)+)
  then show ?thesis unfolding walk_def by (intro preserve_intros)
qed

section \<open>The way to the place of a key\<close>

fun nodes :: "tree \<Rightarrow> nat" where
  "nodes Tip = 0"
| "nodes (Branch _ _ c n) = Suc (nodes c + nodes n)"
| "nodes (Leaf _ _ _ n) = Suc (nodes n)"

lemma shared_prefix_node:
  assumes "node_is nd ch nx cd" and "d \<le> length key" and "length key < 4294967296"
  shows "shared_prefix_length (key_chunk nd) (keyChunkSize (hdr nd)) (drop d key) (u32_sub (length key) d) = lcp ch (drop d key)"
  using assms by (simp add: node_is_def shared_prefix_length_lcp u32_sub_id)

text \<open>An iteration at a node of the tree.\<close>

lemma yields_node_step:
  fixes ssl uninit operation key "value" and W :: "nat \<Rightarrow> descent \<Rightarrow> ('z data_node_io_scheme, bytes) m"
  defines "W \<equiv> walk ssl uninit operation key value"
  assumes cr: "crypto_ok ssl" and n: "node_at m bo ch nx cd"
    and go: "\<And>n. node_rep m n bo ch nx cd \<Longrightarrow> \<not> tn_modified n \<Longrightarrow>
      yields ssl m F (bindM (operate_node ssl uninit operation key value [] \<lparr>ri_node = n, go_next = False\<rparr> its d) (W N)) Q"
  shows "yields ssl m F (W (Suc N) (Go (item_for bo # its) d)) Q"
proof -
  have e: "\<not> is_empty bo" using placed_not_empty [of m bo 32] n by (simp add: node_at_def is_empty_def)
  have ri: "(item_for bo)\<lparr>ri_node := n\<rparr> = \<lparr>ri_node = n, go_next = False\<rparr>" for n by (simp add: item_for_def)
  show ?thesis
    unfolding W_def walk_Go descend_step_def descent.case list.case bindM_assoc
    by (simp add: load_item_def new_trie_node_def item_for_def e bindM_assoc)
      (rule yields_bind [OF yields_read_node [OF cr n]], use go in \<open>auto simp: W_def intro!: preserve_intros\<close>)
qed

lemma item_rep_read:
  assumes "node_rep m n (fbo f) (fchunk f) (fnext f (loc t)) (fchild f (loc t))" and "apart m F C (plug f t)"
  shows "item_rep m f (loc t) \<lparr>ri_node = n, go_next = to_next f\<rparr>"
  using assms placed_not_empty [of m "fbo f" 32]
  by (auto simp: item_rep_def apart_def stored_plug sep_plug nfoot_def node_at_def)

lemma apart_plug:
  assumes "apart m F (ctx_foot fs) (plug f t)" and "ctx_sep fs"
  shows "apart m F (ctx_foot (f # fs)) t" "ctx_sep (f # fs)"
  using assms by (auto simp: apart_def stored_plug sep_plug foot_plug ffoot_def nfoot_def)

lemma yields_walk:
  fixes Q :: "bytes \<Rightarrow> bytes \<Rightarrow> nat set \<Rightarrow> bool" and ssl uninit operation key "value" and W :: "nat \<Rightarrow> descent \<Rightarrow> ('z data_node_io_scheme, bytes) m"
  defines "W \<equiv> walk ssl uninit operation key value"
  assumes cr: "crypto_ok ssl" and len: "length key < 4294967296"
    and rest: "\<And>fs its t d N. stack_rep m fs (loc t) its \<Longrightarrow> apart m F (ctx_foot fs) t \<Longrightarrow> ctx_sep fs \<Longrightarrow> d \<le> length key \<Longrightarrow>
      (fs', t', k') = (fs, t, drop d key) \<Longrightarrow> r \<le> N \<Longrightarrow> yields ssl m F (W N (Go (item_for (loc t) # its) d)) Q"
  shows "stack_rep m fs (loc t) its \<Longrightarrow> apart m F (ctx_foot fs) t \<Longrightarrow> ctx_sep fs \<Longrightarrow> wf_tree t \<Longrightarrow> d \<le> length key \<Longrightarrow>
    k = drop d key \<Longrightarrow> locate t k fs = (fs', t', k') \<Longrightarrow> nodes t + r \<le> N \<Longrightarrow>
    yields ssl m F (W N (Go (item_for (loc t) # its) d)) Q"
proof (induction t k fs arbitrary: its d N rule: locate.induct)
  case (1 k fs)
  then show ?case by (intro rest) auto
next
  case (2 bo vb v n k fs)
  show ?case
  proof (cases "k = []")
    case True
    then show ?thesis using 2 by (intro rest) auto
  next
    case False
    then obtain N' where N: "N = Suc N'" "nodes n + r \<le> N'" using "2.prems"(8) by (cases N) auto
    let ?f = "NextL bo vb v"
    have at: "node_at m bo [] (loc n) vb" using "2.prems"(2) by (simp add: apart_def)
    show ?thesis
      unfolding N loc.simps W_def
    proof (rule yields_node_step [OF cr at], goal_cases)
      case nd: (1 nd)
      have op: "operate_node ssl uninit operation key value [] \<lparr>ri_node = nd, go_next = False\<rparr> its d
          = ret (Go (item_for (loc n) # \<lparr>ri_node = nd, go_next = to_next ?f\<rparr> # its) d)"
        using nd False "2.prems"(5,6) shared_prefix_node [of "node nd" "[]" "loc n" vb d key] len
        by (simp add: operate_node_def Let_def node_rep_def node_is_def)
      have go: "yields ssl m F (W N' (Go (item_for (loc n) # \<lparr>ri_node = nd, go_next = to_next ?f\<rparr> # its) d)) Q"
        using False N(2) "2.prems" apart_plug [of m F fs ?f n] item_rep_read [of m nd ?f n F "ctx_foot fs"] nd by (intro "2.IH") auto
      show ?case unfolding op bindM_ret by (fold W_def) (rule go)
    qed
  qed
next
  case (3 bo ch c n k fs)
  have at: "node_at m bo ch (loc n) (loc c)" using "3.prems"(2) by (simp add: apart_def)
  have ch: "ch \<noteq> []" using "3.prems"(4) by simp
  consider "lcp ch k = 0" | "lcp ch k \<noteq> 0" "lcp ch k = length ch" | "lcp ch k \<noteq> 0" "lcp ch k \<noteq> length ch" by blast
  then show ?case
  proof cases
    case 1
    obtain N' where N: "N = Suc N'" "nodes n + r \<le> N'" using "3.prems"(8) by (cases N) auto
    let ?f = "NextB bo ch c"
    show ?thesis
      unfolding N loc.simps W_def
    proof (rule yields_node_step [OF cr at], goal_cases)
      case nd: (1 nd)
      have op: "operate_node ssl uninit operation key value [] \<lparr>ri_node = nd, go_next = False\<rparr> its d
          = ret (Go (item_for (loc n) # \<lparr>ri_node = nd, go_next = to_next ?f\<rparr> # its) d)"
        using nd 1 ch "3.prems"(5,6) shared_prefix_node [of "node nd" ch "loc n" "loc c" d key] len
        by (simp add: operate_node_def Let_def node_rep_def node_is_def)
      have go: "yields ssl m F (W N' (Go (item_for (loc n) # \<lparr>ri_node = nd, go_next = to_next ?f\<rparr> # its) d)) Q"
        using 1 N(2) "3.prems" apart_plug [of m F fs ?f n] item_rep_read [of m nd ?f n F "ctx_foot fs"] nd by (intro "3.IH"(1)) auto
      show ?case unfolding op bindM_ret by (fold W_def) (rule go)
    qed
  next
    case 2
    obtain N' where N: "N = Suc N'" "nodes c + r \<le> N'" using "3.prems"(8) by (cases N) auto
    let ?f = "Child bo ch n" and ?d = "d + length ch"
    have d: "?d \<le> length key" using lcp_le(2) [of ch k] 2(2) "3.prems"(5,6) by simp
    show ?thesis
      unfolding N loc.simps W_def
    proof (rule yields_node_step [OF cr at], goal_cases)
      case nd: (1 nd)
      have op: "operate_node ssl uninit operation key value [] \<lparr>ri_node = nd, go_next = False\<rparr> its d
          = ret (Go (item_for (loc c) # \<lparr>ri_node = nd, go_next = to_next ?f\<rparr> # its) ?d)"
        using nd 2 ch d "3.prems"(5,6) shared_prefix_node [of "node nd" ch "loc n" "loc c" d key] len
        by (simp add: operate_node_def Let_def node_rep_def node_is_def u32_id)
      have go: "yields ssl m F (W N' (Go (item_for (loc c) # \<lparr>ri_node = nd, go_next = to_next ?f\<rparr> # its) ?d)) Q"
        using 2 N(2) d "3.prems" apart_plug [of m F fs ?f c] item_rep_read [of m nd ?f c F "ctx_foot fs"] nd
        by (intro "3.IH"(2)) (auto simp: add.commute)
      show ?case unfolding op bindM_ret by (fold W_def) (rule go)
    qed
  next
    case 3
    then show ?thesis using "3.prems" by (intro rest) auto
  qed
qed

section \<open>Keys that are absent\<close>

lemma walk_absent:
  "operation \<noteq> PUT_OP \<Longrightarrow> walk ssl uninit operation key value (Suc (Suc N)) (Go (item_for empty_block_offset # its) d) = ret []"
  by (simp add: walk_Go descend_step_def load_item_def item_for_def new_trie_node_def is_empty_def)

lemma yields_partial:
  assumes cr: "crypto_ok ssl" and len: "length key < 4294967296" and d: "d \<le> length key" and op: "operation \<noteq> PUT_OP"
    and n: "node_at m bo ch nx cd" and p: "0 < lcp ch (drop d key)" "lcp ch (drop d key) < length ch"
  shows "yields ssl m F (walk ssl uninit operation key value (Suc (Suc N)) (Go (item_for bo # its) d)) (\<lambda>r m' F'. r = [] \<and> m' = m \<and> F' = F)"
proof (rule yields_node_step [OF cr n], goal_cases)
  case (1 nd)
  then have ret: "operate_node ssl uninit operation key value [] \<lparr>ri_node = nd, go_next = False\<rparr> its d = ret Return"
    using p op shared_prefix_node [of "node nd" ch nx cd d key] len d by (simp add: operate_node_def Let_def node_rep_def node_is_def)
  show ?case unfolding ret by (simp add: yields_ret)
qed

section \<open>Keys that are there\<close>

lemma operate_at_leaf:
  assumes "node_rep m nd bo [] nx cd" and "length key < 4294967296" and "d = length key"
  shows "operate_node ssl uninit operation key value [] \<lparr>ri_node = nd, go_next = False\<rparr> its d =
    bindM (do_operation ssl operation value [] nd) (\<lambda>(n, out). ret (Break (\<lparr>ri_node = n, go_next = False\<rparr> # its) out))"
  using assms shared_prefix_node [of "node nd" "[]" nx cd "length key" key]
  by (simp add: operate_node_def Let_def node_rep_def node_is_def)

lemma unwind_top: "unwind ssl operation (\<lparr>ri_node = n, go_next = b\<rparr> # its) = unwind ssl operation (\<lparr>ri_node = n, go_next = True\<rparr> # its)"
  by (cases its) simp_all

text \<open>What an operation leaves behind: a tree of the given shape, and not more bytes than \<open>B\<close>.\<close>

definition leaves :: "tree \<Rightarrow> nat \<Rightarrow> bytes \<Rightarrow> nat set \<Rightarrow> bool" where
  "leaves t B m F \<longleftrightarrow> (\<exists>t'. rooted m F t' \<and> skel t' = skel t \<and> length m \<le> B)"

lemma yields_end:
  assumes cr: "crypto_ok ssl" and it: "item_rep m (NextL bo vb v) (loc n) \<lparr>ri_node = nd, go_next = True\<rparr>"
    and st: "stack_rep m fs bo its" and ap: "apart m F (ctx_foot (NextL bo vb v # fs)) n" and sep: "ctx_sep (NextL bo vb v # fs)"
    and op: "operation \<noteq> DEL_OP" and B: "length m + 32 * news (NextL bo vb v # fs) \<le> B" "B < 4294967296"
  shows "yields ssl m F (bindM (unwind ssl operation (\<lparr>ri_node = nd, go_next = b\<rparr> # its)) (\<lambda>_. ret out))
    (\<lambda>r m' F'. r = out \<and> leaves (close operation fs (Leaf bo vb v n)) B m' F')"
proof -
  have rep: "stack_rep m (NextL bo vb v # fs) (loc n) (\<lparr>ri_node = nd, go_next = True\<rparr> # its)" using it st by simp
  have close: "close operation (NextL bo vb v # fs) n = close operation fs (Leaf bo vb v n)" by (simp add: settled_def)
  show ?thesis
    unfolding unwind_top [of ssl operation nd b]
    by (rule yields_bind [OF yields_unwind [OF cr rep ap sep]])
      (use op B close in \<open>auto simp: leaves_def intro!: yields_ret preserve_intros\<close>)
qed

lemma yields_get:
  assumes cr: "crypto_ok ssl" and len: "length key < 4294967296" and t: "t = Leaf bo vb v n"
    and st: "stack_rep m fs bo its" and ap: "apart m F (ctx_foot fs) t" and sep: "ctx_sep fs" and old: "news fs = 0"
  shows "yields ssl m F (walk ssl uninit GET_OP key value (Suc (Suc N)) (Go (item_for bo # its) (length key)))
    (\<lambda>r m' F'. r = v \<and> leaves (close GET_OP fs t) (length m) m' F')"
proof (rule yields_bounds)
  assume lim: "length m < 4294967296"
  let ?f = "NextL bo vb v"
  have at: "node_at m bo [] (loc n) vb" and v: "value_at m vb v" and pl: "apart m F (ctx_foot fs) (plug ?f n)" using ap t by (simp_all add: apart_def)
  have ne: "bo \<noteq> empty_block_offset" using at placed_not_empty [of m bo 32] by (simp add: node_at_def)
  note fin = apart_plug [OF pl sep]
  show "yields ssl m F (walk ssl uninit GET_OP key value (Suc (Suc N)) (Go (item_for bo # its) (length key)))
    (\<lambda>r m' F'. r = v \<and> leaves (close GET_OP fs t) (length m) m' F')"
  proof (rule yields_node_step [OF cr at], goal_cases)
    case (1 nd)
    then have it: "item_rep m ?f (loc n) \<lparr>ri_node = nd, go_next = True\<rparr>" using item_rep_read [of m nd ?f n, OF _ pl] by simp
    have child: "value_at m (child_offset (node nd)) v" using 1 v by (simp add: node_rep_def node_is_def)
    show ?case
      unfolding operate_at_leaf [OF 1(1) len refl] do_operation_def kv_operation_e.case bindM_assoc
      by (rule yields_bind [OF yields_read_value [OF cr child]], simp, rule yields_conseq [OF yields_end [OF cr it st fin]])
        (use old ne lim t in \<open>auto simp: news_def intro!: preserve_intros\<close>)
  qed
qed

lemma yields_put_leaf:
  assumes cr: "crypto_ok ssl" and len: "length key < 4294967296" and t: "t = Leaf bo vb v n" and v: "v \<noteq> []"
    and st: "stack_rep m fs bo its" and ap: "apart m F (ctx_foot fs) t" and sep: "ctx_sep fs" and old: "news fs = 0"
    and B: "length m + 9 + length w \<le> B" "B < 4294967296"
  shows "yields ssl m F (walk ssl uninit PUT_OP key w (Suc (Suc N)) (Go (item_for bo # its) (length key)))
    (\<lambda>r m' F'. r = [] \<and> leaves (close PUT_OP fs (Leaf bo vb w n)) B m' F')"
proof -
  let ?f = "NextL bo vb v" and ?V = "region vb (9 + length v)"
  have at: "node_at m bo [] (loc n) vb" and va: "value_at m vb v" and pl: "apart m F (ctx_foot fs) (plug ?f n)" using ap t by (simp_all add: apart_def)
  have ne: "bo \<noteq> empty_block_offset" using at placed_not_empty [of m bo 32] by (simp add: node_at_def)
  have dF: "?V \<inter> F = {}" and lim: "length m + 9 + length w < 4294967296" using ap t B by (auto simp: apart_def)
  show ?thesis
  proof (rule yields_node_step [OF cr at], goal_cases)
    case (1 nd)
    have child: "vb = child_offset (node nd)" using 1 by (simp add: node_rep_def node_is_def)
    show ?case
      unfolding operate_at_leaf [OF 1(1) len refl] do_operation_def kv_operation_e.case bindM_assoc
    proof (rule yields_bind [OF yields_overwrite_value [OF cr va v child dF lim]], goal_cases)
      case (1 nd' m' F')
      then obtain wb where w: "nd' = nd\<lparr>node := (node nd)\<lparr>child_offset := wb\<rparr>, tn_modified := True\<rparr>" "value_at m' wb w"
        "fresh m (F \<union> ?V) (region wb (9 + length w))" "F' = (F \<union> ?V) - region wb (9 + length w)"
        "changed m m' (?V \<union> region wb (9 + length w))" "length m' \<le> length m + 9 + length w" by blast
      let ?g = "NextL bo wb w" and ?W = "region wb (9 + length w)"
      have bnd: "ctx_foot fs \<subseteq> {..<length m}" "foot t \<subseteq> {..<length m}" using ctx_bound [OF st] stored_bound [of m t] ap by (simp_all add: apart_def)
      have W: "?W \<inter> ctx_foot fs = {}" "?W \<inter> region bo 32 = {}" "?W \<inter> foot n = {}"
        by (rule fresh_disjoint [OF w(3)]; use bnd ap in \<open>auto simp: apart_def t\<close>)+
      have V: "?V \<inter> ctx_foot fs = {}" "?V \<inter> region bo 32 = {}" "?V \<inter> foot n = {}"
        using ap unfolding apart_def t by auto
      have st': "stack_rep m' fs bo its" by (rule stack_rep_changed [OF st w(5)]) (use W V in blast)
      have n': "stored m' n" by (rule stored_changed [OF _ w(5)]) (use W V ap t in \<open>auto simp: apart_def\<close>)
      have "bo_u32 wb" using w(2) by (auto simp: value_at_def placed_def intro: bo_u32_valid)
      then have "node_rep m nd' bo [] (loc n) wb"
        using node_rep_link(2) [of m nd bo "[]" "loc n" vb wb] \<open>node_rep m nd bo [] (loc n) vb\<close> w(1) by simp
      then have rep: "node_rep m' nd' bo [] (loc n) wb" by (rule node_rep_changed [OF _ w(5)]) (use W V ne in \<open>auto simp: nfoot_def\<close>)
      have it: "item_rep m' ?g (loc n) \<lparr>ri_node = nd', go_next = True\<rparr>"
        using rep w(2) W(2) ne by (auto simp: item_rep_def nfoot_def)
      have ap': "apart m' F' (ctx_foot (?g # fs)) n"
        using n' W V ap t w(4) ne unfolding apart_def by (auto simp: ffoot_def nfoot_def)
      have sep': "ctx_sep (?g # fs)" using sep ap t W ne by (auto simp: apart_def ffoot_def nfoot_def)
      show ?case
        by (simp, rule yields_conseq [OF yields_end [OF cr it st' ap' sep']])
          (use old ne B w(6) skel_close [of "Leaf bo wb w n" "Leaf bo vb w n" PUT_OP fs] in \<open>auto simp: news_def leaves_def\<close>)
    qed (auto intro!: preserve_intros)
  qed
qed

lemma yields_delete_leaf:
  assumes cr: "crypto_ok ssl" and len: "length key < 4294967296" and t: "t = Leaf bo vb v n" and v: "v \<noteq> []" and fs: "fs \<noteq> []"
    and st: "stack_rep m fs bo its" and ap: "apart m F (ctx_foot fs) t" and sep: "ctx_sep fs" and old: "news fs = 0"
  shows "yields ssl m F (walk ssl uninit DEL_OP key value (Suc (Suc N)) (Go (item_for bo # its) (length key)))
    (\<lambda>r m' F'. r = [] \<and> leaves (close DEL_OP fs n) (length m) m' F')"
proof -
  let ?V = "region vb (9 + length v)" and ?R = "region bo 32"
  have at: "node_at m bo [] (loc n) vb" and va: "value_at m vb v" using ap t by (simp_all add: apart_def)
  have ne: "bo \<noteq> empty_block_offset" using at placed_not_empty [of m bo 32] by (simp add: node_at_def)
  have dF: "?V \<inter> F = {}" "?R \<inter> (F \<union> ?V) = {}" using ap t by (auto simp: apart_def)
  have left: "length its > 1" using length_stack [OF st] fs by simp
  then obtain prev stack where its: "its = prev # stack" by (cases its) auto
  show ?thesis
  proof (rule yields_node_step [OF cr at], goal_cases)
    case nd: (1 nd)
    have child: "vb = child_offset (node nd)" using nd by (simp add: node_rep_def node_is_def)
    show ?case
      unfolding operate_at_leaf [OF nd(1) len refl] do_operation_def kv_operation_e.case bindM_assoc
    proof (rule yields_bind [OF yields_delete_value [OF cr va v child dF(1)]], goal_cases)
      case d: (1 nd1 m1 F1)
      have "node_rep m nd1 bo [] (loc n) empty_block_offset"
        using node_rep_link(2) [OF nd(1) bo_u32_empty] d by simp
      then have rep: "node_rep m1 nd1 bo [] (loc n) empty_block_offset"
        by (rule node_rep_changed [of m _ _ _ _ _ m1 ?V]) (use d dF ne in \<open>auto simp: nfoot_def\<close>)
      have dR: "?R \<inter> F1 = {}" using d dF by auto
      have top: "unwind ssl DEL_OP (\<lparr>ri_node = nd1, go_next = False\<rparr> # its) =
          bindM (settle ssl DEL_OP (length its) nd1) (\<lambda>n. unwind ssl DEL_OP (link (location n) prev # stack))" by (simp add: its)
      show ?case
        unfolding bindM_ret prod.case walk_end top bindM_assoc
      proof (rule yields_bind [OF yields_drop_node [OF cr rep ne dR left]], goal_cases)
        case 2: (1 n' m2 F2)
        have ch: "changed m m2 (?V \<union> ?R)" using d 2 changed_trans [of m m1 ?V m2 ?R] by simp
        have out: "foot n \<inter> (?V \<union> ?R) = {}" "ctx_foot fs \<inter> (?V \<union> ?R) = {}" using ap t by (auto simp: apart_def)
        have n2: "stored m2 n" by (rule stored_changed [OF _ ch out(1)]) (use ap t in \<open>simp add: apart_def\<close>)
        have st': "stack_rep m2 fs (loc n) (link (loc n) prev # stack)"
          by (rule stack_rep_link [OF _ loc_u32 [OF n2]]) (use stack_rep_changed [OF st ch out(2)] its in simp)
        have ap': "apart m2 F2 (ctx_foot fs) n" using n2 ap t out 2 d by (auto simp: apart_def)
        have loc: "location n' = loc n" and len2: "length m2 = length m" using 2 d by simp_all
        show ?case
          unfolding loc
        proof (rule yields_bounds, rule yields_bind [OF yields_unwind [OF cr st' ap' sep]], goal_cases)
          case 3
          then show ?case using len2 old by (auto simp: leaves_def intro!: yields_ret)
        qed (use old in \<open>auto intro!: preserve_intros\<close>)
      qed (auto intro!: preserve_intros)
    qed (auto intro!: preserve_intros)
  qed
qed

section \<open>New nodes for a key\<close>

lemma created_node:
  fixes key d defines "k \<equiv> drop d key" and "nd \<equiv> create_node key d (u32 (length key)) ((new_trie_node zero_node)\<lparr>location := empty_block_offset\<rparr>)"
  assumes "d \<le> length key" and "length key < 4294967296"
  shows "node_rep m nd empty_block_offset (take 15 k) empty_block_offset empty_block_offset"
proof -
  define size where "size = min 15 (length k)"
  have u: "u32_sub (u32 (length key)) d = length k" using assms by (simp add: u32_id u32_sub_id)
  have s: "slice key d size = take 15 k" "length (take 15 k) = size" by (simp_all add: slice_def k_def size_def min_def)
  have "node nd = \<lparr>hdr = empty_trie_header\<lparr>hasNext := True, hasChild := True, keyChunkSize := size\<rparr>, next_offset = empty_block_offset,
      child_offset = empty_block_offset, key_chunk = overwrite (replicate 15 0) 0 (take 15 k)\<rparr>"
    using u by (cases "15 < length k") (simp_all add: nd_def create_node_def Let_def new_trie_node_def zero_node_def MAX_KEY_CHUNK_BYTE_SIZE_def
      size_def slice_def flip: k_def)
  moreover have "length (overwrite (replicate 15 0) 0 (take 15 k)) = 15" "take size (overwrite (replicate 15 0) 0 (take 15 k)) = take 15 k"
    using s(2) by (simp_all add: overwrite_def size_def min_def)
  ultimately show ?thesis
    using s(2) by (simp add: node_rep_def node_is_def nd_def create_node_def Let_def new_trie_node_def size_def)
qed

lemma walk_create:
  fixes key d defines "nd \<equiv> create_node key d (u32 (length key)) ((new_trie_node zero_node)\<lparr>location := empty_block_offset\<rparr>)"
  shows "walk ssl uninit PUT_OP key value (Suc N) (Go (item_for empty_block_offset # its) d) =
    bindM (operate_node ssl uninit PUT_OP key value [] \<lparr>ri_node = nd, go_next = False\<rparr> its d) (walk ssl uninit PUT_OP key value N)"
  by (simp add: walk_Go descend_step_def load_item_def item_for_def new_trie_node_def is_empty_def nd_def)

lemma yields_put_chain:
  fixes ssl uninit key "value" and W :: "nat \<Rightarrow> descent \<Rightarrow> ('z data_node_io_scheme, bytes) m"
  defines "W \<equiv> walk ssl uninit PUT_OP key value"
  assumes cr: "crypto_ok ssl" and len: "length key < 4294967296"
  shows "k = drop d key \<Longrightarrow> d \<le> length key \<Longrightarrow> stack_rep m fs empty_block_offset its \<Longrightarrow> F \<inter> ctx_foot fs = {} \<Longrightarrow> ctx_sep fs \<Longrightarrow>
    length m + 9 + length value + 32 * (news fs + length k + 1) \<le> B \<Longrightarrow> B < 4294967296 \<Longrightarrow> length k + 2 \<le> N \<Longrightarrow>
    yields ssl m F (W N (Go (item_for empty_block_offset # its) d)) (\<lambda>r m' F'. r = [] \<and> leaves (close PUT_OP fs (spine k value)) B m' F')"
proof (induction "length k" arbitrary: k d fs its N rule: less_induct)
  case less
  then obtain N' where N: "N = Suc (Suc N')" by (cases N; cases "N - 1") auto
  let ?nd = "create_node key d (u32 (length key)) ((new_trie_node zero_node)\<lparr>location := empty_block_offset\<rparr>)" and ?e = empty_block_offset
  note nd = created_node [OF less.prems(2) len, folded less.prems(1), of m]
  show ?case
  proof (cases "k = []")
    case True
    then have d: "d = length key" and sp: "spine k value = Leaf ?e ?e value Tip" and nd': "node_rep m ?nd ?e [] ?e ?e"
      using less.prems(1,2) nd by (simp_all add: spine.simps [of "[]"])
    have e: "child_offset (node ?nd) = ?e" using nd' by (simp add: node_rep_def node_is_def)
    have lim: "length m + 9 + length value < 4294967296" using less.prems by simp
    show ?thesis
      unfolding N W_def walk_create operate_at_leaf [OF nd' len d] do_operation_def kv_operation_e.case bindM_assoc sp
    proof (rule yields_bind [OF yields_new_value [OF cr e lim]], goal_cases)
      case (1 nd1 m1 F1)
      then obtain wb where w: "nd1 = ?nd\<lparr>node := (node ?nd)\<lparr>child_offset := wb\<rparr>, tn_modified := True\<rparr>" "value_at m1 wb value"
        "fresh m F (region wb (9 + length value))" "F1 = F - region wb (9 + length value)"
        "changed m m1 (region wb (9 + length value))" "length m1 \<le> length m + 9 + length value" by blast
      let ?W = "region wb (9 + length value)" and ?f = "NextL ?e wb value"
      have W: "?W \<inter> ctx_foot fs = {}" using less.prems(4) ctx_bound [OF less.prems(3)] by (intro fresh_disjoint [OF w(3)]) auto
      have st': "stack_rep m1 fs ?e its" by (rule stack_rep_changed [OF less.prems(3) w(5)]) (use W in blast)
      have "bo_u32 wb" using w(2) by (auto simp: value_at_def placed_def intro: bo_u32_valid)
      then have "node_rep m nd1 ?e [] ?e wb" using node_rep_link(2) [OF nd'] w(1) by simp
      then have "node_rep m1 nd1 ?e [] ?e wb" by (rule node_rep_changed [OF _ w(5)]) (simp add: nfoot_def)
      then have it: "item_rep m1 ?f (loc Tip) \<lparr>ri_node = nd1, go_next = True\<rparr>" using w(2) by (simp add: item_rep_def nfoot_def)
      have ap: "apart m1 F1 (ctx_foot (?f # fs)) Tip" using less.prems(4) w(4) W by (auto simp: apart_def ffoot_def nfoot_def)
      have sep: "ctx_sep (?f # fs)" using less.prems(5) W by (auto simp: ffoot_def nfoot_def)
      show ?case
        by (simp, rule yields_conseq [OF yields_end [OF cr it st' ap sep]])
          (use less.prems(6,7) w(6) skel_close [of "Leaf ?e wb value Tip" "Leaf ?e ?e value Tip" PUT_OP fs] in \<open>auto simp: news_def leaves_def\<close>)
    qed (auto intro!: preserve_intros)
  next
    case False
    define ch where "ch = take 15 k"
    let ?f = "Child ?e ch Tip" and ?d = "d + length ch"
    have l: "lcp ch (drop d key) = length ch" 
    proof -
      have "drop d key = ch @ drop 15 k" unfolding ch_def less.prems(1) by (rule append_take_drop_id [symmetric])
      then show ?thesis by simp
    qed
    have ne: "ch \<noteq> []" and d: "?d \<le> length key" using False less.prems(1,2) by (auto simp: ch_def)
    have op: "operate_node ssl uninit PUT_OP key value [] \<lparr>ri_node = ?nd, go_next = False\<rparr> its d
        = ret (Go (item_for ?e # \<lparr>ri_node = ?nd, go_next = False\<rparr> # its) ?d)"
      using nd l ne d less.prems(2) shared_prefix_node [of "node ?nd" ch ?e ?e d key] len unfolding ch_def [symmetric]
      by (simp add: operate_node_def Let_def node_rep_def node_is_def u32_id)
    have k': "drop 15 k = drop ?d key" using less.prems(1) by (simp add: ch_def min_def add.commute)
    have "item_rep m ?f ?e \<lparr>ri_node = ?nd, go_next = False\<rparr>" using nd by (simp add: item_rep_def nfoot_def flip: ch_def)
    then have st: "stack_rep m (?f # fs) ?e (\<lparr>ri_node = ?nd, go_next = False\<rparr> # its)" using less.prems(3) by simp
    have close: "close PUT_OP (?f # fs) (spine (drop 15 k) value) = close PUT_OP fs (spine k value)"
      using False by (simp add: settled_def spine.simps [of k] ch_def)
    have "yields ssl m F (W (Suc N') (Go (item_for ?e # \<lparr>ri_node = ?nd, go_next = False\<rparr> # its) ?d))
        (\<lambda>r m' F'. r = [] \<and> leaves (close PUT_OP (?f # fs) (spine (drop 15 k) value)) B m' F')"
    proof (rule less.hyps [OF _ k' d st])
      define x where "x = length (drop 15 k)"
      have sz: "Suc x \<le> length k" using False by (cases k) (simp_all add: x_def)
      have nw: "news (?f # fs) = Suc (news fs)" by (simp add: news_def)
      show "length (drop 15 k) < length k" "length (drop 15 k) + 2 \<le> Suc N'" using sz less.prems(8) N unfolding x_def [symmetric] by simp_all
      show "length m + 9 + length value + 32 * (news (?f # fs) + length (drop 15 k) + 1) \<le> B" unfolding nw x_def [symmetric] using sz less.prems(6) by simp
    qed (use less.prems(4,5,7) in \<open>simp_all add: ffoot_def nfoot_def\<close>)
    then show ?thesis unfolding close unfolding N W_def walk_create op bindM_ret .
  qed
qed

section \<open>Splitting a node\<close>

lemma yields_split:
  assumes cr: "crypto_ok ssl" and n: "node_rep m nd bo ch nx cd" and p: "p < length ch" and u: "length (key_chunk uninit) = 15"
    and lim: "length m + 63 < 4294967296"
  shows "yields ssl m F (do_split_trie_node ssl uninit nd p) (\<lambda>nd' m' F'. \<exists>b2.
    nd' = nd\<lparr>node := (node nd)\<lparr>hdr := (hdr (node nd))\<lparr>keyChunkSize := p\<rparr>, child_offset := b2\<rparr>, tn_modified := True\<rparr>
    \<and> node_at m' b2 (drop p ch) empty_block_offset cd \<and> fresh m F (region b2 32) \<and> F' \<subseteq> F \<union> {length m..} - region b2 32
    \<and> changed m m' (region b2 32) \<and> length m' \<le> length m + 63)"
proof -
  have nd: "node_is (node nd) ch nx cd" using n by (simp add: node_rep_def)
  let ?q = "drop p ch"
  let ?n2 = "create_node ?q 0 (length ?q) (new_trie_node uninit)"
  let ?n2 = "?n2\<lparr>node := (node ?n2)\<lparr>next_offset := empty_block_offset, child_offset := child_offset (node nd)\<rparr>, tn_modified := True\<rparr>"
  have sl: "slice (key_chunk (node nd)) p (keyChunkSize (hdr (node nd)) - p) = ?q"
    using nd p by (simp add: node_is_def slice_def flip: drop_take)
  have ul: "u32_sub (length ch - p) 0 = length ch - p" using u32_sub_id [of 0 "length ch - p"] nd by (auto simp: node_is_def)
  have n2: "node_is (node ?n2) ?q empty_block_offset cd" "location ?n2 = empty_block_offset"
    using nd p u ul by (auto simp: node_is_def create_node_def Let_def new_trie_node_def MAX_KEY_CHUNK_BYTE_SIZE_def overwrite_def slice_def)
  have c: "\<not> \<not> (keyChunkSize (hdr (node nd)) > 0 \<and> p < keyChunkSize (hdr (node nd)))" using nd p by (auto simp: node_is_def)
  show ?thesis
    unfolding do_split_trie_node_def Let_def sl
  proof (rule yields_throwIf [OF c], subst bindM_assoc [symmetric], rule yields_bind [OF yields_consume [OF cr]], goal_cases)
    case (2 x m1 F1)
    then obtain z where z: "length z < 32" "m1 = m @ z" "F1 = F \<union> {length m..<length m1}" by blast
    show ?case
    proof (rule yields_bind [OF yields_write_node [OF cr n2(1)]], goal_cases)
      case (3 n' m2 F2)
      then have at: "node_at m2 (location n') ?q empty_block_offset cd" and fr: "fresh m1 F1 (region (location n') 32)"
        and F2: "F2 = F1 - region (location n') 32" and ch: "changed m1 m2 (region (location n') 32)" and l: "length m2 \<le> length m1 + 32"
        using n2(2) by (simp_all add: wrote_def)
      have "fresh m F (region (location n') 32)" using fr z by (auto simp: fresh_def)
      moreover have "changed m m2 (region (location n') 32)"
        using changed_trans [OF changed_append [of m z "{}"], of m2 "region (location n') 32"] ch z(2) by simp
      ultimately show ?case using at F2 z l by (intro yields_ret exI [of _ "location n'"]) auto
    qed (use n2(2) z lim in \<open>auto intro!: preserve_intros\<close>)
  qed (use lim in \<open>auto intro!: preserve_intros\<close>)
qed

lemma yields_put_split:
  fixes ssl uninit key "value" and W :: "nat \<Rightarrow> descent \<Rightarrow> ('z data_node_io_scheme, bytes) m"
  defines "W \<equiv> walk ssl uninit PUT_OP key value"
  assumes cr: "crypto_ok ssl" and len: "length key < 4294967296" and u: "length (key_chunk uninit) = 15"
    and t: "t = Branch bo ch c n" and k: "k = drop d key" "d \<le> length key" and p: "p = lcp ch k" "0 < p" "p < length ch"
    and st: "stack_rep m fs bo its" and ap: "apart m F (ctx_foot fs) t" and sep: "ctx_sep fs" and old: "news fs = 0" and wf: "wf_tree t"
    and B: "length m + 72 + length value + 32 * (length k + 1) \<le> B" "B < 4294967296" and N: "length k + 5 \<le> N"
  shows "yields ssl m F (W N (Go (item_for bo # its) d)) (\<lambda>r m' F'. r = [] \<and>
    leaves (close PUT_OP fs (Branch bo (take p ch) (Branch empty_block_offset (drop p ch) c (spine (drop p k) value)) n)) B m' F')"
proof -
  have at: "node_at m bo ch (loc n) (loc c)" using ap t by (simp add: apart_def)
  have ne: "bo \<noteq> empty_block_offset" using at placed_not_empty [of m bo 32] by (simp add: node_at_def)
  have pk: "p \<le> length k" "take p ch = take p k" using lcp_le(2) [of ch k] lcp_take [of ch k] p(1) by simp_all
  then have dp: "d + p \<le> length key" using k by simp
  have lim: "length m + 63 < 4294967296" using B by simp
  obtain N' where N': "N = Suc (Suc (Suc N'))" "length (drop p k) + 2 \<le> N'"
    using N that [of "N - 3"] by (simp add: numeral_3_eq_3)
  show ?thesis
    unfolding N' W_def
  proof (rule yields_node_step [OF cr at], goal_cases)
    case nd: (1 nd)
    have op: "operate_node ssl uninit PUT_OP key value [] \<lparr>ri_node = nd, go_next = False\<rparr> its d
        = bindM (do_split_trie_node ssl uninit nd p) (\<lambda>n. ret (Go (\<lparr>ri_node = n, go_next = False\<rparr> # its) d))"
      using nd p k shared_prefix_node [of "node nd" ch "loc n" "loc c" d key] len
      by (simp add: operate_node_def Let_def node_rep_def node_is_def)
    show ?case
      unfolding op bindM_assoc
    proof (rule yields_bind [OF yields_split [OF cr nd(1) p(3) u lim]], goal_cases)
      case (1 n1 m1 F1)
      then obtain b2 where n1: "n1 = nd\<lparr>node := (node nd)\<lparr>hdr := (hdr (node nd))\<lparr>keyChunkSize := p\<rparr>, child_offset := b2\<rparr>, tn_modified := True\<rparr>"
        and at2: "node_at m1 b2 (drop p ch) empty_block_offset (loc c)" and fr: "fresh m F (region b2 32)"
        and F1: "F1 \<subseteq> F \<union> {length m..} - region b2 32" and chg: "changed m m1 (region b2 32)" and lm: "length m1 \<le> length m + 63" by blast
      let ?f = "Child bo (take p ch) n" and ?t2 = "Branch b2 (drop p ch) c Tip" and ?k2 = "drop p k" and ?R = "region b2 32"
      have bnd: "ctx_foot fs \<subseteq> {..<length m}" "foot t \<subseteq> {..<length m}" using ctx_bound [OF st] stored_bound [of m t] ap by (simp_all add: apart_def)
      have R: "?R \<inter> ctx_foot fs = {}" "?R \<inter> foot t = {}" by (rule fresh_disjoint [OF fr]; use bnd ap in \<open>auto simp: apart_def\<close>)+
      have b2: "bo_u32 b2" using at2 by (auto simp: node_at_def placed_def intro: bo_u32_valid)
      have "node_is (node nd) ch (loc n) (loc c)" using nd by (simp add: node_rep_def)
      then have is1: "node_is (node n1) (take p ch) (loc n) b2" using b2 p(3) unfolding n1 node_is_def by (auto simp: min_def) (metis less_imp_le_nat min.absorb1 take_take)
      then have rep: "node_rep m1 n1 bo (take p ch) (loc n) b2"
        using nd ne placed_changed [OF _ chg] by (auto simp: node_rep_def n1)
      have s: "stored m1 c" "stored m1 n" 
        by (rule stored_changed [OF _ chg]; use ap t R in \<open>auto simp: apart_def\<close>)+
      have it: "item_rep m1 ?f b2 \<lparr>ri_node = n1, go_next = False\<rparr>" using rep s ap t ne by (auto simp: item_rep_def apart_def nfoot_def)
      have st1: "stack_rep m1 (?f # fs) (loc ?t2) (\<lparr>ri_node = n1, go_next = False\<rparr> # its)"
        using it stack_rep_changed [OF st chg] R(1) by auto
      have "F1 \<inter> (foot t \<union> ctx_foot fs) = {}" using F1 bnd ap by (fastforce simp: apart_def)
      then have ap1: "apart m1 F1 (ctx_foot (?f # fs)) ?t2"
        using at2 s(1) R ap t ne F1 unfolding apart_def by (auto simp: ffoot_def nfoot_def)
      have sep1: "ctx_sep (?f # fs)" using sep ap t ne by (auto simp: apart_def ffoot_def nfoot_def)
      have "drop d key = take p ch @ drop p k" unfolding pk(2) k(1) [symmetric] by simp
      then have l1: "lcp (take p ch) (drop d key) = p" "p \<noteq> 0" "length (take p ch) = p" using p(2,3) by simp_all
      have go1: "walk ssl uninit PUT_OP key value (Suc (Suc N')) (Go (\<lparr>ri_node = n1, go_next = False\<rparr> # its) d) =
          walk ssl uninit PUT_OP key value (Suc N') (Go (item_for b2 # \<lparr>ri_node = n1, go_next = False\<rparr> # its) (d + p))"
        using rep l1 shared_prefix_node [OF is1, of d key] dp len k(2)
        by (simp add: walk_Go [of _ _ _ _ _ "Suc N'"] descend_step_def load_item_def operate_node_def Let_def node_rep_def node_is_def u32_id)
      show ?case
        unfolding bindM_ret go1
      proof (rule yields_node_step [OF cr at2], goal_cases)
        case n2: (1 n2)
        let ?g = "NextB b2 (drop p ch) c" and ?e = empty_block_offset
        have k2: "?k2 = drop (d + p) key" using k(1) by (simp add: add.commute)
        have l2: "lcp (drop p ch) (drop (d + p) key) = 0" using lcp_drop [of ch k] p(1) k2 by simp
        have op2: "operate_node ssl uninit PUT_OP key value [] \<lparr>ri_node = n2, go_next = False\<rparr> (\<lparr>ri_node = n1, go_next = False\<rparr> # its) (d + p)
            = ret (Go (item_for ?e # \<lparr>ri_node = n2, go_next = True\<rparr> # \<lparr>ri_node = n1, go_next = False\<rparr> # its) (d + p))"
          using n2 l2 p(3) shared_prefix_node [of "node n2" "drop p ch" ?e "loc c" "d + p" key] len dp
          by (simp add: operate_node_def Let_def node_rep_def node_is_def)
        have pl: "apart m1 F1 (ctx_foot (?f # fs)) (plug ?g Tip)" using ap1 by simp
        have "item_rep m1 ?g (loc Tip) \<lparr>ri_node = n2, go_next = to_next ?g\<rparr>" by (rule item_rep_read [OF _ pl]) (use n2 in simp)
        then have st2: "stack_rep m1 (?g # ?f # fs) ?e (\<lparr>ri_node = n2, go_next = True\<rparr> # \<lparr>ri_node = n1, go_next = False\<rparr> # its)"
          using st1 by simp
        have d2: "F1 \<inter> ctx_foot (?g # ?f # fs) = {}" "ctx_sep (?g # ?f # fs)" using apart_plug [OF pl sep1] by (simp_all add: apart_def)
        have nw: "news (?g # ?f # fs) = 0" using old ne at2 placed_not_empty [of m1 b2 32] by (simp add: news_def node_at_def)
        have lb: "length m1 + 9 + length value + 32 * (news (?g # ?f # fs) + length ?k2 + 1) \<le> B"
          using B(1) lm nw diff_le_self [of "length k" p] by simp
        have eq: "skel (close PUT_OP (?g # ?f # fs) (spine ?k2 value)) =
            skel (close PUT_OP fs (Branch bo (take p ch) (Branch ?e (drop p ch) c (spine ?k2 value)) n))"
          unfolding close.simps by (rule skel_close) (simp add: settled_def)
        show ?case
          unfolding op2 bindM_ret
          by (rule yields_conseq [OF yields_put_chain [OF cr len k2 dp st2 d2 lb B(2) N'(2)]]) (use eq in \<open>simp add: leaves_def\<close>)
      qed
    qed (auto intro!: preserve_intros)
  qed
qed

end
