(* ===== verification/Trie_Map.thy ===== *)
theory Trie_Map
  imports Trie_Walk
begin

text \<open>
  The operations of the trie as operations on a map from keys to values. \<open>trie_map ssl s M n\<close>: the memory of
  the state \<open>s\<close> holds a trie for the map \<open>M\<close> in its first \<open>n\<close> bytes.
\<close>

lemma locate_news:
  "stored m t \<Longrightarrow> news fs = 0 \<Longrightarrow> locate t k fs = (fs', t', k') \<Longrightarrow> news fs' = 0"
proof (induction t k fs rule: locate.induct)
  case (2 bo vb v n k fs)
  then show ?case using placed_not_empty by (auto simp: news_def node_at_def split: if_splits)
next
  case (3 bo ch c n k fs)
  then show ?case using placed_not_empty by (auto simp: news_def node_at_def split: if_splits)
qed simp

lemma stored_nodes: "stored m t \<Longrightarrow> sep t \<Longrightarrow> 32 * nodes t \<le> card (foot t) \<and> finite (foot t)"
proof (induction t)
  case (Branch bo ch c n)
  then have d: "region bo 32 \<inter> (foot c \<union> foot n) = {}" "foot c \<inter> foot n = {}" and f: "finite (foot c)" "finite (foot n)" by simp_all
  have "card (region bo 32 \<union> (foot c \<union> foot n)) = 32 + (card (foot c) + card (foot n))"
    using d f by (subst card_Un_disjoint) (auto simp: region_def card_Un_disjoint)
  then show ?case using Branch f by (simp add: Un_assoc region_def)
next
  case (Leaf bo vb v n)
  then have d: "region bo 32 \<inter> foot n = {}" and f: "finite (foot n)" by auto
  have "card (region bo 32 \<union> foot n) = 32 + card (foot n)" using d f by (subst card_Un_disjoint) (auto simp: region_def)
  moreover have "card (region bo 32 \<union> foot n) \<le> card (foot (Leaf bo vb v n))" using f by (intro card_mono) (auto simp: region_def)
  ultimately show ?case using Leaf f by (simp add: region_def)
qed simp

lemma nodes_bound: "stored m t \<Longrightarrow> sep t \<Longrightarrow> nodes t \<le> length m"
  using stored_nodes [of m t] card_mono [OF _ stored_bound, of m t] by simp

section \<open>The operations on trees\<close>

text \<open>The walk from the root to the place of the key.\<close>

lemma yields_operate:
  fixes ssl uninit operation key "value" N and op :: "('z data_node_io_scheme, bytes) m" and W :: "nat \<Rightarrow> descent \<Rightarrow> ('z data_node_io_scheme, bytes) m"
  defines "op \<equiv> operate_upto ssl uninit N operation key value" and "W \<equiv> walk ssl uninit operation key value"
  assumes cr: "crypto_ok ssl" and len: "length key < 4294967296" and t: "rooted m F t" "wf_tree t" and N: "nodes t + r \<le> N"
    and place: "\<And>fs its t' d N. stack_rep m fs (loc t') its \<Longrightarrow> apart m F (ctx_foot fs) t' \<Longrightarrow> ctx_sep fs \<Longrightarrow> news fs = 0 \<Longrightarrow>
      d \<le> length key \<Longrightarrow> all_route fs key (drop d key) \<Longrightarrow> is_place t' (drop d key) \<Longrightarrow> close GET_OP fs t' = t \<Longrightarrow> r \<le> N \<Longrightarrow>
      yields ssl m F (W N (Go (item_for (loc t') # its) d)) Q"
  shows "yields ssl m F op Q"
proof -
  have at: "node_at m root_bo [] (loc t) empty_block_offset" using t(1) by (simp add: rooted_def)
  show ?thesis
    unfolding op_def operate_upto_def
  proof (rule yields_bind [OF yields_read_node [OF cr at]], goal_cases)
  case root: (1 n m' F')
  obtain fs' t' k' where lo: "locate t key [] = (fs', t', k')" by (cases "locate t key []")
  have nx: "next_offset (node n) = loc t" using root by (simp add: node_rep_def node_is_def)
  have st: "stack_rep m [] (loc t) [\<lparr>ri_node = n, go_next = True\<rparr>]" using root by simp
  have ap: "apart m F (ctx_foot []) t" using t(1) by (simp add: rooted_def)
  have nw: "news fs' = 0" by (rule locate_news [of m, OF _ _ lo]) (use ap in \<open>simp_all add: apart_def news_def\<close>)
  have pl: "close GET_OP fs' t' = t \<and> all_route fs' key k' \<and> is_place t' k'" using locate_place [OF lo t(2), of key] by simp
  have "yields ssl m F (W N (Go (item_for (loc t) # [\<lparr>ri_node = n, go_next = True\<rparr>]) 0)) Q"
    unfolding W_def
  proof (rule yields_walk [OF cr len _ st ap _ t(2) _ _ lo N, where d = 0], goal_cases)
    case (1 fs its t2 d N2)
    then show ?case using place [of fs t2 its d N2] nw pl by (simp add: W_def)
  qed simp_all
  then show ?case using root nx by (simp add: W_def)
  qed (intro preserve_intros)
qed

definition result :: "bytes option \<Rightarrow> bytes" where
  "result r = (case r of None \<Rightarrow> [] | Some v \<Rightarrow> v)"

text \<open>A tree for the map \<open>M\<close> in at most \<open>B\<close> bytes.\<close>

definition maps :: "(bytes \<rightharpoonup> bytes) \<Rightarrow> nat \<Rightarrow> bytes \<Rightarrow> nat set \<Rightarrow> bool" where
  "maps M B m F \<longleftrightarrow> (\<exists>t. rooted m F t \<and> wf_tree t \<and> lookup t = M \<and> length m \<le> B)"

lemma leaves_maps: "leaves t B m F \<Longrightarrow> wf_tree t \<Longrightarrow> lookup t = M \<Longrightarrow> maps M B m F"
  unfolding leaves_def maps_def using skel_eqD by metis

lemma yields_absent:
  assumes cr: "crypto_ok ssl" and len: "length key < 4294967296" and d: "d \<le> length key" and op: "operation \<noteq> PUT_OP"
    and t: "stored m t" "is_place t (drop d key)" "lookup t (drop d key) = None"
  shows "yields ssl m F (walk ssl uninit operation key value (Suc (Suc N)) (Go (item_for (loc t) # its) d)) (\<lambda>r m' F'. r = [] \<and> m' = m \<and> F' = F)"
proof (cases t)
  case Tip
  then show ?thesis using op by (simp add: walk_absent yields_ret)
next
  case (Branch bo ch c n)
  then show ?thesis using t yields_partial [OF cr len d op, of m bo ch "loc n" "loc c"] by simp
next
  case (Leaf bo vb v n)
  then show ?thesis using t lookup_place [OF t(2)] by simp
qed

lemma yields_operate_get:
  assumes cr: "crypto_ok ssl" and len: "length key < 4294967296" and t: "rooted m F t" "wf_tree t" and N: "nodes t + 2 \<le> N"
  shows "yields ssl m F (operate_upto ssl uninit N GET_OP key value) (\<lambda>r m' F'. r = result (lookup t key) \<and> maps (lookup t) (length m) m' F')"
proof (rule yields_operate [OF cr len t N], goal_cases)
  case (1 fs its t' d N)
  obtain N' where N': "N = Suc (Suc N')" using 1(9) by (cases N; cases "N - 1") auto
  have lk: "lookup t key = lookup t' (drop d key)" using lookup_close [OF 1(6), of t'] 1(8) by simp
  show ?case
  proof (cases "lookup t' (drop d key)")
    case None
    then show ?thesis
      unfolding N' by (intro yields_conseq [OF yields_absent [OF cr len 1(5)]]) (use 1 lk t in \<open>auto simp: apart_def result_def maps_def\<close>)
  next
    case (Some v)
    then obtain bo vb n where t': "t' = Leaf bo vb v n" using lookup_place [OF 1(7)] by (auto split: tree.splits)
    then have d: "d = length key" using 1(5,7) by simp
    show ?thesis
      unfolding N' d loc.simps t'
      by (rule yields_conseq [OF yields_get [OF cr len refl]])
        (use 1 t' Some lk t(2) leaves_maps [of t "length m"] in \<open>auto simp: apart_def result_def\<close>)
  qed
qed

lemma yields_operate_delete:
  assumes cr: "crypto_ok ssl" and len: "length key < 4294967296" and key: "key \<noteq> []" and t: "rooted m F t" "wf_tree t" and N: "nodes t + 2 \<le> N"
  shows "yields ssl m F (operate_upto ssl uninit N DEL_OP key value) (\<lambda>r m' F'. r = [] \<and> maps ((lookup t)(key := None)) (length m) m' F')"
proof (rule yields_operate [OF cr len t N], goal_cases)
  case (1 fs its t' d N)
  obtain N' where N': "N = Suc (Suc N')" using 1(9) by (cases N; cases "N - 1") auto
  have lk: "lookup t key = lookup t' (drop d key)" using lookup_close [OF 1(6), of t'] 1(8) by simp
  show ?case
  proof (cases "lookup t' (drop d key)")
    case None
    then have "(lookup t)(key := None) = lookup t" using lk by (auto simp: fun_eq_iff)
    then show ?thesis
      unfolding N' by (intro yields_conseq [OF yields_absent [OF cr len 1(5)]]) (use 1 None t in \<open>auto simp: apart_def maps_def\<close>)
  next
    case (Some v)
    then obtain bo vb n where t': "t' = Leaf bo vb v n" using lookup_place [OF 1(7)] by (auto split: tree.splits)
    then have d: "d = length key" using 1(5,7) by simp
    have fs: "fs \<noteq> []" using 1(6) key d by auto
    have w: "wf_tree (close GET_OP fs t')" using 1(8) t(2) by simp
    then have wf: "v \<noteq> []" "wf_tree n" "None \<notin> heads n" using wf_close [OF w] t' by simp_all
    have "updates t' n [] None" using lookup_heads [OF wf(2), of "[]"] wf(3) t' by (auto simp: updates_def head_of_def)
    then have u: "updates (close GET_OP fs t') (close DEL_OP fs n) key None \<and> wf_tree (close DEL_OP fs n)"
      using close_updates [OF _ w wf(2), of "[]" None key DEL_OP] 1(6) t' d by auto
    have mp: "lookup (close DEL_OP fs n) = (lookup t)(key := None)" "wf_tree (close DEL_OP fs n)" using u 1(8) by (simp_all add: updates_def)
    show ?thesis
      unfolding N' d loc.simps t'
      by (rule yields_conseq [OF yields_delete_leaf [OF cr len refl wf(1) fs]])
        (use 1 t' mp leaves_maps [of "close DEL_OP fs n" "length m"] in \<open>auto simp: apart_def\<close>)
  qed
qed

lemma yields_operate_put:
  assumes cr: "crypto_ok ssl" and len: "length key < 4294967296" and u: "length (key_chunk uninit) = 15" and v: "value \<noteq> []"
    and t: "rooted m F t" "wf_tree t" and N: "nodes t + (length key + 5) \<le> N"
    and B: "length m + 104 + length value + 32 * length key \<le> B" "B < 4294967296"
  shows "yields ssl m F (operate_upto ssl uninit N PUT_OP key value) (\<lambda>r m' F'. r = [] \<and> maps ((lookup t)(key \<mapsto> value)) B m' F')"
proof (rule yields_operate [OF cr len t N], goal_cases)
  case (1 fs its t' d N)
  let ?k = "drop d key"
  have w: "wf_tree (close GET_OP fs t')" using 1(8) t(2) by simp
  have wt: "wf_tree t'" using wf_close [OF w] .
  have lk: "length ?k \<le> length key" by simp
  have up: "maps ((lookup t)(key \<mapsto> value)) B m' F'"
    if "leaves (close PUT_OP fs t2) B m' F'" "updates t' t2 ?k (Some value)" "wf_tree t2" "heads t2 \<subseteq> insert (head_of ?k) (heads t')" for t2 m' F'
    using leaves_maps [OF that(1)] close_updates [OF that(2) w that(3,4) 1(6), of PUT_OP] 1(8) by (simp add: updates_def)
  show ?case
  proof (cases t')
    case Tip
    have "heads (spine ?k value) \<subseteq> insert (head_of ?k) (heads t')" "wf_tree (spine ?k value)" using wf_spine [OF v, of ?k] by simp_all
    note up = up [OF _ updates_spine [of ?k "value", folded Tip] this(2,1)]
    have b: "length m + 9 + length value + 32 * (news fs + length ?k + 1) \<le> B" "length ?k + 2 \<le> N" using B(1) lk 1(4,9) by simp_all
    have st: "stack_rep m fs empty_block_offset its" "F \<inter> ctx_foot fs = {}" using 1(1,2) Tip by (auto simp: apart_def)
    show ?thesis
      unfolding Tip loc.simps
      by (rule yields_conseq [OF yields_put_chain [OF cr len refl 1(5) st 1(3) b(1) B(2) b(2)]]) (use up in auto)
  next
    case (Branch bo ch c n)
    let ?p = "lcp ch ?k"
    have p: "0 < ?p" "?p < length ch" using 1(7) Branch by simp_all
    let ?t2 = "Branch bo (take ?p ch) (Branch empty_block_offset (drop ?p ch) c (spine (drop ?p ?k) value)) n"
    note us = updates_split [OF p(1) refl p(2) wt [unfolded Branch] v, of bo empty_block_offset]
    have hd: "heads ?t2 \<subseteq> insert (head_of ?k) (heads t')" unfolding us(3) Branch by blast
    note up = up [OF _ us(1) [folded Branch] us(2) hd]
    have b: "length m + 72 + length value + 32 * (length ?k + 1) \<le> B" "length ?k + 5 \<le> N" using B(1) lk 1(9) by simp_all
    have st: "stack_rep m fs bo its" using 1(1) Branch by simp
    show ?thesis
      unfolding Branch loc.simps
      by (rule yields_conseq [OF yields_put_split [OF cr len u refl refl 1(5) refl p st 1(2) [unfolded Branch] 1(3,4) wt [unfolded Branch] b(1) B(2) b(2)]])
        (use up in blast)
  next
    case (Leaf bo vb x n)
    then have d: "d = length key" using 1(5,7) by simp
    obtain N' where N': "N = Suc (Suc N')" using 1(9) by (cases N; cases "N - 1") auto
    have x: "x \<noteq> []" using wt Leaf by simp
    have u2: "updates t' (Leaf bo vb value n) ?k (Some value)" using Leaf d by (auto simp: updates_def)
    have st: "stack_rep m fs bo its" using 1(1) Leaf by simp
    show ?thesis
      unfolding N' d Leaf loc.simps
      by (rule yields_conseq [OF yields_put_leaf [OF cr len refl x st 1(2) [unfolded Leaf] 1(3,4) _ B(2)]])
        (use B(1) up [OF _ u2] wt v Leaf in auto)
  qed
qed

end
