(* ===== verification/Trie_Returns.thy ===== *)
theory Trie_Returns
  imports Trie_Map
begin

text \<open>
  The operations of the trie return from every state, whatever the blocks of the host contain: the loops
  over data nodes end, and the bounded loop over the nodes of the trie ends by its bound. What is needed of
  a state is that the entries of the cache are in the order of their keys and that offsets fit their type.
\<close>

section \<open>Operations that return\<close>

definition runs :: "('s \<Rightarrow> bool) \<Rightarrow> ('s, 'a) m \<Rightarrow> ('a \<Rightarrow> bool) \<Rightarrow> bool" where
  "runs P op Q \<longleftrightarrow> (\<forall>s. P s \<longrightarrow> (\<exists>r s'. op s = Some (r, s') \<and> P s' \<and> (\<forall>x. r = Inr x \<longrightarrow> Q x)))"

lemma runs_bind:
  assumes "runs P op Q" and "\<And>x. Q x \<Longrightarrow> runs P (f x) R"
  shows "runs P (bindM op f) R"
  unfolding runs_def
proof (intro allI impI)
  fix s assume "P s"
  then obtain r t where o: "op s = Some (r, t)" "P t" "\<forall>x. r = Inr x \<longrightarrow> Q x" using assms(1) by (auto simp: runs_def)
  show "\<exists>r s'. bindM op f s = Some (r, s') \<and> P s' \<and> (\<forall>x. r = Inr x \<longrightarrow> R x)"
  proof (cases r)
    case (Inl e)
    then show ?thesis using o by (simp add: bindM_def)
  next
    case (Inr x)
    then show ?thesis using o assms(2) [of x] by (simp add: bindM_def runs_def)
  qed
qed

lemma runs_ret: "Q x \<Longrightarrow> runs P (ret x) Q"
  by (simp add: runs_def ret_def)

lemma runs_throw: "runs P (throw e) Q"
  by (simp add: runs_def throw_def)

lemma runs_throwIf: "(\<not> c \<Longrightarrow> runs P (f ()) Q) \<Longrightarrow> runs P (bindM (throwIf c e) f) Q"
  by (auto simp: throwIf_def runs_def bindM_def throw_def ret_def)

lemma runs_get: "(\<And>s. P s \<Longrightarrow> Q (f s)) \<Longrightarrow> runs P (get f) Q"
  by (auto simp: runs_def get_def)

lemma runs_conseq: "runs P op Q \<Longrightarrow> (\<And>x. Q x \<Longrightarrow> R x) \<Longrightarrow> runs P op R"
  unfolding runs_def by blast

lemma runs_any: "runs P op Q \<Longrightarrow> runs P op (\<lambda>_. True)"
  by (erule runs_conseq) simp

lemma runs_structure: "total_on P op \<Longrightarrow> preserves P op \<Longrightarrow> runs P op (\<lambda>_. True)"
  unfolding runs_def total_on_def using preservesD by fastforce

section \<open>The free space\<close>

definition small :: "block_offset_t \<Rightarrow> bool" where
  "small bo \<longleftrightarrow> bytes bo < 4294967296"

definition fs_small :: "free_space_collector \<Rightarrow> bool" where
  "fs_small c \<longleftrightarrow> (\<forall>x \<in> set (free_space_collection c). small (fsi_bo x)) \<and> small (fsi_bo (deferred_fsi c))"

lemma small_advance: "small bo \<Longrightarrow> small (advance_block_offset bo n)"
  using advance_bytes(1) by (simp add: small_def)

lemma fs_small_erase: "fs_small c \<Longrightarrow> fs_small (erase_item i c)"
  by (auto simp: fs_small_def erase_item_def dest: in_set_takeD in_set_dropD)

lemma fs_small_insert: "fs_small c \<Longrightarrow> small (fsi_bo x) \<Longrightarrow> fs_small (insert_item i x c)"
  by (auto simp: fs_small_def insert_item_def dest: in_set_takeD in_set_dropD)

definition fs_returns :: "(free_space_collector, 'a) m \<Rightarrow> ('a \<Rightarrow> bool) \<Rightarrow> free_space_collector \<Rightarrow> bool" where
  "fs_returns op Q c \<longleftrightarrow> (\<exists>r c'. op c = Some (r, c') \<and> fs_small c' \<and> (\<forall>x. r = Inr x \<longrightarrow> Q x))"

lemma fs_returns_bind:
  assumes "fs_returns op Q c" and "\<And>x c'. op c = Some (Inr x, c') \<Longrightarrow> fs_small c' \<Longrightarrow> Q x \<Longrightarrow> fs_returns (f x) R c'"
  shows "fs_returns (bindM op f) R c"
proof -
  obtain r c' where o: "op c = Some (r, c')" "fs_small c'" "\<forall>x. r = Inr x \<longrightarrow> Q x" using assms(1) by (auto simp: fs_returns_def)
  then show ?thesis using assms(2) by (cases r) (simp_all add: bindM_def fs_returns_def)
qed

lemma merge_previous_returns:
  assumes c: "fs_small c" and x: "small (fsi_bo x)" and it: "it \<le> length (free_space_collection c)"
  shows "fs_returns (merge_with_previous it x) (\<lambda>p. small (fsi_bo (snd p))) c"
proof (cases "it = 0")
  case False
  then have "small (fsi_bo (free_space_collection c ! (it - 1)))" using c it by (auto simp: fs_small_def)
  then show ?thesis
    using False c x fs_small_erase [OF c, of "it - 1"]
    by (simp add: merge_with_previous_def fs_returns_def bindM_def get_def liftE_def are_adjacent_def throw_def ret_def modify_def)
qed (use c x in \<open>simp add: merge_with_previous_def fs_returns_def ret_def\<close>)

lemma merge_current_returns:
  "fs_small c \<Longrightarrow> small (fsi_bo x) \<Longrightarrow> fs_returns (merge_with_current it x) (\<lambda>y. small (fsi_bo y)) c"
  using fs_small_erase [of c it]
  by (simp add: merge_with_current_def fs_returns_def bindM_def get_def liftE_def are_adjacent_def throw_def ret_def modify_def)

lemma insert_item_returns:
  assumes c: "fs_small c" and x: "small (fsi_bo x)" and it: "it \<le> length (free_space_collection c)"
  shows "fs_returns (insert_free_space_item it x) (\<lambda>y. small (fsi_bo y)) c"
  unfolding insert_free_space_item_def
proof (rule fs_returns_bind [OF merge_previous_returns [OF c x it]], clarify, goal_cases)
  case (1 i y c')
  then have y: "small (fsi_bo y)" by simp
  show ?case
    by (rule fs_returns_bind [OF merge_current_returns [OF 1(2) y]])
      (simp add: fs_returns_def bindM_def modify_def ret_def fs_small_insert)
qed

lemma collect_position_bound: "collect_position x ys \<le> length ys"
  by (induction ys) auto

lemma do_collect_returns:
  assumes "fs_small c" and "small (fsi_bo x)"
  shows "fs_returns (do_collect x) (\<lambda>y. small (fsi_bo y)) c"
  using insert_item_returns [OF assms collect_position_bound [of x]]
  by (auto simp: fs_returns_def do_collect_def bindM_def get_def modify_def ret_def Let_def fs_small_def split: sum.splits)

lemma collect_deferred_returns: "fs_small c \<Longrightarrow> fs_returns collect_deferred (\<lambda>_. True) c"
  using do_collect_returns [of c "deferred_fsi c"]
  by (auto simp: fs_returns_def collect_deferred_def bindM_def get_def modify_def fs_small_def split: sum.splits)

lemma collect_returns: "fs_small c \<Longrightarrow> small bo \<Longrightarrow> fs_returns (collect bo n) (\<lambda>_. True) c"
  using collect_deferred_returns [of c]
  by (auto simp: fs_returns_def collect_def bindM_def get_def modify_def ret_def fs_small_def split: sum.splits)

lemma first_fit_nth: "first_fit n xs i = Some (j, x) \<Longrightarrow> x \<in> set xs"
  by (induction xs arbitrary: i) (auto split: if_splits)

lemma table_returns: "fs_small c \<Longrightarrow> fs_returns (allocate_from_table n) (\<lambda>r. \<forall>bo. r = Some bo \<longrightarrow> small bo) c"
proof (cases "first_fit n (free_space_collection c) 0")
  case None
  then show "fs_small c \<Longrightarrow> ?thesis" by (simp add: fs_returns_def allocate_from_table_def bindM_def get_def ret_def)
next
  case (Some jx)
  assume c: "fs_small c"
  obtain j x where jx: "jx = (j, x)" by (cases jx)
  have x: "small (fsi_bo x)" using c first_fit_nth Some jx by (fastforce simp: fs_small_def)
  have "fs_small (c\<lparr>free_space_collection := (free_space_collection c)[j := y]\<rparr>)" if "small (fsi_bo y)" for y
    using c that set_update_subset_insert [of "free_space_collection c" j y] by (auto simp: fs_small_def)
  moreover have "fs_small (is_collection_modified_update f c')" if "fs_small c'" for f c' using that by (simp add: fs_small_def)
  ultimately show ?thesis
    using Some jx x small_advance [OF x] fs_small_erase [OF c]
    by (simp add: fs_returns_def allocate_from_table_def bindM_def get_def modify_def ret_def)
qed

lemma allocate_returns: "fs_small c \<Longrightarrow> fs_returns (allocate n) (\<lambda>r. \<forall>bo. r = Some bo \<longrightarrow> small bo) c"
proof -
  assume c: "fs_small c"
  let ?c = "c\<lparr>is_fsi_deferred := False\<rparr>"
  have c': "fs_small ?c" using c by (simp add: fs_small_def)
  obtain r d where d: "collect_deferred ?c = Some (r, d)" "fs_small d" using collect_deferred_returns [OF c'] by (auto simp: fs_returns_def)
  show ?thesis
    using c c' d table_returns [OF c, of n] table_returns [OF d(2), of n]
    by (cases r) (auto simp: fs_returns_def allocate_def bindM_def get_def modify_def ret_def fs_small_def)
qed

section \<open>The memory\<close>

text \<open>The operations of the cache do not touch the free space.\<close>

lemma keeps_modify [preserve_intros]:
  "(\<And>s. free_space (f s) = free_space s) \<Longrightarrow> preserves (\<lambda>s. R (free_space s)) (modify f)"
  by (intro preserve_intros) simp

lemma keeps_zoom [preserve_intros]:
  "preserves (\<lambda>s :: 'z data_node_io_scheme. R (free_space s)) (in_warehouse m)"
  "preserves (\<lambda>s :: 'z data_node_io_scheme. R (free_space s)) (in_slot d n)"
  "preserves (\<lambda>s :: 'z data_node_io_scheme. R (free_space s)) (in_slot_world d p)"
  unfolding in_warehouse_def in_slot_def in_slot_world_def
  by (intro preserve_intros; auto split: prod.splits)+

lemma keeps_basic [preserve_intros]:
  "preserves (\<lambda>s :: 'z data_node_io_scheme. R (free_space s)) (set_entry k bce)"
  "preserves (\<lambda>s :: 'z data_node_io_scheme. R (free_space s)) slots_allocate"
  "preserves (\<lambda>s :: 'z data_node_io_scheme. R (free_space s)) (slots_release d)"
  unfolding set_entry_def slots_allocate_def slots_release_def
  by (intro preserve_intros; simp)+

lemma keeps_entries [preserve_intros]:
  "preserves (\<lambda>s :: 'z data_node_io_scheme. R (free_space s)) (update_entry k f)"
  "preserves (\<lambda>s :: 'z data_node_io_scheme. R (free_space s)) (drop_entry k)"
  "preserves (\<lambda>s :: 'z data_node_io_scheme. R (free_space s)) (sync_entry ssl k)"
  unfolding update_entry_def drop_entry_def sync_entry_def
  by (intro preserve_intros; simp)+

lemma keeps_flush [preserve_intros]: "preserves (\<lambda>s :: 'z data_node_io_scheme. R (free_space s)) (flush_entry ssl k)"
  unfolding flush_entry_def by (intro preserve_intros)

lemma keeps_MRU [preserve_intros]: "preserves (\<lambda>s :: 'z data_node_io_scheme. R (free_space s)) (replacement_policy_MRU ssl)"
  unfolding replacement_policy_MRU_def by (intro preserve_intros)

lemma keeps_policy [preserve_intros]: "preserves (\<lambda>s :: 'z data_node_io_scheme. R (free_space s)) (replacement_policy ssl)"
  unfolding replacement_policy_def replacement_loop_def by (intro preserve_intros)

lemma keeps_entry [preserve_intros]:
  "preserves (\<lambda>s :: 'z data_node_io_scheme. R (free_space s)) (cache_put k d)"
  "preserves (\<lambda>s :: 'z data_node_io_scheme. R (free_space s)) (cache_pin k)"
  "preserves (\<lambda>s :: 'z data_node_io_scheme. R (free_space s)) (cache_unpin k)"
  "preserves (\<lambda>s :: 'z data_node_io_scheme. R (free_space s)) (cache_modified k)"
  "preserves (\<lambda>s :: 'z data_node_io_scheme. R (free_space s)) (cache_done k b)"
  unfolding cache_put_def cache_pin_def cache_unpin_def cache_modified_def cache_done_def by (intro preserve_intros; simp?)+

lemma keeps_retrieve [preserve_intros]: "preserves (\<lambda>s :: 'z data_node_io_scheme. R (free_space s)) (retrieve ssl k pin)"
  unfolding retrieve_def load_block_def fetch_block_def grab_def by (intro preserve_intros)

lemma keeps_append [preserve_intros]: "preserves (\<lambda>s. R (free_space s)) (add_and_init_append_data_node ssl)"
  unfolding add_and_init_append_data_node_def append_block_def by (intro preserve_intros; simp?)

lemma keeps_across [preserve_intros]:
  "preserves (\<lambda>s. R (free_space s)) (write_across_data_nodes ssl buf bo)"
  "preserves (\<lambda>s. R (free_space s)) (read_across_data_nodes ssl bo n out)"
  unfolding write_across_data_nodes_def read_across_data_nodes_def write_step_def read_step_def add_and_init_append_data_node_cond_def
  by (intro preserve_intros)+

definition sane :: "'z data_node_io_scheme \<Rightarrow> bool" where
  "sane s \<longleftrightarrow> in_order s \<and> fs_small (free_space s)"

lemma sane_preserved: "preserves in_order op \<Longrightarrow> preserves (\<lambda>s. fs_small (free_space s)) op \<Longrightarrow> preserves sane op"
  unfolding preserves_def sane_def by blast

lemma runs_sane: "total_on in_order op \<Longrightarrow> preserves in_order op \<Longrightarrow> preserves (\<lambda>s. fs_small (free_space s)) op \<Longrightarrow> runs sane op (\<lambda>_. True)"
  by (intro runs_structure sane_preserved) (auto simp: total_on_def sane_def)

lemma runs_free_space:
  assumes "\<And>c. fs_small c \<Longrightarrow> fs_returns op Q c"
  shows "runs sane (in_free_space op) Q"
  using assms by (fastforce simp: runs_def sane_def in_free_space_def zoom_def fs_returns_def)

lemma runs_write:
  assumes "small bo" and "length buf < 4294967296"
  shows "runs sane (write_across_data_nodes ssl buf bo) (\<lambda>_. True)"
  by (rule runs_sane) (use write_across_returns_eq assms in \<open>auto simp: total_on_def small_def intro!: preserve_intros\<close>)

lemma read_across_length:
  assumes "read_across_data_nodes ssl bo n out s = Some (Inr r, s')" and "small bo" and "n < 4294967296"
  shows "length r = length out + n"
proof -
  from assms(1) obtain l where l: "loop_m (\<lambda>(_, tb, _) _. tb < n) (read_step ssl n) (bo, 0, out) s = Some (Inr l, s')" "snd (snd l) = r"
    unfolding read_across_data_nodes_def by (elim bindM_InrD) (auto simp: ret_def)
  let ?Q = "\<lambda>l s q t. case l of (bo, tb, o1) \<Rightarrow> small bo \<longrightarrow> tb \<le> n \<longrightarrow> (\<forall>bo' tb' o2. q = Inr (bo', tb', o2) \<longrightarrow> length o2 + tb = length o1 + n)"
  have "?Q i s q t" if "loop_m (\<lambda>(_, tb, _) _. tb < n) (read_step ssl n) i s = Some (q, t)" for i q t and s :: "'a data_node_io_scheme"
    using that
  proof (induction rule: loop_induct)
    case (step l s l1 t r u)
    obtain bo tb o1 bo1 tb1 o2 where e: "l = (bo, tb, o1)" "l1 = (bo1, tb1, o2)" by (cases l; cases l1) auto
    have p: "small bo1 \<and> tb1 \<le> n \<and> length o2 + tb = length o1 + tb1" if "small bo" "tb \<le> n"
    proof -
      have run: "read_step ssl n (bo, tb, o1) s = Some (Inr (bo1, tb1, o2), t)" and lt: "tb < n" using step(1,2) e by simp_all
      have "\<exists>dn got dn'. read_at bo (u32_sub n tb) dn = Some (Inr got, dn') \<and> tb1 = u32 (tb + length got) \<and> o2 = o1 @ got"
        using run unfolding read_step_def by (auto elim!: bindM_InrD simp: ret_def in_slot_def zoom_def) blast
      then obtain dn got dn' where g: "read_at bo (u32_sub n tb) dn = Some (Inr got, dn')" "tb1 = u32 (tb + length got)" "o2 = o1 @ got" by blast
      have "length got \<le> n - tb"
        using read_at_progress [OF g(1)] that lt assms(3) by (simp add: small_def u32_sub_id)
      then show ?thesis
        using g read_step_progress [OF run] that lt assms(3) by (simp add: small_def u32_id)
    qed
    with step.IH e show ?case by auto
  qed auto
  from this [OF l(1)] show ?thesis using assms(2) l(2) by (cases l) auto
qed

lemma runs_read:
  assumes "small bo" and "n < 4294967296"
  shows "runs sane (read_across_data_nodes ssl bo n out) (\<lambda>r. length r = length out + n)"
proof -
  have "runs sane (read_across_data_nodes ssl bo n out) (\<lambda>_. True)"
    by (rule runs_sane) (use read_across_returns_eq assms in \<open>auto simp: total_on_def small_def intro!: preserve_intros\<close>)
  then show ?thesis unfolding runs_def using read_across_length [OF _ assms] by blast
qed

section \<open>Nodes and values\<close>

definition good :: "trie_node \<Rightarrow> bool" where
  "good n \<longleftrightarrow> small (location n) \<and> small (next_offset (node n)) \<and> small (child_offset (node n)) \<and> length (key_chunk (node n)) \<le> 15"

lemma small_empty [simp]: "small empty_block_offset"
  by (simp add: small_def empty_block_offset_def)

lemma small_offset_of_image: "small (offset_of_image b)"
proof -
  have "le_nat (take 4 (drop 4 b)) < 256 ^ length (take 4 (drop 4 b))" by (rule le_nat_less)
  also have "... \<le> 256 ^ 4" by (rule power_increasing) simp_all
  finally show ?thesis by (simp add: small_def offset_of_image_def)
qed

lemma runs_read_node: "small bo \<Longrightarrow> runs sane (read_trie_node ssl bo n0) good"
  unfolding read_trie_node_def
  by (rule runs_bind [OF runs_read], assumption, simp, rule runs_throwIf, rule runs_ret)
    (simp add: good_def node_of_image_def small_offset_of_image)

lemma runs_allocate: "runs sane (allocate_or_append n) small"
  unfolding allocate_or_append_def
proof (rule runs_bind [OF runs_free_space [OF allocate_returns]], assumption)
  fix r :: "block_offset_t option"
  have "runs sane block_offset_for_appending small"
    unfolding block_offset_for_appending_def by (rule runs_get) (simp add: small_def cursor_def u32_sub_less)
  then show "\<forall>bo. r = Some bo \<longrightarrow> small bo \<Longrightarrow> runs sane (case r of Some bo \<Rightarrow> ret bo | None \<Rightarrow> block_offset_for_appending) small"
    by (cases r) (auto intro: runs_ret)
qed

lemma runs_write_node: "good n \<Longrightarrow> runs sane (write_trie_node ssl n) good"
  unfolding write_trie_node_def
proof (rule runs_bind [where Q = small])
  assume g: "good n"
  show "runs sane (if is_empty (location n) then allocate_or_append new_trie_node_size else ret (location n)) small"
    using g runs_allocate by (auto simp: good_def intro: runs_ret)
  fix bo assume bo: "small bo"
  have "length (node_image (node n)) < 4294967296" using g by (simp add: node_image_def good_def)
  then show "runs sane (bindM (write_across_data_nodes ssl (node_image (node n)) bo) (\<lambda>_. ret (n\<lparr>location := bo, tn_modified := False\<rparr>))) good"
    using g bo by (intro runs_bind [OF runs_write] runs_ret) (auto simp: good_def)
qed

lemma runs_value_info: "small bo \<Longrightarrow> runs sane (do_read_value_info ssl bo) (\<lambda>(bo, h, sz). small bo \<and> length h = 1)"
  unfolding do_read_value_info_def Let_def
proof (rule runs_bind [OF runs_read], assumption, goal_cases)
  case (2 b)
  then obtain x where b: "b = [x]" by (cases b) (auto simp: sizeof_trie_node_header_t_def)
  have fb: "first_byte b = ret x" by (simp add: b first_byte_def)
  show ?case
    unfolding fb bindM_ret
    by (intro runs_throwIf runs_bind [OF runs_read] runs_ret) (use 2 b in \<open>auto simp: small_advance sizeof_size_t_def\<close>)
qed (simp add: sizeof_trie_node_header_t_def)

lemma runs_read_value: "good n \<Longrightarrow> runs sane (do_read_value ssl n v) (\<lambda>_. True)"
  unfolding do_read_value_def
  by (intro runs_throwIf runs_bind [OF runs_value_info]) (auto simp: good_def u32_less intro!: runs_any [OF runs_read])

lemma runs_delete_value: "good n \<Longrightarrow> runs sane (do_delete_value ssl n) good"
  unfolding do_delete_value_def
proof (rule runs_bind [OF runs_value_info], goal_cases)
  case (2 x)
  obtain bo h sz where x: "x = (bo, h, sz)" by (cases x)
  then obtain y where h: "h = [y]" "small bo" using 2 by (cases h) auto
  show ?case
    using x h 2(1) by (simp add: first_byte_def)
      (intro runs_bind [OF runs_write] runs_bind [OF runs_free_space [OF collect_returns]] runs_ret, auto simp: good_def)
qed (simp add: good_def)

lemma runs_write_value:
  assumes g: "good n" and v: "length v < 4294967296"
  shows "runs sane (do_write_value ssl n v) good"
  unfolding do_write_value_def Let_def
proof (rule runs_bind [where Q = good])
  show "runs sane (if \<not> is_empty (child_offset (node n)) then do_delete_value ssl n else ret n) good"
    using g runs_delete_value by (auto intro: runs_ret)
  fix n1 assume "good n1"
  then show "runs sane (bindM (allocate_or_append (u32 (sizeof_trie_node_header_t + sizeof_size_t + length v))) (\<lambda>child.
      bindM (write_across_data_nodes ssl [header_byte (empty_trie_header\<lparr>isValue := True\<rparr>)] child) (\<lambda>_.
      bindM (write_across_data_nodes ssl (le_bytes sizeof_size_t (length v)) (advance_block_offset child (length [header_byte (empty_trie_header\<lparr>isValue := True\<rparr>)]))) (\<lambda>_.
      bindM (write_across_data_nodes ssl v (advance_block_offset (advance_block_offset child (length [header_byte (empty_trie_header\<lparr>isValue := True\<rparr>)]))
           (length (le_bytes sizeof_size_t (length v))))) (\<lambda>_.
      bindM (throwIf (u32_sub (u32_sub (u32_sub (u32 (sizeof_trie_node_header_t + sizeof_size_t + length v)) (length [header_byte (empty_trie_header\<lparr>isValue := True\<rparr>)]))
           (length (le_bytes sizeof_size_t (length v)))) (length v) \<noteq> 0) (RuntimeError ''space estimated does not match space written'')) (\<lambda>_.
      ret (n1\<lparr>node := (node n1)\<lparr>child_offset := child\<rparr>, tn_modified := True\<rparr>)))))) ) good"
    using v by (intro runs_bind [OF runs_allocate] runs_bind [OF runs_write] runs_throwIf runs_ret)
      (auto simp: small_advance sizeof_size_t_def good_def)
qed

lemma good_create:
  assumes "good n"
  shows "good (create_node key b e n)"
proof -
  have "length (overwrite xs 0 ys) \<le> 15" if "length xs \<le> 15" "length ys \<le> 15" for xs ys :: bytes
    using that by (simp add: overwrite_def)
  moreover have "length (slice key b k) \<le> 15" if "k \<le> 15" for k using that by (simp add: slice_def min_def)
  ultimately show ?thesis using assms by (simp add: good_def create_node_def Let_def MAX_KEY_CHUNK_BYTE_SIZE_def)
qed

lemma runs_consume_always: "runs sane (consume_add_and_init_append_data_node ssl) (\<lambda>_. True)"
proof -
  have "runs sane (add_and_init_append_data_node ssl) (\<lambda>_. True)" by (rule runs_sane) (intro total_intros preserve_intros)+
  moreover have "runs sane block_offset_for_appending small"
    unfolding block_offset_for_appending_def by (rule runs_get) (simp add: small_def cursor_def u32_sub_less)
  moreover have "runs sane (in_slot d (consume_free_space n)) (\<lambda>_. True)" for d n
    by (rule runs_sane) (intro total_intros preserve_intros total_parts | simp)+
  ultimately show ?thesis
    unfolding consume_add_and_init_append_data_node_def
    by (intro runs_bind [where Q = small] runs_bind [where Q = "\<lambda>_. True"] runs_get)
      (auto intro!: runs_bind [OF runs_free_space [OF collect_returns]] runs_ret)
qed

lemma runs_consume: "runs sane (consume_add_and_init_append_data_node_cond ssl c) (\<lambda>_. True)"
  unfolding consume_add_and_init_append_data_node_cond_def by (cases c) (simp_all add: runs_consume_always runs_ret)

lemma runs_split:
  assumes g: "good n" and u: "length (key_chunk uninit) = 15" "small (next_offset uninit)" "small (child_offset uninit)"
  shows "runs sane (do_split_trie_node ssl uninit n p) good"
proof -
  have new: "good (new_trie_node uninit)" using u by (simp add: good_def new_trie_node_def)
  show ?thesis
    unfolding do_split_trie_node_def Let_def
    by (intro runs_throwIf runs_bind [OF runs_get [where Q = "\<lambda>_. True"]] runs_bind [OF runs_consume] runs_bind [OF runs_write_node] runs_ret)
      (use g good_create [OF new] in \<open>auto simp: good_def\<close>)
qed

lemma runs_delete_childless: "good n \<Longrightarrow> runs sane (delete_trie_node_childless ssl n) good"
  unfolding delete_trie_node_childless_def Let_def
  by (auto simp: good_def intro!: runs_bind [OF runs_free_space [OF collect_returns]] runs_bind [OF runs_write_node] runs_ret)

lemma runs_settle: "good n \<Longrightarrow> runs sane (settle ssl operation left n) good"
  unfolding settle_def
  by (rule runs_bind [where Q = good]) (auto intro: runs_ret runs_delete_childless runs_write_node)

lemma good_link: "small bo \<Longrightarrow> good (ri_node it) \<Longrightarrow> good (ri_node (link bo it))"
  by (simp add: link_def good_def Let_def)

lemma runs_unwind: "\<forall>it\<in>set its. good (ri_node it) \<Longrightarrow> runs sane (unwind ssl operation its) (\<lambda>_. True)"
proof (induction ssl operation its rule: unwind.induct)
  case (2 ssl operation ri)
  then show ?case by (auto intro!: runs_bind [OF runs_settle] runs_ret)
next
  case (3 ssl operation ri prev stack)
  show ?case
    unfolding unwind.simps
  proof (rule runs_bind [OF runs_settle], goal_cases)
    case (2 n)
    then have "small (location n)" by (simp add: good_def)
    then show ?case using "3.prems" by (intro "3.IH") (auto intro: good_link)
  qed (use "3.prems" in simp)
qed (simp add: runs_ret)

section \<open>The operations\<close>

definition fine :: "descent \<Rightarrow> bool" where
  "fine l \<longleftrightarrow> (case l of Go its _ \<Rightarrow> \<forall>it\<in>set its. good (ri_node it) | Break its _ \<Rightarrow> \<forall>it\<in>set its. good (ri_node it) | Return \<Rightarrow> True)"

lemma good_item [simp]: "small bo \<Longrightarrow> good (ri_node (item_for bo))"
  by (simp add: good_def item_for_def new_trie_node_def zero_node_def MAX_KEY_CHUNK_BYTE_SIZE_def)

lemma runs_load_item: "good n \<Longrightarrow> runs sane (load_item ssl operation key d n) (\<lambda>r. \<forall>n'. r = Some n' \<longrightarrow> good n')"
  unfolding load_item_def
  by (auto simp: good_create intro!: runs_ret runs_bind [OF runs_read_node]) (simp add: good_def)+

lemma runs_do_operation:
  "good n \<Longrightarrow> length value < 4294967296 \<Longrightarrow> runs sane (do_operation ssl operation value out n) (\<lambda>(n', _). good n')"
  unfolding do_operation_def
  by (cases operation) (auto intro!: runs_bind [OF runs_read_value] runs_bind [OF runs_write_value] runs_bind [OF runs_delete_value] runs_ret)

lemma runs_operate_node:
  assumes "good (ri_node ri)" and "\<forall>it\<in>set its. good (ri_node it)" and "length value < 4294967296"
    and u: "length (key_chunk uninit) = 15" "small (next_offset uninit)" "small (child_offset uninit)"
  shows "runs sane (operate_node ssl uninit operation key value out ri its d) fine"
proof -
  have "small (next_offset (node (ri_node ri)))" "small (child_offset (node (ri_node ri)))" using assms(1) by (simp_all add: good_def)
  then show ?thesis
    unfolding operate_node_def Let_def using assms(1-3)
    by (auto simp: fine_def intro!: runs_ret runs_bind [OF runs_do_operation] runs_bind [OF runs_split [OF _ u]])
qed

lemma runs_descend_step:
  assumes "fine l" and v: "length value < 4294967296"
    and u: "length (key_chunk uninit) = 15" "small (next_offset uninit)" "small (child_offset uninit)"
  shows "runs sane (descend_step ssl uninit operation key value out l) fine"
proof (cases l)
  case (Go its d)
  show ?thesis
  proof (cases its)
    case Nil
    then show ?thesis using Go by (simp add: descend_step_def runs_throw)
  next
    case (Cons ri stack)
    then have g: "good (ri_node ri)" "\<forall>it\<in>set stack. good (ri_node it)" using assms(1) Go by (simp_all add: fine_def)
    show ?thesis
      unfolding descend_step_def Go Cons descent.case list.case
    proof (rule runs_bind [OF runs_load_item [OF g(1)]])
      fix r :: "trie_node option" assume r: "\<forall>n'. r = Some n' \<longrightarrow> good n'"
      show "runs sane (case r of None \<Rightarrow> ret Return | Some n \<Rightarrow> operate_node ssl uninit operation key value out (ri\<lparr>ri_node := n\<rparr>) stack d) fine"
      proof (cases r)
        case None
        then show ?thesis by (simp add: runs_ret fine_def)
      next
        case (Some n)
        then show ?thesis using r g(2) v u by (simp add: runs_operate_node)
      qed
    qed
  qed
qed (use assms in \<open>simp_all add: descend_step_def runs_ret fine_def\<close>)

lemma runs_loop_upto:
  assumes "\<And>l. Q l \<Longrightarrow> runs P (c l) Q"
  shows "Q l \<Longrightarrow> runs P (loop_upto N b c l) Q"
proof (induction N arbitrary: l)
  case (Suc N)
  from runs_bind [OF assms [OF Suc.prems] Suc.IH] show ?case using Suc.prems by (simp add: runs_def ret_def)
qed (simp add: runs_throw)

lemma runs_operate_upto:
  assumes "length value < 4294967296" and u: "length (key_chunk uninit) = 15" "small (next_offset uninit)" "small (child_offset uninit)"
  shows "runs sane (operate_upto ssl uninit N operation key value) (\<lambda>_. True)"
  unfolding operate_upto_def walk_def
proof (rule runs_bind [OF runs_read_node], goal_cases)
  case (2 root)
  then have f: "fine (Go [item_for (next_offset (node root)), \<lparr>ri_node = root, go_next = True\<rparr>] 0)"
    using good_item [of "next_offset (node root)"] by (simp add: fine_def good_def)
  have "runs sane (finish ssl operation l) (\<lambda>_. True)" if "fine l" for l
    using that unfolding finish_def by (cases l) (auto simp: fine_def intro!: runs_ret runs_bind [OF runs_unwind])
  then show ?case by (intro runs_bind [OF runs_loop_upto [OF runs_descend_step [OF _ assms] f]]) auto
qed (simp add: small_def root_bo_def data_begin_index_def)

end
