(* ===== verification/State_KV.thy ===== *)
theory State_KV
  imports Trie
begin

text \<open>
  The key-value store (\<open>common/state/state_kv.h\<close>, \<open>state_kv.cpp\<close>) and the store the interpreter works with
  (\<open>interpreter_kv.h\<close>, \<open>interpreter_kv.cpp\<close>), which keeps the keys of the contract apart from
  those of the interpreter by a first byte.
\<close>

section \<open>The key-value store\<close>

datatype kv_start_mode_e = KV_UNINITIALIZED | KV_CREATE | KV_OPEN

record state_kv = data_node_io +
  rootNode :: StateNode
  kv_start_mode :: kv_start_mode_e

definition new_state_kv :: "bytes \<Rightarrow> env \<Rightarrow> state_kv" where
  "new_state_kv key e =
     data_node_io.extend (new_data_node_io key e) \<lparr>rootNode = new_StateNode, kv_start_mode = KV_UNINITIALIZED\<rparr>"

definition in_world :: "(env, 'a) m \<Rightarrow> ('z cache_scheme, 'a) m" where
  "in_world = zoom world (\<lambda>e. world_update (\<lambda>_. e))"

text \<open>An operation on a data node that is a local variable.\<close>

definition on_local_node :: "data_node \<Rightarrow> (data_node \<times> env, 'a) m \<Rightarrow> ('z cache_scheme, 'a) m" where
  "on_local_node dn op s = map_option (\<lambda>(r, _, e). (r, s\<lparr>world := e\<rparr>)) (op (dn, world s))"

definition State_KV_create :: "openssl \<Rightarrow> trie_node_h_with_ncc_t \<Rightarrow> (state_kv, unit) m" where
  "State_KV_create ssl uninit =
     bindM (get (\<lambda>s. state_encryption_key (warehouse s))) (\<lambda>key.
     bindM (on_local_node (new_data_node get_root_block_num) (dn_unload ssl key)) (\<lambda>dn_id.
     bindM (in_warehouse (add_block_id dn_id)) (\<lambda>_.
     bindM (init_append_data_node ssl) (\<lambda>_.
     bindM (init_trie_root ssl uninit) (\<lambda>_.
     bindM (cache_pin get_root_block_num) (\<lambda>_.
     modify (kv_start_mode_update (\<lambda>_. KV_CREATE))))))))"

definition State_KV_open :: "openssl \<Rightarrow> parson \<Rightarrow> bytes \<Rightarrow> (state_kv, unit) m" where
  "State_KV_open ssl J block_id =
     bindM (modify (rootNode_update (blockId_update (\<lambda>_. block_id)))) (\<lambda>_.
     bindM (in_world (sebio_fetch ssl block_id SEBIO_NO_CRYPTO)) (\<lambda>(r, block).
     bindM (modify (rootNode_update (stateBlock_update (\<lambda>_. block)))) (\<lambda>_.
     bindM (throwIf (r \<noteq> STATE_SUCCESS) (ValueError ''statekv::init, sebio returned an error'')) (\<lambda>_.
     bindM (get rootNode) (\<lambda>n.
     bindM (initialize ssl J n) (\<lambda>n.
     bindM (modify (rootNode_update (\<lambda>_. n))) (\<lambda>_.
     modify (kv_start_mode_update (\<lambda>_. KV_OPEN)))))))))"

text \<open>Serializing the free table into the data node that is appended for it.\<close>

definition store_free_table :: "openssl \<Rightarrow> ('z data_node_io_scheme, unit) m" where
  "store_free_table ssl =
     bindM (add_and_init_append_data_node ssl) (\<lambda>_.
     bindM (get append_dn) (\<lambda>d.
     zoom (\<lambda>s. (free_space s, data_nodes s ! d))
       (\<lambda>(c, dn) s. s\<lparr>free_space := c, data_nodes := (data_nodes s)[d := dn]\<rparr>) serialize_in_data_node))"

definition evict_root :: "openssl \<Rightarrow> parson \<Rightarrow> (state_kv, unit) m" where
  "evict_root ssl J =
     bindM (get warehouse) (\<lambda>bw.
     bindM (zoom rootNode (\<lambda>n. rootNode_update (\<lambda>_. n)) (serialize_block_ids ssl J bw)) (\<lambda>_.
     bindM (get (\<lambda>s. stateBlock (rootNode s))) (\<lambda>baBlock.
     bindM (modify (rootNode_update (blockId_update (\<lambda>_. ComputeMessageHash ssl baBlock)))) (\<lambda>_.
     bindM (in_world (sebio_evict ssl baBlock SEBIO_NO_CRYPTO)) (\<lambda>(r, id).
     throwIf (r \<noteq> STATE_SUCCESS) (ValueError ''kv root node unload, sebio returned an error''))))))"

definition Finalize :: "openssl \<Rightarrow> parson \<Rightarrow> (state_kv, bytes) m" where
  "Finalize ssl J =
     bindM (get kv_start_mode) (\<lambda>mode.
     bindM (throwIf (mode = KV_UNINITIALIZED) (RuntimeError ''attempt to finalize uninitialized state'')) (\<lambda>_.
     bindM (get (\<lambda>s. is_collection_modified (free_space s))) (\<lambda>changed.
     bindM (if mode = KV_CREATE \<or> changed then store_free_table ssl
            else bindM (get (\<lambda>s. original_block_id_of_collection (free_space s))) (\<lambda>id. in_warehouse (add_block_id id))) (\<lambda>_.
     bindM (cache_flush ssl) (\<lambda>_.
     bindM (get synced_entries) (\<lambda>n.
     bindM (if n > 0 then evict_root ssl J else ret ()) (\<lambda>_.
     get (\<lambda>s. blockId (rootNode s)))))))))"

definition Get :: "openssl \<Rightarrow> trie_node_h_with_ncc_t \<Rightarrow> bytes \<Rightarrow> (state_kv, bytes) m" where
  "Get ssl uninit key = operate_trie_non_recursive ssl uninit GET_OP key []"

definition Put :: "openssl \<Rightarrow> trie_node_h_with_ncc_t \<Rightarrow> bytes \<Rightarrow> bytes \<Rightarrow> (state_kv, unit) m" where
  "Put ssl uninit key value = bindM (operate_trie_non_recursive ssl uninit PUT_OP key value) (\<lambda>_. ret ())"

definition Delete :: "openssl \<Rightarrow> trie_node_h_with_ncc_t \<Rightarrow> bytes \<Rightarrow> (state_kv, unit) m" where
  "Delete ssl uninit key = bindM (operate_trie_non_recursive ssl uninit DEL_OP key []) (\<lambda>_. ret ())"

section \<open>The interpreter's view\<close>

definition to_privileged_key :: "bytes \<Rightarrow> bytes" where
  "to_privileged_key key = 80 # key"

definition to_unprivileged_key :: "bytes \<Rightarrow> bytes" where
  "to_unprivileged_key key = 112 # key"

definition PrivilegedGet :: "openssl \<Rightarrow> trie_node_h_with_ncc_t \<Rightarrow> bytes \<Rightarrow> (state_kv, bytes) m" where
  "PrivilegedGet ssl uninit key = Get ssl uninit (to_privileged_key key)"

definition PrivilegedPut :: "openssl \<Rightarrow> trie_node_h_with_ncc_t \<Rightarrow> bytes \<Rightarrow> bytes \<Rightarrow> (state_kv, unit) m" where
  "PrivilegedPut ssl uninit key value = Put ssl uninit (to_privileged_key key) value"

definition PrivilegedDelete :: "openssl \<Rightarrow> trie_node_h_with_ncc_t \<Rightarrow> bytes \<Rightarrow> (state_kv, unit) m" where
  "PrivilegedDelete ssl uninit key = Delete ssl uninit (to_privileged_key key)"

definition UnprivilegedGet :: "openssl \<Rightarrow> trie_node_h_with_ncc_t \<Rightarrow> bytes \<Rightarrow> (state_kv, bytes) m" where
  "UnprivilegedGet ssl uninit key = Get ssl uninit (to_unprivileged_key key)"

definition UnprivilegedPut :: "openssl \<Rightarrow> trie_node_h_with_ncc_t \<Rightarrow> bytes \<Rightarrow> bytes \<Rightarrow> (state_kv, unit) m" where
  "UnprivilegedPut ssl uninit key value = Put ssl uninit (to_unprivileged_key key) value"

definition UnprivilegedDelete :: "openssl \<Rightarrow> trie_node_h_with_ncc_t \<Rightarrow> bytes \<Rightarrow> (state_kv, unit) m" where
  "UnprivilegedDelete ssl uninit key = Delete ssl uninit (to_unprivileged_key key)"

end
