(* ===== verification/KV_Map.thy ===== *)
theory KV_Map
  imports Trie_Returns State_KV
begin

text \<open>
  The key-value store as a map. \<open>kv_rep ssl s M n\<close>: the store \<open>s\<close> holds the map \<open>M\<close>, in at most \<open>n\<close> bytes of
  data. \<open>Get\<close>, \<open>Put\<close> and \<open>Delete\<close> are the operations of the map. Their results are stated for the operations
  with a bound on the iterations of the walk, which return from every state, and which are the operations
  of the code unless the hashes of two different blocks collide.
\<close>

definition kv_rep :: "openssl \<Rightarrow> 'z data_node_io_scheme \<Rightarrow> (bytes \<rightharpoonup> bytes) \<Rightarrow> nat \<Rightarrow> bool" where
  "kv_rep ssl s M n \<longleftrightarrow> sane s \<and> (\<exists>m F. heap ssl s m F \<and> maps M n m F)"

text \<open>What a local variable of the type of a node can hold.\<close>

definition uninit_ok :: "trie_node_h_with_ncc_t \<Rightarrow> bool" where
  "uninit_ok u \<longleftrightarrow> length (key_chunk u) = 15 \<and> small (next_offset u) \<and> small (child_offset u)"

text \<open>An operation returns within \<open>N\<close> iterations, as the code does, with the result \<open>x\<close> and the map \<open>M\<close>.\<close>

definition performs ::
    "openssl \<Rightarrow> trie_node_h_with_ncc_t \<Rightarrow> 'z data_node_io_scheme \<Rightarrow> nat \<Rightarrow> kv_operation_e \<Rightarrow> bytes \<Rightarrow> bytes \<Rightarrow> bytes \<Rightarrow> (bytes \<rightharpoonup> bytes) \<Rightarrow> nat \<Rightarrow> bool" where
  "performs ssl uninit s N operation key value x M n \<longleftrightarrow>
     (\<exists>r s'. operate_upto ssl uninit N operation key value s = Some (r, s') \<and>
       (world_intact ssl s' \<longrightarrow> r = Inr x \<and> operate_trie_non_recursive ssl uninit operation key value s = Some (Inr x, s') \<and> kv_rep ssl s' M n))"

lemma performsI:
  assumes rep: "kv_rep ssl s M n" and u: "uninit_ok uninit" and v: "length value < 4294967296"
    and y: "\<And>m F t. rooted m F t \<Longrightarrow> wf_tree t \<Longrightarrow> lookup t = M \<Longrightarrow> length m \<le> n \<Longrightarrow> nodes t \<le> n \<Longrightarrow>
      yields ssl m F (operate_upto ssl uninit N operation key value :: ('z data_node_io_scheme, bytes) m) (\<lambda>r m' F'. r = x \<and> maps M' n' m' F')"
  shows "performs ssl uninit (s :: 'z data_node_io_scheme) N operation key value x M' n'"
proof -
  obtain m F t where h: "heap ssl s m F" and t: "rooted m F t" "wf_tree t" "lookup t = M" "length m \<le> n" and sn: "sane s"
    using rep by (auto simp: kv_rep_def maps_def)
  have nb: "nodes t \<le> n" using nodes_bound [of m t] t by (simp add: rooted_def apart_def)
  from runs_operate_upto [OF v, of uninit ssl N operation key] u sn
  obtain r s' where run: "operate_upto ssl uninit N operation key value s = Some (r, s')" and sn': "sane s'"
    by (auto simp: runs_def uninit_ok_def)
  have "r = Inr x \<and> kv_rep ssl s' M' n'" if "world_intact ssl s'"
    using y [OF t nb] h run that sn' unfolding yields_def kv_rep_def by (fastforce dest: tripleD)
  then show ?thesis unfolding performs_def using run operate_upto_operate by fastforce
qed

lemma performs_get:
  assumes "crypto_ok ssl" and "kv_rep ssl s M n" and "uninit_ok uninit" and "length key < 4294967296" and "n + 2 \<le> N"
  shows "performs ssl uninit s N GET_OP key [] (result (M key)) M n"
proof (rule performsI [OF assms(2,3)], goal_cases)
  case (2 m F t)
  then show ?case
    using assms(5) by (intro yields_conseq [OF yields_operate_get [OF assms(1,4) 2(1,2)]]) (auto simp: maps_def)
qed simp

lemma performs_delete:
  assumes "crypto_ok ssl" and "kv_rep ssl s M n" and "uninit_ok uninit" and "length key < 4294967296" and "key \<noteq> []" and "n + 2 \<le> N"
  shows "performs ssl uninit s N DEL_OP key [] [] (M(key := None)) n"
proof (rule performsI [OF assms(2,3)], goal_cases)
  case (2 m F t)
  then show ?case
    using assms(6) by (intro yields_conseq [OF yields_operate_delete [OF assms(1,4,5) 2(1,2)]]) (auto simp: maps_def)
qed simp

lemma performs_put:
  assumes "crypto_ok ssl" and "kv_rep ssl s M n" and "uninit_ok uninit" and "length key < 4294967296" and "value \<noteq> []"
    and "n + 104 + length value + 32 * length key \<le> n'" and "n' < 4294967296" and "n + length key + 5 \<le> N"
  shows "performs ssl uninit s N PUT_OP key value [] (M(key \<mapsto> value)) n'"
proof (rule performsI [OF assms(2,3)], goal_cases)
  case (2 m F t)
  then show ?case
    using assms(3,6,8) by (intro yields_conseq [OF yields_operate_put [OF assms(1,4) _ assms(5) 2(1,2) _ _ assms(7)]]) (auto simp: uninit_ok_def)
qed (use assms in simp)

section \<open>Sequences of calls\<close>

text \<open>
  An operation \<open>b\<close> with a bound stands for an operation \<open>op\<close> of the code: it returns, and when the state it ends in
  is clean, it ended as \<open>op\<close> does.
\<close>

definition delivers ::
    "('s \<Rightarrow> bool) \<Rightarrow> ('s \<Rightarrow> bool) \<Rightarrow> ('s \<Rightarrow> bool) \<Rightarrow> ('s, 'a) m \<Rightarrow> ('s, 'a) m \<Rightarrow> ('a \<Rightarrow> 's \<Rightarrow> bool) \<Rightarrow> bool" where
  "delivers ok clean P b op Q \<longleftrightarrow> runs ok b (\<lambda>_. True) \<and> preserves (\<lambda>s. \<not> clean s) b
     \<and> (\<forall>s r s'. P s \<longrightarrow> b s = Some (r, s') \<longrightarrow> clean s' \<longrightarrow> (\<exists>x. r = Inr x \<and> op s = Some (Inr x, s') \<and> Q x s'))"

lemma deliversD:
  assumes "delivers ok clean P b op Q"
  shows "runs ok b (\<lambda>_. True)" "preserves (\<lambda>s. \<not> clean s) b"
    "P s \<Longrightarrow> b s = Some (r, s') \<Longrightarrow> clean s' \<Longrightarrow> \<exists>x. r = Inr x \<and> op s = Some (Inr x, s') \<and> Q x s'"
  using assms by (simp_all add: delivers_def)

lemma delivers_run:
  assumes d: "delivers ok clean P b op Q" and s: "ok s" "P s"
  shows "\<exists>r s'. b s = Some (r, s') \<and> (clean s' \<longrightarrow> (\<exists>x. r = Inr x \<and> op s = Some (Inr x, s') \<and> Q x s'))"
proof -
  obtain r s' where "b s = Some (r, s')" using deliversD(1) [OF d] s(1) by (auto simp: runs_def)
  with deliversD(3) [OF d s(2)] show ?thesis by blast
qed

lemma delivers_ret: "(\<And>s. P s \<Longrightarrow> Q x s) \<Longrightarrow> delivers ok clean P (ret x) (ret x) Q"
  by (simp add: delivers_def ret_def runs_def preserves_def)

lemma delivers_bind:
  assumes a: "delivers ok clean P a a' Q" and f: "\<And>x. delivers ok clean (Q x) (f x) (f' x) R"
  shows "delivers ok clean P (bindM a f) (bindM a' f') R"
  unfolding delivers_def
proof (intro conjI allI impI)
  show "runs ok (bindM a f) (\<lambda>_. True)" by (rule runs_bind [OF deliversD(1) [OF a] deliversD(1) [OF f]])
  show "preserves (\<lambda>s. \<not> clean s) (bindM a f)" by (rule preserves_bind [OF deliversD(2) [OF a] deliversD(2) [OF f]])
  fix s r s' assume p: "P s" and run: "bindM a f s = Some (r, s')" and i: "clean s'"
  from bindM_SomeD [OF run] show "\<exists>x. r = Inr x \<and> bindM a' f' s = Some (Inr x, s') \<and> R x s'"
  proof (elim disjE exE conjE)
    fix e assume "a s = Some (Inl e, s')"
    from deliversD(3) [OF a p this i] show ?thesis by simp
  next
    fix x t assume x: "a s = Some (Inr x, t)" and y: "f x t = Some (r, s')"
    have "clean t" using preservesD [OF deliversD(2) [OF f] _ y] i by blast
    from deliversD(3) [OF a p x this] have x': "a' s = Some (Inr x, t)" "Q x t" by simp_all
    from deliversD(3) [OF f this(2) y i] x'(1) show ?thesis by (auto simp: bindM_def)
  qed
qed

fun call_all :: "('c \<Rightarrow> ('s, 'r) m) \<Rightarrow> 'c list \<Rightarrow> ('s, 'r list) m" where
  "call_all call [] = ret []"
| "call_all call (c # cs) = bindM (call c) (\<lambda>r. bindM (call_all call cs) (\<lambda>rs. ret (r # rs)))"

fun steps :: "('c \<Rightarrow> 'm \<Rightarrow> 'r \<times> 'm) \<Rightarrow> 'c list \<Rightarrow> 'm \<Rightarrow> 'r list \<times> 'm" where
  "steps step [] M = ([], M)"
| "steps step (c # cs) M = (let (r, M') = step c M; (rs, M'') = steps step cs M' in (r # rs, M''))"

text \<open>
  A store with the calls \<open>'c\<close>: what each call does to the abstract state \<open>'m\<close> it represents, and what it costs
  of the space. Sequences of calls then do what the sequences of abstract steps do.
\<close>

locale abstract_store =
  fixes ok :: "'s \<Rightarrow> bool" and clean :: "'s \<Rightarrow> bool" and rep :: "'s \<Rightarrow> 'm \<Rightarrow> nat \<Rightarrow> bool"
    and bounded :: "nat \<Rightarrow> 'c \<Rightarrow> ('s, 'r) m" and call :: "'c \<Rightarrow> ('s, 'r) m"
    and step :: "'c \<Rightarrow> 'm \<Rightarrow> 'r \<times> 'm" and valid :: "'c \<Rightarrow> bool" and cost :: "'c \<Rightarrow> nat" and space :: nat
  assumes rep_ok: "rep s M n \<Longrightarrow> ok s"
    and call_law: "valid c \<Longrightarrow> n + cost c < space \<Longrightarrow> n + cost c + 5 \<le> N \<Longrightarrow>
      delivers ok clean (\<lambda>s. rep s M n) (bounded N c) (call c) (\<lambda>r s. r = fst (step c M) \<and> rep s (snd (step c M)) (n + cost c))"
begin

lemma calls_deliver:
  "\<forall>c \<in> set cs. valid c \<Longrightarrow> n + sum_list (map cost cs) < space \<Longrightarrow> n + sum_list (map cost cs) + 5 \<le> N \<Longrightarrow>
   delivers ok clean (\<lambda>s. rep s M n) (call_all (bounded N) cs) (call_all call cs)
     (\<lambda>rs s. rs = fst (steps step cs M) \<and> rep s (snd (steps step cs M)) (n + sum_list (map cost cs)))"
proof (induction cs arbitrary: n M)
  case Nil
  then show ?case by (simp add: delivers_ret)
next
  case (Cons c cs)
  obtain r M' where st: "step c M = (r, M')" by (cases "step c M")
  have law: "delivers ok clean (\<lambda>s. rep s M n) (bounded N c) (call c) (\<lambda>r' s. r' = r \<and> rep s M' (n + cost c))"
    using call_law [of c n N M] Cons.prems st by simp
  have IH: "delivers ok clean (\<lambda>s. rep s M' (n + cost c)) (call_all (bounded N) cs) (call_all call cs)
     (\<lambda>rs s. rs = fst (steps step cs M') \<and> rep s (snd (steps step cs M')) (n + cost c + sum_list (map cost cs)))"
    using Cons.prems by (intro Cons.IH) auto
  let ?n = "n + cost c + sum_list (map cost cs)"
  have rest: "delivers ok clean (\<lambda>s. x = r \<and> rep s M' (n + cost c)) (bindM (call_all (bounded N) cs) (\<lambda>rs. ret (x # rs)))
      (bindM (call_all call cs) (\<lambda>rs. ret (x # rs))) (\<lambda>rs s. rs = r # fst (steps step cs M') \<and> rep s (snd (steps step cs M')) ?n)" for x
  proof (rule delivers_bind [where Q = "\<lambda>rs s. x = r \<and> rs = fst (steps step cs M') \<and> rep s (snd (steps step cs M')) ?n"])
    show "delivers ok clean (\<lambda>s. x = r \<and> rep s M' (n + cost c)) (call_all (bounded N) cs) (call_all call cs)
        (\<lambda>rs s. x = r \<and> rs = fst (steps step cs M') \<and> rep s (snd (steps step cs M')) ?n)"
      using IH by (auto simp: delivers_def)
  qed (rule delivers_ret, simp)
  from delivers_bind [OF law rest] show ?case using st by (simp add: split_def Let_def add.assoc)
qed

lemma calls_refine:
  assumes "rep s M n" and "\<forall>c \<in> set cs. valid c" and "n + sum_list (map cost cs) < space" and "n + sum_list (map cost cs) + 5 \<le> N"
  shows "\<exists>r s'. call_all (bounded N) cs s = Some (r, s') \<and> (clean s' \<longrightarrow>
    r = Inr (fst (steps step cs M)) \<and> call_all call cs s = Some (r, s') \<and> rep s' (snd (steps step cs M)) (n + sum_list (map cost cs)))"
  using delivers_run [OF calls_deliver [OF assms(2-4), of M] rep_ok [OF assms(1)] assms(1)] by auto

end

section \<open>The calls of the key-value store\<close>

datatype kv_call = Get_call bytes | Put_call bytes bytes | Delete_call bytes

fun perform :: "openssl \<Rightarrow> trie_node_h_with_ncc_t \<Rightarrow> kv_call \<Rightarrow> (state_kv, bytes) m" where
  "perform ssl uninit (Get_call k) = Get ssl uninit k"
| "perform ssl uninit (Put_call k v) = bindM (Put ssl uninit k v) (\<lambda>_. ret [])"
| "perform ssl uninit (Delete_call k) = bindM (Delete ssl uninit k) (\<lambda>_. ret [])"

fun perform_upto :: "openssl \<Rightarrow> trie_node_h_with_ncc_t \<Rightarrow> nat \<Rightarrow> kv_call \<Rightarrow> (state_kv, bytes) m" where
  "perform_upto ssl uninit N (Get_call k) = operate_upto ssl uninit N GET_OP k []"
| "perform_upto ssl uninit N (Put_call k v) = bindM (operate_upto ssl uninit N PUT_OP k v) (\<lambda>_. ret [])"
| "perform_upto ssl uninit N (Delete_call k) = bindM (operate_upto ssl uninit N DEL_OP k []) (\<lambda>_. ret [])"

text \<open>The map: a key that is absent reads as the empty value.\<close>

fun map_step :: "kv_call \<Rightarrow> (bytes \<rightharpoonup> bytes) \<Rightarrow> bytes \<times> (bytes \<rightharpoonup> bytes)" where
  "map_step (Get_call k) M = (result (M k), M)"
| "map_step (Put_call k v) M = ([], M(k \<mapsto> v))"
| "map_step (Delete_call k) M = ([], M(k := None))"

fun call_valid :: "kv_call \<Rightarrow> bool" where
  "call_valid (Get_call k) \<longleftrightarrow> length k < 4294967296"
| "call_valid (Put_call k v) \<longleftrightarrow> v \<noteq> [] \<and> length v < 4294967296 \<and> length k < 4294967296"
| "call_valid (Delete_call k) \<longleftrightarrow> k \<noteq> [] \<and> length k < 4294967296"

text \<open>Room for the value and its header, the nodes of the key, and the rest of a block that is given up.\<close>

fun call_cost :: "kv_call \<Rightarrow> nat" where
  "call_cost (Put_call k v) = 104 + length v + 32 * length k"
| "call_cost _ = 0"

lemma lost_operate_upto [preserve_intros]: "preserves (\<lambda>s. \<not> world_intact ssl s) (operate_upto ssl' uninit N operation key value)"
  unfolding operate_upto_def by (intro preserve_intros)

lemma delivers_operation:
  fixes f :: "bytes \<Rightarrow> bytes"
  assumes p: "\<And>s. P s \<Longrightarrow> performs ssl uninit s N operation key value x M n" and u: "uninit_ok uninit" and v: "length value < 4294967296"
  shows "delivers sane (world_intact ssl) P (bindM (operate_upto ssl uninit N operation key value) (\<lambda>r. ret (f r)))
    (bindM (operate_trie_non_recursive ssl uninit operation key value) (\<lambda>r. ret (f r))) (\<lambda>r s. r = f x \<and> kv_rep ssl s M n)"
  unfolding delivers_def
proof (intro conjI allI impI)
  show "runs sane (bindM (operate_upto ssl uninit N operation key value) (\<lambda>r. ret (f r))) (\<lambda>_. True)"
    using u by (intro runs_bind [OF runs_operate_upto [OF v]] runs_ret) (simp_all add: uninit_ok_def)
  show "preserves (\<lambda>s. \<not> world_intact ssl s) (bindM (operate_upto ssl uninit N operation key value) (\<lambda>r. ret (f r)))"
    by (intro preserve_intros)
  fix s r s'
  assume s: "P s" and run: "bindM (operate_upto ssl uninit N operation key value) (\<lambda>r. ret (f r)) s = Some (r, s')" and i: "world_intact ssl s'"
  from p [OF s] obtain r1 s1 where o: "operate_upto ssl uninit N operation key value s = Some (r1, s1)"
      "world_intact ssl s1 \<longrightarrow> r1 = Inr x \<and> operate_trie_non_recursive ssl uninit operation key value s = Some (Inr x, s1) \<and> kv_rep ssl s1 M n"
    by (auto simp: performs_def)
  have "s' = s1" using run o(1) by (cases r1) (auto simp: bindM_def ret_def)
  with o i run show "\<exists>y. r = Inr y \<and> bindM (operate_trie_non_recursive ssl uninit operation key value) (\<lambda>r. ret (f r)) s = Some (Inr y, s')
      \<and> y = f x \<and> kv_rep ssl s' M n"
    by (auto simp: bindM_def ret_def)
qed

lemma bindM_ret_id: "bindM op (\<lambda>r. ret r) = op"
  by (rule ext) (auto simp: bindM_def ret_def split: sum.splits bind_splits)

lemma perform_delivers:
  assumes cr: "crypto_ok ssl" and u: "uninit_ok uninit" and c: "call_valid c" "n + call_cost c < 4294967296" "n + call_cost c + 5 \<le> N"
  shows "delivers sane (world_intact ssl) (\<lambda>s. kv_rep ssl s M n) (perform_upto ssl uninit N c) (perform ssl uninit c)
    (\<lambda>r s. r = fst (map_step c M) \<and> kv_rep ssl s (snd (map_step c M)) (n + call_cost c))"
proof (cases c)
  case (Get_call k)
  then have k: "length k < 4294967296" "n + 2 \<le> N" using c by simp_all
  show ?thesis
    using delivers_operation [OF performs_get [OF cr _ u k] u, where f = "\<lambda>r. r"] unfolding Get_call perform.simps perform_upto.simps Get_def bindM_ret_id
    by simp
next
  case (Put_call k v)
  then have k: "length k < 4294967296" "v \<noteq> []" "n + 104 + length v + 32 * length k \<le> n + call_cost c" "n + length k + 5 \<le> N"
    and v: "length v < 4294967296" using c by simp_all
  show ?thesis
    using delivers_operation [OF performs_put [OF cr _ u k(1-3) c(2) k(4)] u v, where f = "\<lambda>_. []"]
    unfolding Put_call perform.simps perform_upto.simps Put_def bindM_assoc bindM_ret by simp
next
  case (Delete_call k)
  then have k: "length k < 4294967296" "k \<noteq> []" "n + 2 \<le> N" using c by simp_all
  show ?thesis
    using delivers_operation [OF performs_delete [OF cr _ u k] u, where f = "\<lambda>_. []"]
    unfolding Delete_call perform.simps perform_upto.simps Delete_def bindM_assoc bindM_ret by simp
qed

definition kv_ok :: "trie_node_h_with_ncc_t \<Rightarrow> state_kv \<Rightarrow> bool" where
  "kv_ok uninit s \<longleftrightarrow> sane s \<and> uninit_ok uninit"

definition kv_store :: "openssl \<Rightarrow> trie_node_h_with_ncc_t \<Rightarrow> state_kv \<Rightarrow> (bytes \<rightharpoonup> bytes) \<Rightarrow> nat \<Rightarrow> bool" where
  "kv_store ssl uninit s M n \<longleftrightarrow> crypto_ok ssl \<and> uninit_ok uninit \<and> kv_rep ssl s M n"

lemma perform_runs: "call_valid c \<Longrightarrow> runs (kv_ok uninit) (perform_upto ssl uninit N c) (\<lambda>_. True)"
proof -
  assume c: "call_valid c"
  have op: "runs (kv_ok uninit) (operate_upto ssl uninit N operation k v) (\<lambda>_. True)" if "length v < 4294967296" for operation k v
    using runs_operate_upto [OF that, of uninit ssl N operation k] by (auto simp: runs_def kv_ok_def uninit_ok_def)
  show ?thesis using c by (cases c) (auto intro!: op runs_bind [OF op] runs_ret)
qed

lemma lost_perform [preserve_intros]: "preserves (\<lambda>s. \<not> world_intact ssl' s) (perform_upto ssl uninit N c)"
  by (cases c) (simp_all, (intro preserve_intros)+)

lemma kv_store_law:
  assumes c: "call_valid c" "n + call_cost c < 4294967296" "n + call_cost c + 5 \<le> N"
  shows "delivers (kv_ok uninit) (world_intact ssl) (\<lambda>s. kv_store ssl uninit s M n) (perform_upto ssl uninit N c) (perform ssl uninit c)
    (\<lambda>r s. r = fst (map_step c M) \<and> kv_store ssl uninit s (snd (map_step c M)) (n + call_cost c))"
  using perform_runs [OF c(1), of uninit ssl N] lost_perform [of ssl ssl uninit N c] deliversD(3) [OF perform_delivers [OF _ _ c, of ssl uninit M]]
  unfolding delivers_def kv_store_def by blast

interpretation kv: abstract_store "kv_ok uninit" "world_intact ssl" "kv_store ssl uninit" "perform_upto ssl uninit" "perform ssl uninit"
    map_step call_valid call_cost 4294967296 for ssl uninit
  by unfold_locales (use kv_store_law in \<open>auto simp: kv_store_def kv_rep_def kv_ok_def\<close>)

section \<open>The calls of the interpreter\<close>

datatype interpreter_call = Privileged kv_call | Unprivileged kv_call

fun serve :: "openssl \<Rightarrow> trie_node_h_with_ncc_t \<Rightarrow> interpreter_call \<Rightarrow> (state_kv, bytes) m" where
  "serve ssl uninit (Privileged (Get_call k)) = PrivilegedGet ssl uninit k"
| "serve ssl uninit (Privileged (Put_call k v)) = bindM (PrivilegedPut ssl uninit k v) (\<lambda>_. ret [])"
| "serve ssl uninit (Privileged (Delete_call k)) = bindM (PrivilegedDelete ssl uninit k) (\<lambda>_. ret [])"
| "serve ssl uninit (Unprivileged (Get_call k)) = UnprivilegedGet ssl uninit k"
| "serve ssl uninit (Unprivileged (Put_call k v)) = bindM (UnprivilegedPut ssl uninit k v) (\<lambda>_. ret [])"
| "serve ssl uninit (Unprivileged (Delete_call k)) = bindM (UnprivilegedDelete ssl uninit k) (\<lambda>_. ret [])"

fun prefixed :: "(bytes \<Rightarrow> bytes) \<Rightarrow> kv_call \<Rightarrow> kv_call" where
  "prefixed f (Get_call k) = Get_call (f k)"
| "prefixed f (Put_call k v) = Put_call (f k) v"
| "prefixed f (Delete_call k) = Delete_call (f k)"

fun prefixed_call :: "interpreter_call \<Rightarrow> kv_call" where
  "prefixed_call (Privileged c) = prefixed to_privileged_key c"
| "prefixed_call (Unprivileged c) = prefixed to_unprivileged_key c"

lemma serve_eq: "serve ssl uninit c = perform ssl uninit (prefixed_call c)"
  by (cases "(ssl, uninit, c)" rule: serve.cases)
    (simp_all add: PrivilegedGet_def PrivilegedPut_def PrivilegedDelete_def UnprivilegedGet_def UnprivilegedPut_def UnprivilegedDelete_def)

text \<open>Two maps, one for the interpreter and one for the contract.\<close>

type_synonym two_maps = "(bytes \<rightharpoonup> bytes) \<times> (bytes \<rightharpoonup> bytes)"

fun two_step :: "interpreter_call \<Rightarrow> two_maps \<Rightarrow> bytes \<times> two_maps" where
  "two_step (Privileged c) (P, U) = (let (r, P') = map_step c P in (r, P', U))"
| "two_step (Unprivileged c) (P, U) = (let (r, U') = map_step c U in (r, P, U'))"

definition split_map :: "(bytes \<rightharpoonup> bytes) \<Rightarrow> two_maps" where
  "split_map M = (\<lambda>k. M (to_privileged_key k), \<lambda>k. M (to_unprivileged_key k))"

definition interpreter_store :: "openssl \<Rightarrow> trie_node_h_with_ncc_t \<Rightarrow> state_kv \<Rightarrow> two_maps \<Rightarrow> nat \<Rightarrow> bool" where
  "interpreter_store ssl uninit s PU n \<longleftrightarrow> (\<exists>M. kv_store ssl uninit s M n \<and> split_map M = PU)"

lemma split_map_step:
  "two_step c (split_map M) = (fst (map_step (prefixed_call c) M), split_map (snd (map_step (prefixed_call c) M)))"
proof (cases c)
  case (Privileged d)
  then show ?thesis by (cases d) (auto simp: split_map_def to_privileged_key_def to_unprivileged_key_def fun_eq_iff)
next
  case (Unprivileged d)
  then show ?thesis by (cases d) (auto simp: split_map_def to_privileged_key_def to_unprivileged_key_def fun_eq_iff)
qed

interpretation ikv: abstract_store "kv_ok uninit" "world_intact ssl" "interpreter_store ssl uninit" "\<lambda>N c. perform_upto ssl uninit N (prefixed_call c)"
    "serve ssl uninit" two_step "\<lambda>c. call_valid (prefixed_call c)" "\<lambda>c. call_cost (prefixed_call c)" 4294967296 for ssl uninit
proof (unfold_locales, goal_cases)
  case (1 s M n)
  then show ?case by (auto simp: interpreter_store_def kv.rep_ok)
next
  case (2 c n N PU)
  note law = kv.call_law [OF 2]
  show ?case
    unfolding delivers_def
  proof (intro conjI allI impI)
    fix s r s'
    assume s: "interpreter_store ssl uninit s PU n" and run: "perform_upto ssl uninit N (prefixed_call c) s = Some (r, s')" "world_intact ssl s'"
    then obtain M where M: "kv_store ssl uninit s M n" "split_map M = PU" by (auto simp: interpreter_store_def)
    from deliversD(3) [OF law M(1) run] split_map_step [of c M] M(2)
    show "\<exists>x. r = Inr x \<and> serve ssl uninit c s = Some (Inr x, s') \<and> x = fst (two_step c PU)
        \<and> interpreter_store ssl uninit s' (snd (two_step c PU)) (n + call_cost (prefixed_call c))"
      by (auto simp: serve_eq interpreter_store_def)
  qed (rule deliversD [OF law])+
qed

end
