(* ===== verification/KV_Create.thy ===== *)
theory KV_Create
  imports KV_Map
begin

text \<open>
  A new key-value store (the constructor of \<open>State_KV\<close> that takes a key) is the empty map: the first block goes
  to the host and comes back into the cache, and the root node of the trie is written to it.
\<close>

text \<open>What a new store needs of the world outside: the host answers, and its store is sound so far.\<close>

definition fresh_world :: "openssl \<Rightarrow> bytes \<Rightarrow> env \<Rightarrow> bool" where
  "fresh_world ssl key e \<longleftrightarrow> ocalls_ok e \<and> store_ok ssl e \<and> length key = SYM_KEY_LEN"

text \<open>The store once the first block is in the cache.\<close>

definition first_block :: "openssl \<Rightarrow> bytes \<Rightarrow> env \<Rightarrow> bytes \<Rightarrow> state_kv" where
  "first_block ssl key e ct = (new_state_kv key e)\<lparr>world := host_put (evp_sha256 ssl ct) ct (e\<lparr>env_draws := Suc (env_draws e)\<rparr>),
     warehouse := \<lparr>blockIds = [evp_sha256 ssl ct], state_encryption_key = key\<rparr>,
     block_cache := [(0, \<lparr>pinned = True, refs = 0, is_modified = False, clock = 0, slot = 0\<rparr>)],
     data_nodes := (replicate 512 (new_data_node 0))[0 := \<lparr>dn_data = make_offset 0 8184 @ zero_block,
       dn_original_id = evp_sha256 ssl ct, dn_block_num = 0, dn_free_bytes = 8184\<rparr>],
     dn_queue := [1..<512], cache_clock := 1, append_dn := 0\<rparr>"

lemma dn_image_new: "dn_image (new_data_node 0) = make_offset 0 8184 @ zero_block"
  by (simp add: dn_image_def new_data_node_def zero_block_def data_end_index_def data_begin_index_def)

lemma policy_idle: "length (block_cache s) + length (dn_queue s) = 512 \<Longrightarrow> dn_queue s \<noteq> [] \<Longrightarrow> replacement_policy ssl s = Some (Inr (), s)"
  by (cases "dn_queue s")
    (auto simp: replacement_policy_def replacement_loop_def available_slots_def BLOCK_CACHE_MAX_ITEMS_def exec_simps loop_m.simps)

definition sealed_block :: "openssl \<Rightarrow> bytes \<Rightarrow> env \<Rightarrow> bytes \<Rightarrow> state_kv" where
  "sealed_block ssl key e ct = (new_state_kv key e)\<lparr>world := host_put (evp_sha256 ssl ct) ct (e\<lparr>env_draws := Suc (env_draws e)\<rparr>),
     warehouse := \<lparr>blockIds = [evp_sha256 ssl ct], state_encryption_key = key\<rparr>\<rparr>"

lemmas new_store_defs = new_state_kv_def new_data_node_io_def new_cache_def data_node_io.defs cache.defs BLOCK_CACHE_MAX_ITEMS_def

lemma slots_512: "[0..<512] = 0 # [1..<512]"
  by (simp add: upt_conv_Cons del: upt_Suc)

lemma fetch_first:
  assumes e: "ocalls_ok e" and ct: "DecryptMessage ssl key ct = Inr (make_offset 0 8184 @ zero_block)"
  shows "fetch_block ssl 0 (sealed_block ssl key e ct) = Some (Inr 0, (sealed_block ssl key e ct)\<lparr>dn_queue := [1..<512],
     data_nodes := (replicate 512 (new_data_node 0))[0 := \<lparr>dn_data = make_offset 0 8184 @ zero_block,
       dn_original_id = evp_sha256 ssl ct, dn_block_num = 0, dn_free_bytes = 8184\<rparr>]\<rparr>)"
proof -
  let ?s = "sealed_block ssl key e ct"
  let ?raw = "deserialize_original_encrypted_data_id (evp_sha256 ssl ct) (new_data_node 0)"
  have "dn_load ssl key (?raw, world ?s) =
      Some (Inr (), (?raw\<lparr>dn_data := make_offset 0 8184 @ zero_block, dn_block_num := 0, dn_free_bytes := 8184\<rparr>, world ?s))"
    by (rule dn_load_run) (use e ct in \<open>auto simp: deserialize_original_encrypted_data_id_def sealed_block_def\<close>)
  then show ?thesis
    by (simp add: fetch_block_def in_warehouse_def in_slot_def in_slot_world_def zoom_def get_datablock_id_from_datablock_num_def
        slots_allocate_def run_defs sealed_block_def new_store_defs slots_512 deserialize_original_encrypted_data_id_def new_data_node_def
        del: upt_Suc)
qed

lemma init_append_first:
  assumes "ocalls_ok e" and "DecryptMessage ssl key ct = Inr (make_offset 0 8184 @ zero_block)"
  shows "init_append_data_node ssl (sealed_block ssl key e ct) = Some (Inr (), first_block ssl key e ct)"
proof -
  have pol: "replacement_policy ssl (sealed_block ssl key e ct) = Some (Inr (), sealed_block ssl key e ct)"
    by (rule policy_idle) (simp_all add: sealed_block_def new_store_defs del: upt_Suc)
  have none: "block_cache (sealed_block ssl key e ct) = []" by (simp add: sealed_block_def new_store_defs)
  have bw: "warehouse (sealed_block ssl key e ct) = \<lparr>blockIds = [evp_sha256 ssl ct], state_encryption_key = key\<rparr>"
    "cache_clock (sealed_block ssl key e ct) = 0"
    by (simp_all add: sealed_block_def new_store_defs)
  have load: "load_block ssl 0 True (sealed_block ssl key e ct) = Some (Inr (), (sealed_block ssl key e ct)\<lparr>dn_queue := [1..<512],
     data_nodes := (replicate 512 (new_data_node 0))[0 := \<lparr>dn_data = make_offset 0 8184 @ zero_block,
       dn_original_id = evp_sha256 ssl ct, dn_block_num = 0, dn_free_bytes = 8184\<rparr>],
     cache_clock := 1, block_cache := [(0, \<lparr>pinned = True, refs = 0, is_modified = False, clock = 0, slot = 0\<rparr>)]\<rparr>)"
    using pol fetch_first [OF assms] none bw
    by (simp add: load_block_def bindM_def [of "replacement_policy ssl"] bindM_def [of "fetch_block ssl 0"])
      (simp add: cache_put_def cache_pin_def update_entry_def set_entry_def run_defs u64_def)
  let ?t = "(sealed_block ssl key e ct)\<lparr>dn_queue := [1..<512],
     data_nodes := (replicate 512 (new_data_node 0))[0 := \<lparr>dn_data = make_offset 0 8184 @ zero_block,
       dn_original_id = evp_sha256 ssl ct, dn_block_num = 0, dn_free_bytes = 8184\<rparr>],
     cache_clock := 1, block_cache := [(0, \<lparr>pinned = True, refs = 1, is_modified = False, clock = 0, slot = 0\<rparr>)]\<rparr>"
  have ret: "retrieve ssl 0 True (sealed_block ssl key e ct) = Some (Inr 0, ?t)"
    using load none by (simp add: retrieve_def grab_def update_entry_def set_entry_def run_defs u32_def)
  have "last_block (sealed_block ssl key e ct) = Some (Inr 0, sealed_block ssl key e ct)"
    using bw by (simp add: last_block_def get_last_block_num_def run_defs u32_sub_def u32_def)
  moreover have "in_warehouse (get_datablock_id_from_datablock_num 0) (sealed_block ssl key e ct) = Some (Inr (evp_sha256 ssl ct), sealed_block ssl key e ct)"
    using bw by (simp add: in_warehouse_def zoom_def get_datablock_id_from_datablock_num_def run_defs)
  moreover have "cache_done 0 False (?t\<lparr>append_dn := 0\<rparr>) = Some (Inr (), first_block ssl key e ct)"
    by (simp add: cache_done_def update_entry_def set_entry_def run_defs u32_sub_def u32_def first_block_def sealed_block_def)
  ultimately show ?thesis using ret by (simp add: init_append_data_node_def run_defs)
qed

lemma first_block_sel [simp]:
  "warehouse (first_block ssl key e ct) = \<lparr>blockIds = [evp_sha256 ssl ct], state_encryption_key = key\<rparr>"
  "world (first_block ssl key e ct) = host_put (evp_sha256 ssl ct) ct (e\<lparr>env_draws := Suc (env_draws e)\<rparr>)"
  "block_cache (first_block ssl key e ct) = [(0, \<lparr>pinned = True, refs = 0, is_modified = False, clock = 0, slot = 0\<rparr>)]"
  "data_nodes (first_block ssl key e ct) = (replicate 512 (new_data_node 0))[0 := \<lparr>dn_data = make_offset 0 8184 @ zero_block,
       dn_original_id = evp_sha256 ssl ct, dn_block_num = 0, dn_free_bytes = 8184\<rparr>]"
  "dn_queue (first_block ssl key e ct) = [1..<512]" "append_dn (first_block ssl key e ct) = 0"
  "free_space (first_block ssl key e ct) = new_free_space_collector"
  by (simp_all add: first_block_def new_store_defs)

lemma first_block_persisted:
  "DecryptMessage ssl key ct = Inr (make_offset 0 8184 @ zero_block) \<Longrightarrow> persisted ssl (first_block ssl key e ct) 0 zero_block 8184"
  by (simp add: persisted_def)

lemma first_block_contents:
  assumes e: "fresh_world ssl key e" and ct: "DecryptMessage ssl key ct = Inr (make_offset 0 8184 @ zero_block)"
    and i: "world_intact ssl (first_block ssl key e ct)"
  shows "contents ssl (first_block ssl key e ct) [zero_block]"
proof -
  have "slots_ok (first_block ssl key e ct)" by (simp add: slots_ok_def ordered_def slots_512 del: upt_Suc)
  moreover have "world_ok ssl (first_block ssl key e ct)"
    using e i store_ok_put [of ssl "e\<lparr>env_draws := Suc (env_draws e)\<rparr>" ct]
    by (simp add: world_ok_def fresh_world_def world_intact_def) (simp add: store_ok_def)
  moreover have "on_host ssl (first_block ssl key e ct) 0 zero_block"
    using first_block_persisted [OF ct] by (auto simp: on_host_def)
  ultimately show ?thesis by (simp add: contents_def block_ok_def holds_def wf_data_node_def)
qed

lemma first_block_heap:
  assumes "fresh_world ssl key e" and ct: "DecryptMessage ssl key ct = Inr (make_offset 0 8184 @ zero_block)"
    and "world_intact ssl (first_block ssl key e ct)"
  shows "heap ssl (first_block ssl key e ct) [] {}"
proof -
  have "dn_at ssl (first_block ssl key e ct) [zero_block] 0"
    using first_block_contents [OF assms] first_block_persisted [OF ct]
    by (simp add: dn_at_def dn_inv_def dn_core_def append_saved_def idle_def)
  then show ?thesis
    unfolding heap_def by (intro conjI exI [of _ "[zero_block]"]) (simp_all add: new_collector_inv, simp add: free_set_def new_free_space_collector_def)
qed

definition root_node :: "trie_node_h_with_ncc_t \<Rightarrow> trie_node" where
  "root_node uninit = create_node [] 0 0 ((new_trie_node uninit)\<lparr>location := root_bo\<rparr>)"

lemma root_node_is: "uninit_ok uninit \<Longrightarrow> node_is (node (root_node uninit)) [] empty_block_offset empty_block_offset"
  by (simp add: root_node_def node_is_def create_node_def new_trie_node_def uninit_ok_def bo_u32_def empty_block_offset_def u32_sub_def u32_def slice_def)

lemma init_trie_root_eq:
  "init_trie_root ssl uninit = bindM (write_across_data_nodes ssl (node_image (node (root_node uninit))) root_bo) (\<lambda>_. ret ())"
  by (simp add: init_trie_root_def write_trie_node_def root_node_def root_bo_def create_node_def Let_def is_empty_def empty_block_offset_def data_begin_index_def
      bindM_assoc)

lemma yields_root:
  assumes cr: "crypto_ok ssl" and u: "uninit_ok uninit"
  shows "yields ssl [] {} (init_trie_root ssl uninit) (\<lambda>_ m F. maps Map.empty 32 m F)"
  unfolding init_trie_root_eq
proof (rule yields_bind)
  let ?m = "overwrite [] 0 (node_image (node (root_node uninit)))"
  note n = root_node_is [OF u]
  have l: "lin root_bo = 0" by (simp add: root_bo_def lin_def get_root_block_num_def data_begin_index_def)
  show "yields ssl [] {} (write_across_data_nodes ssl (node_image (node (root_node uninit))) root_bo) (\<lambda>_ m F. m = ?m \<and> F = {})"
    using n l by (intro yields_conseq [OF yields_write [OF cr]]) (auto simp: root_bo_def wf_offset_def get_root_block_num_def data_begin_index_def)
  have "node_at ?m root_bo [] empty_block_offset empty_block_offset"
    using node_at_overwrite [OF n, of root_bo "[]"] l by (simp add: valid_region_def root_bo_def wf_offset_def get_root_block_num_def data_begin_index_def)
  then have "maps Map.empty 32 ?m {}"
    unfolding maps_def using n by (intro exI [of _ Tip]) (auto simp: rooted_def apart_def length_overwrite_max)
  then show "yields ssl m F (ret ()) (\<lambda>_ m F. maps Map.empty 32 m F)" if "m = ?m \<and> F = {}" for m F
    using that by (auto intro: yields_ret)
qed (intro preserve_intros)+

lemma lost_init_root: "preserves (\<lambda>s. \<not> world_intact ssl s) (init_trie_root ssl' uninit)"
  unfolding init_trie_root_eq by (intro preserve_intros)

lemma runs_root: "uninit_ok uninit \<Longrightarrow> runs sane (init_trie_root ssl uninit) (\<lambda>_. True)"
  unfolding init_trie_root_eq
  by (intro runs_bind [OF runs_write] runs_ret) (auto simp: length_node_image [OF root_node_is] root_bo_def small_def data_begin_index_def)

text \<open>The only block is the one for appending, and so it is pinned already.\<close>

lemma pin_first:
  assumes h: "heap ssl s m F" and m: "length m \<le> 32"
  shows "cache_pin 0 s = Some (Inr (), s)"
proof -
  obtain Ms where at: "dn_at ssl s Ms (length m)" using h by (auto simp: heap_def)
  then have one: "length Ms = 1" using m dn_at_bounds [OF at] by (auto simp: dn_at_def simp del: length_greater_0_conv)
  then obtain bce where b: "map_of (block_cache s) 0 = Some bce" "pinned bce" using at by (auto simp: dn_at_def dn_inv_def dn_core_def)
  have o: "in_order s" using at by (simp add: dn_at_def dn_inv_def dn_core_def contents_def slots_ok_def)
  have same: "bce\<lparr>pinned := True\<rparr> = bce" using b(2) by (cases bce) simp
  show ?thesis using b map_put_same [OF o b(1)]
    by (cases s) (simp add: cache_pin_def update_entry_def set_entry_def run_defs same)
qed

lemma kv_rep_mode:
  assumes "kv_rep ssl s M n"
  shows "kv_rep ssl (kv_start_mode_update f s) M n"
proof -
  have p: "persisted ssl (kv_start_mode_update f s) = persisted ssl s" by (intro ext) (simp add: persisted_def)
  then have b: "block_ok ssl (kv_start_mode_update f s) = block_ok ssl s"
    by (intro ext) (simp add: block_ok_def on_host_def split: option.split)
  have "contents ssl (kv_start_mode_update f s) = contents ssl s"
    by (intro ext) (simp add: contents_def slots_ok_def world_ok_def b)
  then have "heap ssl (kv_start_mode_update f s) = heap ssl s"
    by (intro ext) (simp add: heap_def dn_at_def dn_inv_def dn_core_def append_saved_def idle_def p)
  then show ?thesis using assms by (simp add: kv_rep_def sane_def)
qed

lemma create_empty:
  assumes cr: "crypto_ok ssl" and u: "uninit_ok uninit" and e: "fresh_world ssl key e"
  shows "\<exists>r s'. State_KV_create ssl uninit (new_state_kv key e) = Some (r, s') \<and>
    (world_intact ssl s' \<longrightarrow> r = Inr () \<and> kv_store ssl uninit s' Map.empty 32)"
proof -
  obtain ct where un: "dn_unload ssl key (new_data_node 0, e) = Some (Inr (evp_sha256 ssl ct),
       ((new_data_node 0)\<lparr>dn_data := dn_image (new_data_node 0), dn_original_id := evp_sha256 ssl ct\<rparr>,
        host_put (evp_sha256 ssl ct) ct (e\<lparr>env_draws := Suc (env_draws e)\<rparr>)))"
    and ct: "DecryptMessage ssl key ct = Inr (make_offset 0 8184 @ zero_block)"
    using dn_unload_run [of ssl key "new_data_node 0" e] cr e by (auto simp: crypto_ok_def fresh_world_def wf_new_data_node dn_image_new)
  let ?f = "first_block ssl key e ct"
  let ?K = "\<lambda>_ :: unit. bindM (cache_pin 0) (\<lambda>_. modify (kv_start_mode_update (\<lambda>_. KV_CREATE)))"
  have init: "init_append_data_node ssl (sealed_block ssl key e ct) = Some (Inr (), ?f)"
    using e ct by (intro init_append_first) (auto simp: fresh_world_def)
  have id: "length (evp_sha256 ssl ct) = STATE_BLOCK_ID_LENGTH"
    using cr by (simp add: crypto_ok_def sha256_correct_def STATE_BLOCK_ID_LENGTH_def)
  have run: "State_KV_create ssl uninit (new_state_kv key e) = bindM (init_trie_root ssl uninit) ?K ?f"
  proof -
    have "get (\<lambda>s. state_encryption_key (warehouse s)) (new_state_kv key e) = Some (Inr key, new_state_kv key e)"
      by (simp add: run_defs new_store_defs)
    moreover have "on_local_node (new_data_node get_root_block_num) (dn_unload ssl key) (new_state_kv key e) = Some (Inr (evp_sha256 ssl ct),
        (new_state_kv key e)\<lparr>world := host_put (evp_sha256 ssl ct) ct (e\<lparr>env_draws := Suc (env_draws e)\<rparr>)\<rparr>)"
      using un by (simp add: on_local_node_def get_root_block_num_def) (simp add: new_store_defs)
    moreover have "in_warehouse (add_block_id (evp_sha256 ssl ct))
        ((new_state_kv key e)\<lparr>world := host_put (evp_sha256 ssl ct) ct (e\<lparr>env_draws := Suc (env_draws e)\<rparr>)\<rparr>) = Some (Inr (), sealed_block ssl key e ct)"
      using id by (simp add: in_warehouse_def zoom_def add_block_id_def run_defs sealed_block_def) (simp add: new_store_defs)
    ultimately show ?thesis using init
      by (simp add: State_KV_create_def get_root_block_num_def bindM_def [of "get _"] bindM_def [of "on_local_node _ _"] bindM_def [of "in_warehouse _"]
          bindM_def [of "init_append_data_node _"])
  qed
  have "sane ?f" by (simp add: sane_def ordered_def fs_small_def new_free_space_collector_def)
  then obtain r s where s: "init_trie_root ssl uninit ?f = Some (r, s)" "sane s"
    using runs_root [OF u, of ssl] by (auto simp: runs_def)
  have ok: "r = Inr () \<and> cache_pin 0 s = Some (Inr (), s) \<and> kv_rep ssl s Map.empty 32" if "world_intact ssl s"
  proof -
    have "world_intact ssl ?f"
      using preservesD [of "\<lambda>s. \<not> world_intact ssl s" "init_trie_root ssl uninit"] s(1) that lost_init_root by blast
    from tripleD [OF yields_root [OF cr u, unfolded yields_def] first_block_heap [OF e ct this] s(1) that]
    show ?thesis using s(2) pin_first by (auto simp: kv_rep_def maps_def)
  qed
  show ?thesis
  proof (cases r)
    case (Inl x)
    then show ?thesis using run s ok by (auto simp: bindM_def)
  next
    case (Inr x)
    then have r: "State_KV_create ssl uninit (new_state_kv key e) = ?K () s" using run s by (simp add: bindM_def)
    show ?thesis
    proof (cases "world_intact ssl s")
      case True
      then show ?thesis using ok [OF True] r cr u kv_rep_mode by (auto simp: run_defs kv_store_def)
    next
      case False
      then show ?thesis unfolding r
        by (auto simp: cache_pin_def update_entry_def set_entry_def run_defs world_intact_def split: option.splits)
    qed
  qed
qed

section \<open>Creating a store always returns\<close>

lemma local_node_structure [total_intros, preserve_intros]:
  "total_on P (on_local_node dn (dn_unload ssl key))"
  "preserves in_order (on_local_node dn (dn_unload ssl key))"
  "preserves (\<lambda>s :: state_kv. R (free_space s)) (on_local_node dn (dn_unload ssl key))"
  "preserves (\<lambda>s. \<not> world_intact ssl' s) (on_local_node dn (dn_unload ssl key))"
proof -
  show "total_on P (on_local_node dn (dn_unload ssl key))"
    using total_onD [OF total_world(1) [of "\<lambda>_. True" ssl key]] by (fastforce simp: total_on_def on_local_node_def)
  show "preserves in_order (on_local_node dn (dn_unload ssl key))"
    "preserves (\<lambda>s :: state_kv. R (free_space s)) (on_local_node dn (dn_unload ssl key))"
    by (auto simp: preserves_def on_local_node_def)
  show "preserves (\<lambda>s. \<not> world_intact ssl' s) (on_local_node dn (dn_unload ssl key))"
    using preservesD [OF dn_unload_lost [of ssl' ssl key]] by (fastforce simp: preserves_def on_local_node_def world_intact_def)
qed

lemma init_append_structure [total_intros, preserve_intros]:
  "total_on in_order (init_append_data_node ssl)" "preserves in_order (init_append_data_node ssl)"
  "preserves (\<lambda>s. \<not> world_intact ssl' s) (init_append_data_node ssl)" "preserves (\<lambda>s. R (free_space s)) (init_append_data_node ssl)"
  unfolding init_append_data_node_def by (intro total_intros preserve_intros; simp?)+

lemma runs_create: "uninit_ok uninit \<Longrightarrow> runs sane (State_KV_create ssl uninit) (\<lambda>_. True)"
  unfolding State_KV_create_def
  by (intro runs_bind [OF runs_root] runs_bind [OF runs_sane] runs_sane total_intros preserve_intros; simp?)

lemma lost_create: "preserves (\<lambda>s. \<not> world_intact ssl s) (State_KV_create ssl' uninit)"
  unfolding State_KV_create_def by (intro preserve_intros lost_init_root; simp add: world_intact_def)

lemma create_delivers:
  assumes e: "fresh_world ssl key e" and cr: "crypto_ok ssl" and u: "uninit_ok uninit"
  shows "delivers (kv_ok uninit) (world_intact ssl) (\<lambda>s. s = new_state_kv key e) (State_KV_create ssl uninit) (State_KV_create ssl uninit)
    (\<lambda>_ s. kv_store ssl uninit s Map.empty 32)"
  unfolding delivers_def
proof (intro conjI allI impI)
  show "runs (kv_ok uninit) (State_KV_create ssl uninit) (\<lambda>_. True)"
    using runs_create [OF u, of ssl] by (auto simp: runs_def kv_ok_def)
  show "preserves (\<lambda>s. \<not> world_intact ssl s) (State_KV_create ssl uninit)" by (rule lost_create)
  fix s r s' assume "s = new_state_kv key e" "State_KV_create ssl uninit s = Some (r, s')" "world_intact ssl s'"
  then show "\<exists>x. r = Inr x \<and> State_KV_create ssl uninit s = Some (Inr x, s') \<and> kv_store ssl uninit s' Map.empty 32"
    using create_empty [OF cr u e] by auto
qed

end
