(* ===== verification/KV_Props.thy ===== *)
theory KV_Props
  imports KV_Create
begin

text \<open>
  The properties of the key-value store as a whole: sessions of calls on a new store, the separation of the
  interpreter's keys from the contract's, and what deleting an empty value does.
\<close>

section \<open>Sessions\<close>

text \<open>
  A session creates a store and makes a list of calls. In the session with a bound, the walk of each call stops
  after \<open>N\<close> iterations, so that it returns from every state, even when the hashes of two blocks collide and the
  store is no longer a trie. It serves to name the blocks of a collision: the code itself may then walk in a circle
  and not return. The calls covered are those of \<open>call_valid\<close>: no empty value is put, because deleting or
  replacing one may damage a node that is stored after it, as shown at the end; and the empty key is not deleted, because a
  node without a value may stay behind, on which the next Get of the empty key throws.
\<close>

definition session :: "openssl \<Rightarrow> trie_node_h_with_ncc_t \<Rightarrow> ('c \<Rightarrow> (state_kv, bytes) m) \<Rightarrow> 'c list \<Rightarrow> (state_kv, bytes list) m" where
  "session ssl uninit call cs = bindM (State_KV_create ssl uninit) (\<lambda>_. call_all call cs)"

definition new_store :: "openssl \<Rightarrow> trie_node_h_with_ncc_t \<Rightarrow> bytes \<Rightarrow> env \<Rightarrow> bool" where
  "new_store ssl uninit key e \<longleftrightarrow> crypto_ok ssl \<and> uninit_ok uninit \<and> fresh_world ssl key e"

lemma session_run:
  assumes n: "new_store ssl uninit key e"
    and d: "delivers (kv_ok uninit) (world_intact ssl) (\<lambda>s. kv_store ssl uninit s Map.empty 32) (call_all bounded cs) (call_all call cs) (\<lambda>rs _. rs = rs')"
  shows "\<exists>r s'. session ssl uninit bounded cs (new_state_kv key e) = Some (r, s') \<and>
    (world_intact ssl s' \<longrightarrow> r = Inr rs' \<and> session ssl uninit call cs (new_state_kv key e) = Some (r, s'))"
proof -
  have "kv_ok uninit (new_state_kv key e)"
    using n by (simp add: kv_ok_def new_store_def sane_def fs_small_def new_store_defs ordered_def new_free_space_collector_def)
  with delivers_run [OF delivers_bind [OF create_delivers d]] n show ?thesis
    unfolding session_def new_store_def by blast
qed

text \<open>Two different blocks that were handed to the host have the same hash.\<close>

definition blocks_collide :: "openssl \<Rightarrow> state_kv \<Rightarrow> bool" where
  "blocks_collide ssl s \<longleftrightarrow> (\<exists>b\<in>set (env_puts (world s)). \<exists>b'\<in>set (env_puts (world s)).
     b \<noteq> b' \<and> evp_sha256 ssl b = evp_sha256 ssl b')"

lemma collide_iff: "blocks_collide ssl s \<longleftrightarrow> \<not> world_intact ssl s"
  by (auto simp: blocks_collide_def world_intact_def intact_def inj_on_def)

lemma session_returns:
  assumes n: "new_store ssl uninit key e"
    and d: "delivers (kv_ok uninit) (world_intact ssl) (\<lambda>s. kv_store ssl uninit s Map.empty 32) (call_all bounded cs) (call_all call cs) (\<lambda>rs _. rs = rs')"
  shows "(\<exists>s'. session ssl uninit call cs (new_state_kv key e) = Some (Inr rs', s') \<and> \<not> blocks_collide ssl s')
    \<or> (\<exists>r s'. session ssl uninit bounded cs (new_state_kv key e) = Some (r, s') \<and> blocks_collide ssl s')"
  using session_run [OF n d] unfolding collide_iff by blast

lemma delivers_result: "delivers ok clean P b op (\<lambda>r s. r = x \<and> Q s) \<Longrightarrow> delivers ok clean P b op (\<lambda>r _. r = x)"
  unfolding delivers_def by blast

section \<open>Properties\<close>

lemma plain_new_store: "new_store plain_openssl zero_node (replicate 16 0) good_env"
  by (simp add: new_store_def plain_crypto_ok uninit_ok_def zero_node_def MAX_KEY_CHUNK_BYTE_SIZE_def small_def empty_block_offset_def
      fresh_world_def good_env_ok store_ok_def SYM_KEY_LEN_def) (simp add: good_env_def)

text \<open>C1: the key-value store is a map, for non-empty values. On a new store, take any sequence of Get calls, of Put
  calls with non-empty values and of Delete calls with non-empty keys that fits the 4 GB address space. Then the
  code returns from the whole sequence without an exception and each Get returns what a map with the same updates
  holds at the key, the empty result when it holds nothing, however the trie was split, its space reused and its
  blocks evicted and loaded meanwhile. The only other possibility is a collision: the same session, with each walk
  stopped after N iterations, hands the host two different blocks with the same hash.\<close>

theorem kv_store_is_map:
  assumes "new_store ssl uninit key e" and "\<forall>c \<in> set cs. call_valid c"
    and "32 + sum_list (map call_cost cs) < 4294967296" and "32 + sum_list (map call_cost cs) + 5 \<le> N"
  shows "(\<exists>s'. session ssl uninit (perform ssl uninit) cs (new_state_kv key e)
        = Some (Inr (fst (steps map_step cs Map.empty)), s') \<and> \<not> blocks_collide ssl s')
    \<or> (\<exists>r s'. session ssl uninit (perform_upto ssl uninit N) cs (new_state_kv key e) = Some (r, s') \<and> blocks_collide ssl s')"
  by (rule session_returns [OF assms(1) delivers_result [OF kv.calls_deliver [OF assms(2-4)]]])

theorem kv_store_is_map_witness:
  "(\<exists>s'. session plain_openssl zero_node (perform plain_openssl zero_node)
      [Put_call [1, 2] [3], Get_call [1, 2], Put_call [1, 2] [4, 5], Get_call [1, 2], Delete_call [1, 2], Get_call [1, 2]]
      (new_state_kv (replicate 16 0) good_env) = Some (Inr [[], [3], [], [4, 5], [], []], s'))
   \<or> (\<exists>r s'. session plain_openssl zero_node (perform_upto plain_openssl zero_node 1000)
      [Put_call [1, 2] [3], Get_call [1, 2], Put_call [1, 2] [4, 5], Get_call [1, 2], Delete_call [1, 2], Get_call [1, 2]]
      (new_state_kv (replicate 16 0) good_env) = Some (r, s') \<and> blocks_collide plain_openssl s')"
  using kv_store_is_map [OF plain_new_store, of "[Put_call [1, 2] [3], Get_call [1, 2], Put_call [1, 2] [4, 5], Get_call [1, 2], Delete_call [1, 2], Get_call [1, 2]]" 1000]
  by (auto simp: result_def)

text \<open>C3: the interpreter's keys and the contract's are apart, for non-empty values. Take any sequence of privileged and
  unprivileged calls on a new store in which no empty value is put and that fits the address space; any keys are
  allowed, the empty one too. Then the code returns from the whole sequence and gives the results of two separate
  maps, one for the privileged and one for the unprivileged calls: no unprivileged call reads or changes what a
  privileged call reads or writes, and the other way round. The only other possibility is a collision of block
  hashes in the session with bounded walks.\<close>

theorem interpreter_keys_separate:
  assumes "new_store ssl uninit key e" and "\<forall>c \<in> set cs. call_valid (prefixed_call c)"
    and "32 + sum_list (map (\<lambda>c. call_cost (prefixed_call c)) cs) < 4294967296"
    and "32 + sum_list (map (\<lambda>c. call_cost (prefixed_call c)) cs) + 5 \<le> N"
  shows "(\<exists>s'. session ssl uninit (serve ssl uninit) cs (new_state_kv key e)
        = Some (Inr (fst (steps two_step cs (Map.empty, Map.empty))), s') \<and> \<not> blocks_collide ssl s')
    \<or> (\<exists>r s'. session ssl uninit (\<lambda>c. perform_upto ssl uninit N (prefixed_call c)) cs (new_state_kv key e) = Some (r, s')
          \<and> blocks_collide ssl s')"
proof (rule session_returns [OF assms(1)])
  note d = delivers_result [OF ikv.calls_deliver [OF assms(2-4), of uninit ssl "(Map.empty, Map.empty)"]]
  have "interpreter_store ssl uninit s (Map.empty, Map.empty) 32" if "kv_store ssl uninit s Map.empty 32" for s
    using that by (auto simp: interpreter_store_def split_map_def fun_eq_iff)
  then show "delivers (kv_ok uninit) (world_intact ssl) (\<lambda>s. kv_store ssl uninit s Map.empty 32)
      (call_all (\<lambda>c. perform_upto ssl uninit N (prefixed_call c)) cs) (call_all (serve ssl uninit) cs)
      (\<lambda>rs _. rs = fst (steps two_step cs (Map.empty, Map.empty)))"
    using d unfolding delivers_def by blast
qed

theorem interpreter_keys_separate_witness:
  "(\<exists>s'. session plain_openssl zero_node (serve plain_openssl zero_node)
      [Privileged (Put_call [1] [2]), Unprivileged (Put_call [1] [3]), Unprivileged (Delete_call []), Privileged (Get_call [1])]
      (new_state_kv (replicate 16 0) good_env) = Some (Inr [[], [], [], [2]], s'))
   \<or> (\<exists>r s'. session plain_openssl zero_node (\<lambda>c. perform_upto plain_openssl zero_node 1000 (prefixed_call c))
      [Privileged (Put_call [1] [2]), Unprivileged (Put_call [1] [3]), Unprivileged (Delete_call []), Privileged (Get_call [1])]
      (new_state_kv (replicate 16 0) good_env) = Some (r, s') \<and> blocks_collide plain_openssl s')"
  using interpreter_keys_separate [OF plain_new_store, of "[Privileged (Put_call [1] [2]), Unprivileged (Put_call [1] [3]),
      Unprivileged (Delete_call []), Privileged (Get_call [1])]" 1000]
  by (auto simp: to_privileged_key_def to_unprivileged_key_def result_def)

section \<open>Deleting an empty value\<close>

definition deleted_header :: byte where
  "deleted_header = header_byte (empty_trie_header\<lparr>isValue := True, isDeleted := True\<rparr>)"

lemma yields_delete_empty:
  assumes cr: "crypto_ok ssl" and v: "value_at m vb []" "vb = child_offset (node nd)" and n: "lin vb + 9 < length m"
    and F: "region vb 9 \<inter> F = {}"
  shows "yields ssl m F (do_delete_value ssl nd) (\<lambda>nd' m' F'. child_offset (node nd') = empty_block_offset
    \<and> m' = m[lin vb + 9 := deleted_header] \<and> F' = F \<union> region vb 9)"
  unfolding do_delete_value_def
proof (rule yields_bounds, rule yields_bind)
  assume len: "length m < 4294967296"
  let ?h = "header_byte (empty_trie_header\<lparr>isValue := True\<rparr>)"
  let ?nd = "nd\<lparr>node := (node nd)\<lparr>child_offset := empty_block_offset\<rparr>, tn_modified := True\<rparr>"
  show "yields ssl m F (do_read_value_info ssl (child_offset (node nd)))
      (\<lambda>r m' F'. m' = m \<and> F' = F \<and> (\<exists>bo. r = (bo, [?h], 0 :: nat) \<and> wf_offset bo \<and> lin bo = lin vb + 9))"
    using yields_value_info [OF cr v(1), of F] v(2) by simp
  have reg: "valid_region vb 9" "lin vb + 9 \<le> length m" using v by (simp_all add: value_at_def placed_def)
  have h: "header_byte ((header_of_byte ?h)\<lparr>isDeleted := True\<rparr>) = deleted_header"
    by (subst header_roundtrip) (simp_all add: empty_trie_header_def deleted_header_def)
  have m: "overwrite m (lin vb + 9) [deleted_header] = m[lin vb + 9 := deleted_header]"
    using n by (simp add: overwrite_def upd_conv_take_nth_drop)
  have sz: "u32 (Suc 0 + sizeof_size_t + 0) = 9" by (simp add: sizeof_size_t_def u32_id)
  fix r m1 F1 assume "m1 = m \<and> F1 = F \<and> (\<exists>bo. r = (bo, [?h], 0 :: nat) \<and> wf_offset bo \<and> lin bo = lin vb + 9)"
  then obtain bo where r: "m1 = m" "F1 = F" "r = (bo, [?h], 0 :: nat)" "wf_offset bo" "lin bo = lin vb + 9" by blast
  have "yields ssl m F (bindM (write_across_data_nodes ssl [deleted_header] bo) (\<lambda>_. bindM (in_free_space (collect vb (u32 (Suc 0 + sizeof_size_t + 0)))) (\<lambda>_. ret ?nd)))
      (\<lambda>nd' m' F'. child_offset (node nd') = empty_block_offset \<and> m' = m[lin vb + 9 := deleted_header] \<and> F' = F \<union> region vb 9)"
    unfolding sz
    by (rule yields_bind [OF yields_write [OF cr r(4)]], use r(5) n len in simp, use r(5) n len in simp,
        rule yields_bind [OF yields_collect [OF reg(1)]])
      (use r(5) F n m in \<open>auto intro!: yields_ret preserve_intros\<close>)
  then show "yields ssl m1 F1 (case r of (bo, ba_header, value_size) \<Rightarrow> bindM (first_byte ba_header) (\<lambda>h.
      bindM (write_across_data_nodes ssl (ba_header[0 := header_byte ((header_of_byte h)\<lparr>isDeleted := True\<rparr>)]) bo) (\<lambda>_.
      bindM (in_free_space (collect (child_offset (node nd)) (u32 (length ba_header + sizeof_size_t + value_size)))) (\<lambda>_. ret ?nd))))
      (\<lambda>nd' m' F'. child_offset (node nd') = empty_block_offset \<and> m' = m[lin vb + 9 := deleted_header] \<and> F' = F \<union> region vb 9)"
    using r v(2) h by (simp add: first_byte_def)
qed (intro preserve_intros)

text \<open>A node whose header byte is overwritten in this way keeps its links and has an empty key chunk.\<close>

lemma node_at_marked:
  assumes "node_at m bo ch nx cd"
  shows "node_at (m[lin bo := deleted_header]) bo [] nx cd"
proof -
  have p: "placed m bo 32" "lin bo + 32 \<le> length m" and n: "node_is (node_of_image (slice m (lin bo) 32)) ch nx cd"
    using assms by (simp_all add: node_at_def placed_def)
  obtain x b where b: "slice m (lin bo) 32 = x # b"
    using p(2) by (cases "slice m (lin bo) 32") (auto simp: slice_def)
  have "slice (m[lin bo := deleted_header]) (lin bo) 32 = deleted_header # b"
    using b p(2) by (simp add: slice_def drop_update_swap take_update_swap)
  moreover have "keyChunkSize (header_of_byte deleted_header) = 0"
    unfolding deleted_header_def by (subst header_roundtrip) (simp_all add: empty_trie_header_def)
  ultimately show ?thesis
    using n b p by (simp add: node_at_def placed_def node_is_def node_of_image_def)
qed

lemma yields_delete_marks:
  assumes cr: "crypto_ok ssl" and v: "value_at m (child_offset (node nd)) []"
    and n: "node_at m bo ch nx cd" "lin bo = lin (child_offset (node nd)) + 9"
    and F: "(region (child_offset (node nd)) 9 \<union> region bo 32) \<inter> F = {}"
  shows "yields ssl m F (do_delete_value ssl nd) (\<lambda>nd' m' F'. child_offset (node nd') = empty_block_offset
    \<and> length m' = length m \<and> node_at m' bo [] nx cd \<and> region bo 32 \<inter> F' = {})"
proof -
  have "lin (child_offset (node nd)) + 9 < length m" using n by (simp add: node_at_def placed_def)
  moreover have "region (child_offset (node nd)) 9 \<inter> F = {}" using F by blast
  ultimately show ?thesis
    using node_at_marked [OF n(1)] n(2) F
    by (intro yields_conseq [OF yields_delete_empty [OF cr v refl]]) (auto simp: region_def)
qed

lemma yields_replace_marks:
  assumes cr: "crypto_ok ssl" and v: "value_at m (child_offset (node nd)) []"
    and n: "node_at m bo ch nx cd" "lin bo = lin (child_offset (node nd)) + 9"
    and F: "(region (child_offset (node nd)) 9 \<union> region bo 32) \<inter> F = {}" and lim: "length m + 9 + length w < 4294967296"
  shows "yields ssl m F (do_write_value ssl nd w) (\<lambda>_ m' _. node_at m' bo [] nx cd)"
proof -
  have ne: "\<not> is_empty (child_offset (node nd))" "is_empty empty_block_offset"
    using v placed_not_empty [of m "child_offset (node nd)" 9] by (auto simp: value_at_def is_empty_def)
  show ?thesis
    unfolding do_write_value_def if_P [OF ne(1)]
  proof (rule yields_bind [OF yields_delete_marks [OF cr v n F]], goal_cases)
    case d: (1 nd1 m1 F1)
    have e: "child_offset (node nd1) = empty_block_offset" and lim1: "length m1 + 9 + length w < 4294967296" using d lim by simp_all
    from e ne(2) have "\<not> \<not> is_empty (child_offset (node nd1))" by simp
    note new = yields_new_value [OF cr e lim1, of F1, unfolded do_write_value_def if_not_P [OF this] bindM_ret]
    have inside: "region bo 32 \<subseteq> {..<length m1}" using d by (auto simp: node_at_def placed_def region_def)
    have "node_at m' bo [] nx cd" if "fresh m1 F1 R" and "changed m1 m' R" for m' R
    proof -
      have "region bo 32 \<inter> R = {}" using fresh_disjoint [OF that(1) inside] d by blast
      then show ?thesis using node_at_changed d that(2) by blast
    qed
    then show ?case by (intro yields_conseq [OF new]) blast
  qed (auto simp: Let_def intro!: preserve_intros)
qed

text \<open>A state for the witness: one block with given data.\<close>

definition demo_data :: "bytes \<Rightarrow> nat \<Rightarrow> data_node_io" where
  "demo_data pl n = demo_io\<lparr>data_nodes := (data_nodes demo_io)[0 := \<lparr>dn_data = replicate 8 0 @ pl, dn_original_id = [], dn_block_num = 0,
     dn_free_bytes = 8184 - n\<rparr>]\<rparr>"

lemma demo_data_heap:
  assumes "length pl = 8184" and "n \<le> 8184"
  shows "heap plain_openssl (demo_data pl n) (take n pl) {}"
proof -
  have "slots_ok (demo_data pl n)" "world_ok plain_openssl (demo_data pl n)"
    using demo_contents by (simp_all add: contents_def slots_ok_def world_ok_def demo_data_def)
  moreover have "holds (data_nodes (demo_data pl n) ! 0) 0 pl"
    using assms by (simp add: demo_data_def demo_io_def holds_def wf_data_node_def)
  ultimately have "contents plain_openssl (demo_data pl n) [pl]"
    using assms(1) by (simp add: contents_def block_ok_def) (simp add: demo_data_def demo_io_def)
  then have "dn_at plain_openssl (demo_data pl n) [pl] n"
    using assms by (simp add: dn_at_def dn_inv_def dn_core_def append_saved_def idle_def) (simp add: demo_data_def demo_io_def)
  then show ?thesis
    unfolding heap_def using assms
    by (intro conjI exI [of _ "[pl]"]) (simp_all add: demo_data_def demo_io_def new_collector_inv free_set_def, simp add: new_free_space_collector_def)
qed

text \<open>C38: deleting an empty value, or replacing it by another value, damages a node of the trie that is stored
  right after the value's record. The header that marks the value as deleted is written one byte past the end of the
  record, onto the node's header: the call returns, and unless block hashes collided the node, whatever its
  key chunk was, is stored with an empty one afterwards.\<close>

theorem empty_value_delete_overwrites:
  assumes "crypto_ok ssl" and "heap ssl s m F" and "sane s" and "good nd" and "value_at m (child_offset (node nd)) []"
    and "node_at m bo ch nx cd" and "lin bo = lin (child_offset (node nd)) + 9"
    and "(region (child_offset (node nd)) 9 \<union> region bo 32) \<inter> F = {}" and "length m + 9 + length w < 4294967296"
  shows "(\<exists>r s'. do_delete_value ssl nd s = Some (r, s')
        \<and> (world_intact ssl s' \<longrightarrow> (\<exists>m' F'. heap ssl s' m' F' \<and> node_at m' bo [] nx cd)))
    \<and> (\<exists>r s'. do_write_value ssl nd w s = Some (r, s')
        \<and> (world_intact ssl s' \<longrightarrow> (\<exists>m' F'. heap ssl s' m' F' \<and> node_at m' bo [] nx cd)))"
proof
  obtain r s' where run: "do_delete_value ssl nd s = Some (r, s')"
    using runs_delete_value [OF assms(4), of ssl] assms(3) by (auto simp: runs_def)
  with tripleD [OF yields_delete_marks [OF assms(1,5-8), unfolded yields_def] assms(2)]
  show "\<exists>r s'. do_delete_value ssl nd s = Some (r, s')
      \<and> (world_intact ssl s' \<longrightarrow> (\<exists>m' F'. heap ssl s' m' F' \<and> node_at m' bo [] nx cd))"
    by blast
next
  have w: "length w < 4294967296" using assms(9) by simp
  obtain r s' where run: "do_write_value ssl nd w s = Some (r, s')"
    using runs_write_value [OF assms(4) w, of ssl] assms(3) by (auto simp: runs_def)
  with tripleD [OF yields_replace_marks [OF assms(1,5-9), unfolded yields_def] assms(2)]
  show "\<exists>r s'. do_write_value ssl nd w s = Some (r, s')
      \<and> (world_intact ssl s' \<longrightarrow> (\<exists>m' F'. heap ssl s' m' F' \<and> node_at m' bo [] nx cd))"
    by blast
qed

text \<open>The record of an empty value in the first nine bytes of the data, followed by a node with the key chunk 7.\<close>

definition demo_leaf :: trie_node where
  "demo_leaf = \<lparr>node = zero_node\<lparr>child_offset := \<lparr>block_num = 0, bytes = 8\<rparr>\<rparr>, tn_modified = False, tn_initialized = True,
     location = \<lparr>block_num = 0, bytes = 100\<rparr>\<rparr>"

definition demo_neighbour :: trie_node_h_with_ncc_t where
  "demo_neighbour = \<lparr>hdr = empty_trie_header\<lparr>keyChunkSize := 1\<rparr>, next_offset = empty_block_offset,
     child_offset = empty_block_offset, key_chunk = 7 # replicate 14 0\<rparr>"

definition demo_payload :: bytes where
  "demo_payload = value_image [] @ node_image demo_neighbour @ replicate 8143 0"

lemma demo_neighbour_is: "node_is demo_neighbour [7] empty_block_offset empty_block_offset"
  by (simp add: node_is_def demo_neighbour_def)

lemma demo_neighbour_at:
  "node_at (value_image [] @ node_image demo_neighbour) \<lparr>block_num = 0, bytes = 17\<rparr> [7] empty_block_offset empty_block_offset"
proof -
  have "length (value_image []) = 9" "length (node_image demo_neighbour) = 32"
    using demo_neighbour_is by (simp_all add: value_image_def)
  then have "slice (value_image [] @ node_image demo_neighbour) 9 32 = node_image demo_neighbour" by (simp add: slice_def)
  moreover have "node_is (node_of_image (node_image demo_neighbour)) [7] empty_block_offset empty_block_offset"
    using node_roundtrip [OF demo_neighbour_is] demo_neighbour_is by simp
  ultimately show ?thesis
    using \<open>length (value_image []) = 9\<close> \<open>length (node_image demo_neighbour) = 32\<close>
    by (simp add: node_at_def placed_def valid_region_def wf_offset_def lin_def)
qed

theorem empty_value_delete_overwrites_witness:
  "\<exists>r s' m F. heap plain_openssl (demo_data demo_payload 41) m F
     \<and> node_at m \<lparr>block_num = 0, bytes = 17\<rparr> [7] empty_block_offset empty_block_offset
     \<and> do_write_value plain_openssl demo_leaf [1] (demo_data demo_payload 41) = Some (r, s')
     \<and> (world_intact plain_openssl s' \<longrightarrow> (\<exists>m' F'. heap plain_openssl s' m' F'
          \<and> node_at m' \<lparr>block_num = 0, bytes = 17\<rparr> [] empty_block_offset empty_block_offset))"
proof -
  let ?s = "demo_data demo_payload 41" and ?m = "value_image [] @ node_image demo_neighbour"
  let ?vb = "\<lparr>block_num = 0, bytes = 8\<rparr>" and ?bo = "\<lparr>block_num = 0, bytes = 17\<rparr>"
  have len: "length (value_image []) = 9" "length (node_image demo_neighbour) = 32" "length demo_payload = 8184"
    using demo_neighbour_is by (simp_all add: value_image_def demo_payload_def)
  have "take 41 demo_payload = ?m" using len by (simp add: demo_payload_def)
  then have h: "heap plain_openssl ?s ?m {}" using demo_data_heap [of demo_payload 41] len by simp
  have vb: "child_offset (node demo_leaf) = ?vb" "lin ?vb = 0" "lin ?bo = 9" by (simp_all add: demo_leaf_def lin_def)
  have "sane ?s" by (simp add: sane_def demo_data_def demo_io_def ordered_def fs_small_def new_free_space_collector_def)
  moreover have "good demo_leaf" by (simp add: good_def demo_leaf_def zero_node_def small_def empty_block_offset_def MAX_KEY_CHUNK_BYTE_SIZE_def)
  moreover have "value_at ?m ?vb []"
    using len vb(2) by (simp add: value_at_def placed_def valid_region_def wf_offset_def slice_def)
  ultimately show ?thesis
    using empty_value_delete_overwrites [OF plain_crypto_ok h, of demo_leaf ?bo "[7]" empty_block_offset empty_block_offset "[1]"]
      demo_neighbour_at vb len h by (simp; blast)
qed

end
