(* ===== verification/Ledger_Data.thy ===== *)
theory Ledger_Data
  imports Encodings
begin

text \<open>
  The transaction processor's data and signature checks
  (\<open>ledgers/ccf/transaction_processor\<close>: \<open>enclave_registry.h\<close>, \<open>contract_registry.h\<close>,
  \<open>ccl_registry.h\<close>, \<open>pdo_tp.h\<close>, \<open>verify_signatures.cpp\<close>). What CCF, its cryptography library, the
  JSON library and the SGX SDK provide is a parameter, a record of the functions called.
\<close>

section \<open>Registries\<close>

record ContractEnclaveAttestionCheckFlag =
  check_attestation :: bool

record ContractEnclaveExpectedSGXMeasurements =
  mrenclave :: string
  basename :: string
  ias_public_key :: string
  sgx_debug_flag :: bool

record ProofData =
  pd_certificates :: "string list"
  pd_verification_report :: string
  pd_signature :: string

record VerificationReport =
  vr_epidPseudonym :: string
  vr_id :: string
  vr_isvEnclaveQuoteStatus :: string
  vr_isvEnclaveQuoteBody :: string
  vr_version :: int
  vr_nonce :: string
  vr_timestamp :: string

record EnclaveInfo =
  ei_verifying_key :: string
  ei_encryption_key :: string
  ei_proof_data :: string
  ei_enclave_persistent_id :: string
  ei_registration_block_context :: string
  ei_organizational_info :: string
  ei_EHS_verifying_key :: string

record ProvisioningKeysToSecretMap =
  pspk :: string
  encrypted_secret :: string

record ContractEnclaveInfo =
  cei_contract_enclave_id :: string
  cei_contract_id :: string
  cei_encrypted_state_encryption_key :: string
  cei_signature :: string
  cei_provisioning_key_state_secret_pairs :: "ProvisioningKeysToSecretMap list"

record ContractInfo =
  ci_contract_id :: string
  ci_contract_code_hash :: bytes
  ci_contract_metadata_hash :: bytes
  ci_contract_creator_verifying_key_PEM :: string
  ci_provisioning_service_ids :: "string list"
  ci_enclave_info :: "ContractEnclaveInfo list"
  ci_current_state_hash :: bytes
  ci_is_active :: bool

record ContractStateDependecy =
  dep_contract_id :: string
  dep_state_hash :: bytes
  dep_state_hash_for_sign :: string

record ContractStateInfo =
  csi_transaction_id :: bytes
  csi_previous_state_hash :: bytes
  csi_message_hash :: bytes
  csi_dependency_list :: "ContractStateDependecy list"

record StateUpdateInfo =
  sui_contract_id :: string
  sui_current_state_hash :: bytes
  sui_previous_state_hash :: bytes
  sui_message_hash :: bytes
  sui_dependency_list :: "ContractStateDependecy list"

section \<open>Requests\<close>

record Register_enclave_In =
  re_verifying_key :: string
  re_encryption_key :: string
  re_proof_data :: string
  re_enclave_persistent_id :: string
  re_registration_block_context :: string
  re_organizational_info :: string
  re_EHS_verifying_key :: string
  re_signature :: bytes

record Register_contract_In =
  rc_contract_code_hash :: bytes
  rc_contract_creator_verifying_key_PEM :: string
  rc_nonce :: string
  rc_signature :: bytes
  rc_contract_id :: string
  rc_provisioning_service_ids :: "string list"

record Add_enclave_In =
  ae_contract_id :: string
  ae_enclave_info :: string
  ae_signature :: bytes

record Initialize_contract_state_In =
  ic_nonce :: bytes
  ic_contract_id :: string
  ic_initial_state_hash :: bytes
  ic_message_hash :: bytes
  ic_metadata_hash :: bytes
  ic_contract_enclave_id :: string
  ic_contract_enclave_signature :: bytes
  ic_creator_signature :: bytes

record Update_contract_state_In =
  uc_nonce :: bytes
  uc_state_update_info :: string
  uc_contract_enclave_id :: string
  uc_contract_enclave_signature :: bytes

text \<open>The results of the requests; writing requests return \<open>true\<close>.\<close>

datatype out =
    Out_true
  | Out_message string
  | Out_ledger_key string
  | Out_verify_enclave string string string string string string
  | Out_provisioning_info string "string list" "ContractEnclaveInfo list" string
  | Out_contract_info string string string string
  | Out_current_state string bool string
  | Out_state_details string string string string string

text \<open>\<open>make_success\<close>, or \<open>make_error\<close> with status 400 and a message.\<close>

datatype response = Success out | Failure string

section \<open>CCF, cryptography, JSON and SGX as parameters\<close>

text \<open>The fields of a quote that the code reads through the SGX SDK's structs.\<close>

record sgx_quote =
  quote_basename :: bytes
  quote_mr_enclave :: bytes
  quote_report_data :: bytes
  quote_flags :: nat

record ccf =
  pem_valid :: "string \<Rightarrow> bool"
  ec_verify :: "string \<Rightarrow> bytes \<Rightarrow> bytes \<Rightarrow> bool"
  rsa_pem_valid :: "string \<Rightarrow> bool"
  rsa_verify :: "string \<Rightarrow> bytes \<Rightarrow> bytes \<Rightarrow> bool"
  key_pair_gen :: "nat \<Rightarrow> (string \<times> string) option"
  privk_pem_valid :: "string \<Rightarrow> bool"
  ec_sign :: "string \<Rightarrow> bytes \<Rightarrow> bytes"
  raw_from_b64 :: "string \<Rightarrow> error + bytes"
  b64_from_raw :: "bytes \<Rightarrow> error + string"
  ccf_sha256 :: "bytes \<Rightarrow> bytes"
  to_hex :: "bytes \<Rightarrow> string"
  quote_of :: "bytes \<Rightarrow> sgx_quote"
  parse_ProofData :: "string \<Rightarrow> ProofData option"
  parse_VerificationReport :: "string \<Rightarrow> VerificationReport option"
  parse_ContractEnclaveInfo :: "string \<Rightarrow> ContractEnclaveInfo list option"
  parse_StateUpdateInfo :: "string \<Rightarrow> StateUpdateInfo option"
  dump_provisioning :: "string \<Rightarrow> string \<Rightarrow> ContractEnclaveInfo list \<Rightarrow> string list \<Rightarrow> string"
  dump_dependencies :: "ContractStateDependecy list \<Rightarrow> string"

definition string_bytes :: "string \<Rightarrow> bytes" where
  "string_bytes s = map of_char s"

definition tolower :: "char \<Rightarrow> char" where
  "tolower c = (if 65 \<le> (of_char c :: nat) \<and> (of_char c :: nat) \<le> 90 then char_of ((of_char c :: nat) + 32) else c)"

text \<open>\<open>std::vector::resize\<close> and \<open>std::string::resize\<close>.\<close>

definition resize :: "nat \<Rightarrow> 'a \<Rightarrow> 'a list \<Rightarrow> 'a list" where
  "resize n d xs = take n xs @ replicate (n - length xs) d"

text \<open>
  \<open>std::to_string\<close> on a byte, and \<open>vector_to_string\<close>, which turns a hash into the second part of
  a key of the CCL table: the decimal numbers one after the other, nothing between them.
\<close>

fun to_string :: "nat \<Rightarrow> string" where
  "to_string n = (if n < 10 then [char_of (48 + n)] else to_string (n div 10) @ [char_of (48 + n mod 10)])"

declare to_string.simps [simp del]

definition vector_to_string :: "bytes \<Rightarrow> string" where
  "vector_to_string vec = concat (map (\<lambda>v. to_string (unat v)) vec)"

section \<open>Signature checks\<close>

text \<open>
  A public key object is the PEM string it was made from; making one from an invalid string throws.
  A null pointer in the table of verifiers is \<open>None\<close>; using it is undefined behaviour.
\<close>

definition verify_sig_static :: "ccf \<Rightarrow> bytes \<Rightarrow> string option \<Rightarrow> bytes \<Rightarrow> error + bool" where
  "verify_sig_static C signature pubk_verifier contents =
     (case pubk_verifier of
        None \<Rightarrow> Inl (Undefined ''null public key'')
      | Some key \<Rightarrow> Inr (ec_verify C key contents signature))"

definition verify_sig :: "ccf \<Rightarrow> bytes \<Rightarrow> string \<Rightarrow> bytes \<Rightarrow> error + bool" where
  "verify_sig C signature verifying_key contents =
     (if \<not> pem_valid C verifying_key then Inl (RuntimeError ''invalid public key'')
      else Inr (ec_verify C verifying_key contents signature))"

definition verify_rsa_sig :: "ccf \<Rightarrow> bytes \<Rightarrow> string \<Rightarrow> bytes \<Rightarrow> error + bool" where
  "verify_rsa_sig C signature verifying_key contents =
     (if \<not> rsa_pem_valid C verifying_key then Inl (RuntimeError ''invalid public key'')
      else Inr (rsa_verify C verifying_key contents signature))"

definition verify_ias_signature :: "ccf \<Rightarrow> string \<Rightarrow> string \<Rightarrow> string \<Rightarrow> error + bool" where
  "verify_ias_signature C signature ias_key verification_report_string =
     (case raw_from_b64 C signature of
        Inl e \<Rightarrow> Inl e
      | Inr raw \<Rightarrow> verify_rsa_sig C raw ias_key (string_bytes verification_report_string))"

definition verify_pdo_transaction_signature_register_enclave ::
    "ccf \<Rightarrow> bytes \<Rightarrow> string \<Rightarrow> EnclaveInfo \<Rightarrow> error + bool" where
  "verify_pdo_transaction_signature_register_enclave C signature verifying_key info =
     verify_sig C signature verifying_key
       (string_bytes (verifying_key @ ei_verifying_key info @ ei_encryption_key info @ ei_proof_data info
          @ ei_enclave_persistent_id info @ ei_registration_block_context info @ ei_organizational_info info))"

definition verify_pdo_transaction_signature_register_contract ::
    "ccf \<Rightarrow> bytes \<Rightarrow> string \<Rightarrow> bytes \<Rightarrow> string \<Rightarrow> string list \<Rightarrow> error + bool" where
  "verify_pdo_transaction_signature_register_contract C signature verifying_key code_hash nonce service_ids =
     verify_sig C signature verifying_key
       (string_bytes verifying_key @ code_hash @ string_bytes (concat service_ids @ nonce))"

definition verify_pdo_transaction_signature_add_enclave ::
    "ccf \<Rightarrow> bytes \<Rightarrow> string \<Rightarrow> string \<Rightarrow> string \<Rightarrow> error + bool" where
  "verify_pdo_transaction_signature_add_enclave C signature verifying_key cid enclave_info_json_string =
     verify_sig C signature verifying_key (string_bytes (verifying_key @ cid @ enclave_info_json_string))"

definition verify_enclave_signature_add_enclave ::
    "ccf \<Rightarrow> string \<Rightarrow> string option \<Rightarrow> string \<Rightarrow> string \<Rightarrow> ProvisioningKeysToSecretMap list \<Rightarrow> string \<Rightarrow> error + bool" where
  "verify_enclave_signature_add_enclave C signature pubk_verifier creator_key cid prov_key_maps enc_key =
     (case raw_from_b64 C enc_key of
        Inl e \<Rightarrow> Inl e
      | Inr temp \<Rightarrow> (case raw_from_b64 C signature of
            Inl e \<Rightarrow> Inl e
          | Inr raw \<Rightarrow> verify_sig_static C raw pubk_verifier
              (string_bytes (cid @ creator_key @ concat (map (\<lambda>p. pspk p @ encrypted_secret p) prov_key_maps)) @ temp)))"

definition verify_creator_signature_initialize_contract_state ::
    "ccf \<Rightarrow> bytes \<Rightarrow> bytes \<Rightarrow> string \<Rightarrow> error + bool" where
  "verify_creator_signature_initialize_contract_state C enclave_signature creator_signature creator_key =
     verify_sig C creator_signature creator_key enclave_signature"

definition initialize_contents :: "bytes \<Rightarrow> string \<Rightarrow> bytes \<Rightarrow> bytes \<Rightarrow> bytes \<Rightarrow> bytes \<Rightarrow> string \<Rightarrow> bytes" where
  "initialize_contents nonce cid state_hash code_hash message_hash metadata_hash creator_key =
     nonce @ string_bytes cid @ code_hash @ message_hash @ string_bytes creator_key @ metadata_hash @ state_hash"

definition verify_enclave_signature_initialize_contract_state ::
    "ccf \<Rightarrow> bytes \<Rightarrow> string \<Rightarrow> bytes \<Rightarrow> bytes \<Rightarrow> bytes \<Rightarrow> bytes \<Rightarrow> string \<Rightarrow> bytes \<Rightarrow> string option \<Rightarrow> error + bool" where
  "verify_enclave_signature_initialize_contract_state C nonce cid state_hash code_hash message_hash
       metadata_hash creator_key enclave_signature enclave_key =
     verify_sig_static C enclave_signature enclave_key
       (initialize_contents nonce cid state_hash code_hash message_hash metadata_hash creator_key)"

definition update_contents :: "bytes \<Rightarrow> bytes \<Rightarrow> StateUpdateInfo \<Rightarrow> bytes" where
  "update_contents nonce code_hash u =
     nonce @ string_bytes (sui_contract_id u) @ code_hash @ sui_message_hash u @ sui_previous_state_hash u
       @ sui_current_state_hash u
       @ string_bytes (concat (map (\<lambda>d. dep_contract_id d @ dep_state_hash_for_sign d) (sui_dependency_list u)))"

definition verify_enclave_signature_update_contract_state ::
    "ccf \<Rightarrow> bytes \<Rightarrow> bytes \<Rightarrow> StateUpdateInfo \<Rightarrow> bytes \<Rightarrow> string option \<Rightarrow> error + bool" where
  "verify_enclave_signature_update_contract_state C nonce code_hash u enclave_signature enclave_key =
     verify_sig_static C enclave_signature enclave_key (update_contents nonce code_hash u)"

end
