(* ===== verification/Ledger.thy ===== *)
theory Ledger
  imports Ledger_Data
begin

text \<open>
  The handlers of the transaction processor (\<open>ledgers/ccf/transaction_processor/pdo_tp.cpp\<close>). The
  state is the key-value store as the transaction sees it, the globally committed view of it, and
  the members of the handler object, which are local to a node: the cache of enclave verifiers and
  the ledger's signing key. A handler gives a response, or throws; CCF applies the writes of a
  transaction only when the response is a success (\<open>endpoint\<close> below), but a change to a member of the
  object stays.
\<close>

section \<open>State\<close>

record key_pair =
  kp_privk :: string
  kp_pubk :: string

record tables =
  contract_enclave_expected_sgx_measurements :: "string \<Rightarrow> ContractEnclaveExpectedSGXMeasurements option"
  contract_enclave_check_attestation_flag :: "string \<Rightarrow> ContractEnclaveAttestionCheckFlag option"
  enclavetable :: "string \<Rightarrow> EnclaveInfo option"
  contracttable :: "string \<Rightarrow> ContractInfo option"
  ccltable :: "string \<Rightarrow> ContractStateInfo option"
  signer :: "string \<Rightarrow> key_pair option"

record tp_state =
  kv :: tables
  kv_global :: tables
  enclave_pubk_verifier :: "string \<Rightarrow> string option"
  ledger_signer_local :: "string option"
  keys_generated :: nat

definition empty_tables :: tables where
  "empty_tables =
     \<lparr>contract_enclave_expected_sgx_measurements = Map.empty, contract_enclave_check_attestation_flag = Map.empty,
      enclavetable = Map.empty, contracttable = Map.empty, ccltable = Map.empty, signer = Map.empty\<rparr>"

definition initial_tp_state :: tp_state where
  "initial_tp_state =
     \<lparr>kv = empty_tables, kv_global = empty_tables, enclave_pubk_verifier = (\<lambda>_. None),
      ledger_signer_local = None, keys_generated = 0\<rparr>"

definition PDO_ENCLAVE_EXPECTED_SGX_MEASUREMENTS :: string where
  "PDO_ENCLAVE_EXPECTED_SGX_MEASUREMENTS = ''pdo_enclave_expected_sgx_measurements''"

definition PDO_ENCLAVE_CHECK_ATTESTATION_FLAG :: string where
  "PDO_ENCLAVE_CHECK_ATTESTATION_FLAG = ''pdo_enclave_check_attestation_flag''"

type_synonym handler = "(tp_state, response) m"

definition put_kv :: "(tables \<Rightarrow> tables) \<Rightarrow> (tp_state, unit) m" where
  "put_kv f = modify (kv_update f)"

text \<open>
  \<open>params.get<In>()\<close>: a request's JSON parameters read as the fields of the handler's input type, by
  the JSON library and the schema macros of CCF. The model's requests carry the outcome of that
  reading, \<open>None\<close> when a field is missing or has another type; \<open>get\<close> then throws.
\<close>

definition params_get :: "'a option \<Rightarrow> (tp_state, 'a) m" where
  "params_get params =
     (case params of
        None \<Rightarrow> throw (StdException ''parameters do not have the fields of the input type'')
      | Some inp \<Rightarrow> ret inp)"

section \<open>Signing\<close>

definition sign_document :: "ccf \<Rightarrow> string \<Rightarrow> (tp_state, string) m" where
  "sign_document C document =
     bindM (get ledger_signer_local) (\<lambda>key.
     case key of
       None \<Rightarrow> throw (Undefined ''null signing key'')
     | Some privk \<Rightarrow> liftE (b64_from_raw C (ec_sign C privk (string_bytes document))))"

text \<open>
  The lines each reading handler starts with: take the signing key from the globally committed
  table unless the object has it already. The result says whether there is one.
\<close>

definition locate_ledger_signer :: "ccf \<Rightarrow> (tp_state, bool) m" where
  "locate_ledger_signer C =
     bindM (get ledger_signer_local) (\<lambda>key.
     if key \<noteq> None then ret True
     else bindM (get (\<lambda>s. signer (kv_global s) ''signer'')) (\<lambda>signer_global.
       case signer_global of
         None \<Rightarrow> ret False
       | Some kp \<Rightarrow>
           bindM (throwIf (\<not> privk_pem_valid C (kp_privk kp)) (RuntimeError ''invalid private key'')) (\<lambda>_.
           bindM (modify (ledger_signer_local_update (\<lambda>_. Some (kp_privk kp)))) (\<lambda>_.
           ret True))))"

section \<open>Governance\<close>

definition ping :: handler where
  "ping = ret (Success Out_true)"

definition set_contract_enclave_attestation_check_flag :: "ContractEnclaveAttestionCheckFlag option \<Rightarrow> handler" where
  "set_contract_enclave_attestation_check_flag params =
     bindM (params_get params) (\<lambda>inp.
     bindM (get (\<lambda>s. contract_enclave_check_attestation_flag (kv s) PDO_ENCLAVE_CHECK_ATTESTATION_FLAG)) (\<lambda>flag.
     if flag \<noteq> None then ret (Failure ''Attesation check flag can be set only once'')
     else bindM (put_kv (contract_enclave_check_attestation_flag_update
                  (\<lambda>t. t(PDO_ENCLAVE_CHECK_ATTESTATION_FLAG \<mapsto> \<lparr>check_attestation = check_attestation inp\<rparr>)))) (\<lambda>_.
          ret (Success Out_true))))"

definition set_contract_enclave_expected_sgx_measurements :: "ContractEnclaveExpectedSGXMeasurements option \<Rightarrow> handler" where
  "set_contract_enclave_expected_sgx_measurements params =
     bindM (get (\<lambda>s. contract_enclave_check_attestation_flag (kv_global s) PDO_ENCLAVE_CHECK_ATTESTATION_FLAG)) (\<lambda>flag.
     case flag of
       None \<Rightarrow> ret (Failure ''Please set the check-attestation flag before providing expected measurements'')
     | Some f \<Rightarrow>
         if \<not> check_attestation f
         then ret (Failure ''Please enable attesation check before providing expected measurements'')
         else bindM (params_get params) (\<lambda>inp.
              bindM (put_kv (contract_enclave_expected_sgx_measurements_update
                (\<lambda>t. t(PDO_ENCLAVE_EXPECTED_SGX_MEASUREMENTS \<mapsto> inp)))) (\<lambda>_.
              ret (Success Out_true))))"

text \<open>The messages continue over a line break in the source, whose indentation is part of the string.\<close>

definition continuation :: string where
  "continuation = replicate 20 (CHR '' '')"

definition gen_signing_key :: "ccf \<Rightarrow> handler" where
  "gen_signing_key C =
     bindM (get (\<lambda>s. signer (kv_global s) ''signer'')) (\<lambda>signer_global.
     if signer_global \<noteq> None
     then ret (Success (Out_message (''Ledger signing keys exist and globally committed. Use get_ledger_verifying_key '' @ continuation
           @ ''to get the verifying keys'')))
     else bindM (get (\<lambda>s. signer (kv s) ''signer'')) (\<lambda>signer_local.
     if signer_local \<noteq> None
     then ret (Success (Out_message (''Ledger signing keys exist and scheduled for global commit. '' @ continuation
           @ ''Use get_ledger_verifying_key to check the status of global commit'')))
     else bindM (get keys_generated) (\<lambda>n.
          bindM (modify (keys_generated_update Suc)) (\<lambda>_.
          case key_pair_gen C n of
            None \<Rightarrow> ret (Failure ''Unable to create ledger Key'')
          | Some (privk, pubk) \<Rightarrow>
              bindM (put_kv (signer_update (\<lambda>t. t(''signer'' \<mapsto> \<lparr>kp_privk = privk, kp_pubk = pubk\<rparr>)))) (\<lambda>_.
              ret (Success (Out_message (''Ledger signing keys created locally and scheduled for global commit. '' @ continuation
                @ ''Use get_ledger_verifying_key to check the status of global commit''))))))))"

definition get_ledger_key :: "ccf \<Rightarrow> handler" where
  "get_ledger_key C =
     bindM (get (\<lambda>s. signer (kv_global s) ''signer'')) (\<lambda>signer_global.
     case signer_global of
       Some kp \<Rightarrow>
         bindM (get ledger_signer_local) (\<lambda>key.
         if key \<noteq> None then ret (Success (Out_ledger_key (kp_pubk kp)))
         else if \<not> privk_pem_valid C (kp_privk kp)
         then ret (Failure ''Unable to locate ledger Key despite global commit'')
         else bindM (modify (ledger_signer_local_update (\<lambda>_. Some (kp_privk kp)))) (\<lambda>_.
              ret (Success (Out_ledger_key (kp_pubk kp)))))
     | None \<Rightarrow>
         bindM (get (\<lambda>s. signer (kv s) ''signer'')) (\<lambda>signer_local.
         if signer_local \<noteq> None
         then ret (Failure (''Ledger signing key exist locally, and scheduled for globally commit. '' @ continuation
                @ ''Verifying keys will be visible only after global commit. Try again in a short while''))
         else ret (Failure ''Ledger signing keys not created yet'')))"

section \<open>Registering enclaves\<close>

definition quote_status_ok :: "string \<Rightarrow> bool" where
  "quote_status_ok s \<longleftrightarrow> s = ''OK'' \<or> s = ''GROUP_OUT_OF_DATE'' \<or> s = ''SW_HARDENING_NEEDED''
     \<or> s = ''CONFIGURATION_AND_SW_HARDENING_NEEDED''"

definition expected_report_data :: "ccf \<Rightarrow> Register_enclave_In \<Rightarrow> bytes" where
  "expected_report_data C inp =
     (let key_hash = map tolower (resize 64 (CHR 0x00) (to_hex C (ccf_sha256 C (string_bytes (re_EHS_verifying_key inp)))))
      in resize 64 0 (ccf_sha256 C (string_bytes (re_verifying_key inp @ re_encryption_key inp @ key_hash))))"

definition bool_name :: "bool \<Rightarrow> string" where
  "bool_name b = (if b then ''True'' else ''False'')"

text \<open>
  The checks on the attestation report, once it is parsed and its signature verified: the first
  check that fails gives its message. Bit 2 of the attributes' flags is \<open>SGX_FLAGS_MODE64BIT\<close>, bit 1
  is \<open>SGX_FLAGS_DEBUG\<close>.
\<close>

definition check_quote ::
    "ccf \<Rightarrow> ContractEnclaveExpectedSGXMeasurements \<Rightarrow> Register_enclave_In \<Rightarrow> VerificationReport \<Rightarrow> sgx_quote \<Rightarrow> string option" where
  "check_quote C expected inp report quote =
     (if map toupper (to_hex C (quote_mr_enclave quote)) \<noteq> mrenclave expected
      then Some ''Enclave attestation report verification Failed. Invalid MREnclave''
      else if re_registration_block_context inp \<noteq> vr_nonce report
      then Some ''Enclave attestation report verification Failed. Invalid Nonce in the Verification Report''
      else if map toupper (to_hex C (quote_basename quote)) \<noteq> basename expected
      then Some ''Enclave attestation report verification Failed. Invalid enclave base name''
      else if expected_report_data C inp \<noteq> quote_report_data quote
      then Some ''Enclave attestation report verification Failed. Invalid user report data''
      else if \<not> bit (quote_flags quote) 2
      then Some ''Enclave attestation report verification Failed. Enclave is not 64-bit''
      else if bit (quote_flags quote) 1 \<noteq> sgx_debug_flag expected
      then Some (''Enclave attestation report verification Failed. Enclave debug flag '' @ bool_name (bit (quote_flags quote) 1)
             @ '' does not match policy flag '' @ bool_name (sgx_debug_flag expected))
      else None)"

text \<open>
  The decoded quote is cast to the SDK's struct without a check of its length. The fields that are
  read end at byte 432, the end of the report body; a shorter quote is read past its end.
\<close>

definition report_body_end :: nat where
  "report_body_end = 432"

definition check_verification_report ::
    "ccf \<Rightarrow> ContractEnclaveExpectedSGXMeasurements \<Rightarrow> Register_enclave_In \<Rightarrow> VerificationReport \<Rightarrow> bytes \<Rightarrow> error + string option" where
  "check_verification_report C expected inp report enclave_quote_body_raw =
     (if re_enclave_persistent_id inp \<noteq> vr_epidPseudonym report
      then Inr (Some ''Enclave attestation report verification Failed. Invalid epid pseudonym'')
      else if \<not> quote_status_ok (map toupper (vr_isvEnclaveQuoteStatus report))
      then Inr (Some ''Enclave attestation report verification Failed. Invalid quote status'')
      else if length enclave_quote_body_raw < report_body_end
      then Inl (Undefined ''quote read past its end'')
      else Inr (check_quote C expected inp report (quote_of C enclave_quote_body_raw)))"

definition check_attestation_evidence ::
    "ccf \<Rightarrow> ContractEnclaveExpectedSGXMeasurements \<Rightarrow> Register_enclave_In \<Rightarrow> error + string option" where
  "check_attestation_evidence C expected inp =
     (if re_proof_data inp = '''' then Inr (Some ''Proof data cannot be empty while attestation check is enabled'')
      else case parse_ProofData C (re_proof_data inp) of
        None \<Rightarrow> Inr (Some ''Unable to parse proof data JSON'')
      | Some proof \<Rightarrow>
          (case verify_ias_signature C (pd_signature proof) (ias_public_key expected) (pd_verification_report proof) of
             Inl e \<Rightarrow> Inl e
           | Inr False \<Rightarrow> Inr (Some ''unable to verify IAS report signature for registering enclave'')
           | Inr True \<Rightarrow>
               (case parse_VerificationReport C (pd_verification_report proof) of
                  None \<Rightarrow> Inr (Some ''Unable to parse IAS verification report'')
                | Some report \<Rightarrow>
                    (case raw_from_b64 C (vr_isvEnclaveQuoteBody report) of
                       Inl e \<Rightarrow> Inl e
                     | Inr raw \<Rightarrow> check_verification_report C expected inp report raw))))"

definition new_enclave :: "Register_enclave_In \<Rightarrow> EnclaveInfo" where
  "new_enclave inp =
     \<lparr>ei_verifying_key = re_verifying_key inp, ei_encryption_key = re_encryption_key inp,
      ei_proof_data = re_proof_data inp, ei_enclave_persistent_id = re_enclave_persistent_id inp,
      ei_registration_block_context = re_registration_block_context inp,
      ei_organizational_info = re_organizational_info inp, ei_EHS_verifying_key = re_EHS_verifying_key inp\<rparr>"

definition store_enclave :: "ccf \<Rightarrow> Register_enclave_In \<Rightarrow> handler" where
  "store_enclave C inp =
     bindM (liftE (verify_pdo_transaction_signature_register_enclave C (re_signature inp)
                    (re_EHS_verifying_key inp) (new_enclave inp))) (\<lambda>ok.
     if \<not> ok then ret (Failure ''Invalid PDO payload signature'')
     else bindM (put_kv (enclavetable_update (\<lambda>t. t(re_verifying_key inp \<mapsto> new_enclave inp)))) (\<lambda>_.
          bindM (throwIf (\<not> pem_valid C (re_verifying_key inp)) (RuntimeError ''invalid public key'')) (\<lambda>_.
          bindM (modify (enclave_pubk_verifier_update
                  (\<lambda>v. v(re_verifying_key inp := Some (re_verifying_key inp))))) (\<lambda>_.
          ret (Success Out_true)))))"

text \<open>
  The guard on the expected measurements tests the attestation flag a second time, so it never
  fails; the measurements are then read from an optional that may be empty, which throws.
\<close>

definition register_enclave :: "ccf \<Rightarrow> Register_enclave_In option \<Rightarrow> handler" where
  "register_enclave C params =
     bindM (params_get params) (\<lambda>inp.
     bindM (get (\<lambda>s. enclavetable (kv s) (re_verifying_key inp))) (\<lambda>enclave_r.
     if enclave_r \<noteq> None then ret (Failure ''Enclave already registered'')
     else bindM (get (\<lambda>s. contract_enclave_check_attestation_flag (kv_global s) PDO_ENCLAVE_CHECK_ATTESTATION_FLAG)) (\<lambda>flag_global.
     case flag_global of
       None \<Rightarrow> ret (Failure ''No value set for attestation-check flag. Enclave cannot be registered'')
     | Some flag \<Rightarrow>
         if \<not> check_attestation flag then store_enclave C inp
         else bindM (get (\<lambda>s. contract_enclave_expected_sgx_measurements (kv_global s) PDO_ENCLAVE_EXPECTED_SGX_MEASUREMENTS)) (\<lambda>expected_global.
           if flag_global = None then ret (Failure ''Expected sgx measurents have not been set. Enclave cannot be registered'')
           else case expected_global of
             None \<Rightarrow> throw (RuntimeError ''bad optional access'')
           | Some expected \<Rightarrow>
               bindM (liftE (check_attestation_evidence C expected inp)) (\<lambda>problem.
               case problem of
                 Some msg \<Rightarrow> ret (Failure msg)
               | None \<Rightarrow> store_enclave C inp)))))"

section \<open>Contracts\<close>

definition register_contract :: "ccf \<Rightarrow> Register_contract_In option \<Rightarrow> handler" where
  "register_contract C params =
     bindM (params_get params) (\<lambda>inp.
     bindM (get (\<lambda>s. contracttable (kv s) (rc_contract_id inp))) (\<lambda>contract_r.
     if contract_r \<noteq> None then ret (Failure ''Contract already registered'')
     else bindM (liftE (verify_pdo_transaction_signature_register_contract C (rc_signature inp)
                  (rc_contract_creator_verifying_key_PEM inp) (rc_contract_code_hash inp) (rc_nonce inp)
                  (rc_provisioning_service_ids inp))) (\<lambda>ok.
     if \<not> ok then ret (Failure ''Invalid PDO payload signature'')
     else bindM (put_kv (contracttable_update (\<lambda>t. t(rc_contract_id inp \<mapsto>
            \<lparr>ci_contract_id = rc_contract_id inp, ci_contract_code_hash = rc_contract_code_hash inp,
             ci_contract_metadata_hash = [],
             ci_contract_creator_verifying_key_PEM = rc_contract_creator_verifying_key_PEM inp,
             ci_provisioning_service_ids = rc_provisioning_service_ids inp, ci_enclave_info = [],
             ci_current_state_hash = [], ci_is_active = True\<rparr>)))) (\<lambda>_.
          ret (Success Out_true)))))"

text \<open>
  The loop over the enclaves to add, with the contract as it grows: the first problem ends the
  request with its message.
\<close>

fun add_enclaves ::
    "ccf \<Rightarrow> string \<Rightarrow> ContractEnclaveInfo list \<Rightarrow> ContractInfo \<Rightarrow> (tp_state, string + ContractInfo) m" where
  "add_enclaves C cid [] contract_info = ret (Inr contract_info)"
| "add_enclaves C cid (e # es) contract_info =
     (if cei_contract_id e \<noteq> ci_contract_id contract_info then ret (Inl ''Enclave info has invalid contract id'')
      else bindM (get (\<lambda>s. enclavetable (kv s) (cei_contract_enclave_id e))) (\<lambda>enclave_r.
        case enclave_r of
          None \<Rightarrow> ret (Inl ''Enclave not yet registered'')
        | Some enclave_info_ledger \<Rightarrow>
            if list_ex (\<lambda>x. cei_contract_enclave_id e = cei_contract_enclave_id x) (ci_enclave_info contract_info)
            then ret (Inl ''Enclave already part of contract'')
            else bindM (get (\<lambda>s. enclave_pubk_verifier s (ei_verifying_key enclave_info_ledger))) (\<lambda>verifier.
              bindM (liftE (verify_enclave_signature_add_enclave C (cei_signature e) verifier
                       (ci_contract_creator_verifying_key_PEM contract_info) cid
                       (cei_provisioning_key_state_secret_pairs e) (cei_encrypted_state_encryption_key e))) (\<lambda>ok.
              if \<not> ok then ret (Inl ''Invalid enclave signature'')
              else add_enclaves C cid es (contract_info\<lparr>ci_enclave_info := ci_enclave_info contract_info @ [e]\<rparr>)))))"

definition add_enclave :: "ccf \<Rightarrow> Add_enclave_In option \<Rightarrow> handler" where
  "add_enclave C params =
     bindM (params_get params) (\<lambda>inp.
     bindM (get (\<lambda>s. contracttable (kv s) (ae_contract_id inp))) (\<lambda>contract_r.
     case contract_r of
       None \<Rightarrow> ret (Failure ''Contract not yet registered'')
     | Some contract_info \<Rightarrow>
         bindM (liftE (verify_pdo_transaction_signature_add_enclave C (ae_signature inp)
                  (ci_contract_creator_verifying_key_PEM contract_info) (ae_contract_id inp) (ae_enclave_info inp))) (\<lambda>ok.
         if \<not> ok then ret (Failure ''Invalid PDO payload signature'')
         else case parse_ContractEnclaveInfo C (ae_enclave_info inp) of
           None \<Rightarrow> ret (Failure ''Unable to parse ContractEnclaveInfo Json'')
         | Some enclave_info_array \<Rightarrow>
             if enclave_info_array = [] then ret (Failure ''Provide at least one encalve to add to contract'')
             else bindM (add_enclaves C (ae_contract_id inp) enclave_info_array contract_info) (\<lambda>r.
               case r of
                 Inl msg \<Rightarrow> ret (Failure msg)
               | Inr contract_info' \<Rightarrow>
                   bindM (put_kv (contracttable_update (\<lambda>t. t(ae_contract_id inp \<mapsto> contract_info')))) (\<lambda>_.
                   ret (Success Out_true))))))"

section \<open>State updates\<close>

definition is_enclave_in_contract :: "string \<Rightarrow> ContractInfo \<Rightarrow> bool" where
  "is_enclave_in_contract eid contract_info \<longleftrightarrow>
     list_ex (\<lambda>x. eid = cei_contract_enclave_id x) (ci_enclave_info contract_info)"

text \<open>The key of a state in the CCL table.\<close>

definition ccl_key :: "string \<Rightarrow> bytes \<Rightarrow> string" where
  "ccl_key cid state_hash = cid @ vector_to_string state_hash"

text \<open>\<open>this->enclave_pubk_verifier[enclave_r.value().verifying_key]\<close>.\<close>

definition verifier_of :: "EnclaveInfo option \<Rightarrow> (tp_state, string option) m" where
  "verifier_of enclave_r =
     (case enclave_r of
        None \<Rightarrow> throw (RuntimeError ''bad optional access'')
      | Some info \<Rightarrow> get (\<lambda>s. enclave_pubk_verifier s (ei_verifying_key info)))"

definition initialize_contract_state :: "ccf \<Rightarrow> Initialize_contract_state_In option \<Rightarrow> handler" where
  "initialize_contract_state C params =
     bindM (params_get params) (\<lambda>inp.
     bindM (get (\<lambda>s. contracttable (kv s) (ic_contract_id inp))) (\<lambda>contract_r.
     bindM (get (\<lambda>s. enclavetable (kv s) (ic_contract_enclave_id inp))) (\<lambda>enclave_r.
     case contract_r of
       None \<Rightarrow> ret (Failure ''Contract not yet registered'')
     | Some contract_info \<Rightarrow>
         if \<not> ci_is_active contract_info
         then ret (Failure ''Contract has been turned inactive. No more upates permitted'')
         else if length (ci_current_state_hash contract_info) \<noteq> 0
         then ret (Failure ''Contract has already been initialized'')
         else if \<not> is_enclave_in_contract (ic_contract_enclave_id inp) contract_info
         then ret (Failure ''Enclave used for state update not part of contract'')
         else bindM (liftE (verify_creator_signature_initialize_contract_state C
                  (ic_contract_enclave_signature inp) (ic_creator_signature inp)
                  (ci_contract_creator_verifying_key_PEM contract_info))) (\<lambda>ok.
         if \<not> ok then ret (Failure ''Invalid PDO payload signature'')
         else bindM (verifier_of enclave_r) (\<lambda>verifier.
              bindM (liftE (verify_enclave_signature_initialize_contract_state C (ic_nonce inp) (ic_contract_id inp)
                  (ic_initial_state_hash inp) (ci_contract_code_hash contract_info) (ic_message_hash inp)
                  (ic_metadata_hash inp) (ci_contract_creator_verifying_key_PEM contract_info)
                  (ic_contract_enclave_signature inp) verifier)) (\<lambda>ok.
         if \<not> ok then ret (Failure ''Invalid enclave signature for contract state initialize operation'')
         else bindM (put_kv (ccltable_update (\<lambda>t. t(ccl_key (ic_contract_id inp) (ic_initial_state_hash inp) \<mapsto>
                  \<lparr>csi_transaction_id = ic_nonce inp, csi_previous_state_hash = [],
                   csi_message_hash = ic_message_hash inp, csi_dependency_list = []\<rparr>)))) (\<lambda>_.
              bindM (put_kv (contracttable_update (\<lambda>t. t(ic_contract_id inp \<mapsto>
                  contract_info\<lparr>ci_current_state_hash := ic_initial_state_hash inp,
                                ci_contract_metadata_hash := ic_metadata_hash inp\<rparr>)))) (\<lambda>_.
              ret (Success Out_true)))))))))"

definition update_contract_state :: "ccf \<Rightarrow> Update_contract_state_In option \<Rightarrow> handler" where
  "update_contract_state C params =
     bindM (params_get params) (\<lambda>inp.
     (case parse_StateUpdateInfo C (uc_state_update_info inp) of
        None \<Rightarrow> ret (Failure ''Unable to parse StateUpdateInfo json string'')
      | Some u \<Rightarrow>
     bindM (get (\<lambda>s. contracttable (kv s) (sui_contract_id u))) (\<lambda>contract_r.
     bindM (get (\<lambda>s. enclavetable (kv s) (uc_contract_enclave_id inp))) (\<lambda>enclave_r.
     case contract_r of
       None \<Rightarrow> ret (Failure ''Contract not yet registered'')
     | Some contract_info \<Rightarrow>
         if \<not> ci_is_active contract_info
         then ret (Failure ''Contract has been turned inactive. No more upates permitted'')
         else if \<not> is_enclave_in_contract (uc_contract_enclave_id inp) contract_info
         then ret (Failure ''Enclave used for state update not part of contract'')
         else if sui_previous_state_hash u \<noteq> ci_current_state_hash contract_info
         then ret (Failure ''Update can be performed only on the latest state registered with the ledger'')
         else bindM (get (\<lambda>s. ccltable (kv s))) (\<lambda>ccl.
         if list_ex (\<lambda>d. ccl (ccl_key (dep_contract_id d) (dep_state_hash d)) = None) (sui_dependency_list u)
         then ret (Failure ''Unknown CCL dependencies. Cannot commit state'')
         else if sui_current_state_hash u = ci_current_state_hash contract_info
         then ret (Failure ''Update can be commited only if there is a change in state'')
         else bindM (verifier_of enclave_r) (\<lambda>verifier.
              bindM (liftE (verify_enclave_signature_update_contract_state C (uc_nonce inp)
                  (ci_contract_code_hash contract_info) u (uc_contract_enclave_signature inp) verifier)) (\<lambda>ok.
         if \<not> ok then ret (Failure ''Invalid enclave signature for contract update operation'')
         else bindM (put_kv (ccltable_update (\<lambda>t. t(ccl_key (sui_contract_id u) (sui_current_state_hash u) \<mapsto>
                  \<lparr>csi_transaction_id = uc_nonce inp, csi_previous_state_hash = sui_previous_state_hash u,
                   csi_message_hash = sui_message_hash u, csi_dependency_list = sui_dependency_list u\<rparr>)))) (\<lambda>_.
              bindM (put_kv (contracttable_update (\<lambda>t. t(sui_contract_id u \<mapsto>
                  contract_info\<lparr>ci_current_state_hash := sui_current_state_hash u\<rparr>)))) (\<lambda>_.
              ret (Success Out_true))))))))))"

section \<open>Reading\<close>

definition no_signer :: response where
  "no_signer = Failure ''Unable to locate ledger authority for signing read rpcs''"

definition verify_enclave :: "ccf \<Rightarrow> string option \<Rightarrow> handler" where
  "verify_enclave C params =
     bindM (params_get params) (\<lambda>enclave_id.
     bindM (get (\<lambda>s. enclavetable (kv_global s) enclave_id)) (\<lambda>enclave_r.
     case enclave_r of
       None \<Rightarrow> ret (Failure ''Enclave not found'')
     | Some e \<Rightarrow>
         bindM (locate_ledger_signer C) (\<lambda>found.
         if \<not> found then ret no_signer
         else bindM (sign_document C (enclave_id @ ei_encryption_key e @ ei_proof_data e
                  @ ei_registration_block_context e @ ei_EHS_verifying_key e)) (\<lambda>signature.
              ret (Success (Out_verify_enclave enclave_id (ei_encryption_key e) (ei_proof_data e)
                  (ei_registration_block_context e) (ei_EHS_verifying_key e) signature))))))"

definition get_contract_provisioning_info :: "ccf \<Rightarrow> string option \<Rightarrow> handler" where
  "get_contract_provisioning_info C params =
     bindM (params_get params) (\<lambda>cid.
     bindM (get (\<lambda>s. contracttable (kv_global s) cid)) (\<lambda>contract_r.
     case contract_r of
       None \<Rightarrow> ret (Failure ''Contract not found'')
     | Some c \<Rightarrow>
         bindM (locate_ledger_signer C) (\<lambda>found.
         if \<not> found then ret no_signer
         else bindM (liftE (b64_from_raw C (ci_contract_code_hash c))) (\<lambda>encoded_code_hash.
              bindM (sign_document C (dump_provisioning C cid (ci_contract_creator_verifying_key_PEM c)
                  (ci_enclave_info c) (ci_provisioning_service_ids c))) (\<lambda>signature.
              ret (Success (Out_provisioning_info (ci_contract_creator_verifying_key_PEM c)
                  (ci_provisioning_service_ids c) (ci_enclave_info c) signature)))))))"

definition get_contract_info :: "ccf \<Rightarrow> string option \<Rightarrow> handler" where
  "get_contract_info C params =
     bindM (params_get params) (\<lambda>cid.
     bindM (get (\<lambda>s. contracttable (kv_global s) cid)) (\<lambda>contract_r.
     case contract_r of
       None \<Rightarrow> ret (Failure ''Contract not found'')
     | Some c \<Rightarrow>
         bindM (locate_ledger_signer C) (\<lambda>found.
         if \<not> found then ret no_signer
         else bindM (liftE (b64_from_raw C (ci_contract_code_hash c))) (\<lambda>encoded_code_hash.
              bindM (liftE (b64_from_raw C (ci_contract_metadata_hash c))) (\<lambda>encoded_metadata_hash.
              bindM (sign_document C (cid @ ci_contract_creator_verifying_key_PEM c
                  @ encoded_code_hash @ encoded_metadata_hash)) (\<lambda>signature.
              ret (Success (Out_contract_info (ci_contract_creator_verifying_key_PEM c)
                  encoded_code_hash encoded_metadata_hash signature))))))))"

definition get_current_state_info_for_contract :: "ccf \<Rightarrow> string option \<Rightarrow> handler" where
  "get_current_state_info_for_contract C params =
     bindM (params_get params) (\<lambda>cid.
     bindM (get (\<lambda>s. contracttable (kv_global s) cid)) (\<lambda>contract_r.
     case contract_r of
       None \<Rightarrow> ret (Failure ''Contract not found'')
     | Some c \<Rightarrow>
         if ci_is_active c \<and> length (ci_current_state_hash c) = 0
         then ret (Failure ''Contract not yet initialized'')
         else bindM (locate_ledger_signer C) (\<lambda>found.
         if \<not> found then ret no_signer
         else bindM (liftE (b64_from_raw C (ci_current_state_hash c))) (\<lambda>encoded_state_hash.
              bindM (sign_document C (cid @ encoded_state_hash)) (\<lambda>signature.
              ret (Success (Out_current_state encoded_state_hash (ci_is_active c) signature)))))))"

definition get_details_about_state :: "ccf \<Rightarrow> (string \<times> bytes) option \<Rightarrow> handler" where
  "get_details_about_state C params =
     bindM (params_get params) (\<lambda>(cid, state_hash).
     bindM (get (\<lambda>s. ccltable (kv_global s) (ccl_key cid state_hash))) (\<lambda>ccl_r.
     case ccl_r of
       None \<Rightarrow> ret (Failure ''Unknown (contract_id, state_hash) pair'')
     | Some v \<Rightarrow>
         bindM (locate_ledger_signer C) (\<lambda>found.
         if \<not> found then ret no_signer
         else bindM (if length (csi_previous_state_hash v) = 0 then ret ''''
                     else liftE (b64_from_raw C (csi_previous_state_hash v))) (\<lambda>encoded_psh.
              bindM (liftE (b64_from_raw C (csi_message_hash v))) (\<lambda>encoded_mh.
              bindM (liftE (b64_from_raw C (csi_transaction_id v))) (\<lambda>encoded_txnid.
              bindM (sign_document C (encoded_psh @ encoded_mh @ encoded_txnid
                  @ dump_dependencies C (csi_dependency_list v))) (\<lambda>signature.
              ret (Success (Out_state_details encoded_txnid encoded_psh encoded_mh
                  (dump_dependencies C (csi_dependency_list v)) signature)))))))))"

section \<open>Endpoints\<close>

datatype request =
    Ping
  | Gen_signing_key
  | Set_contract_enclave_check_attestation_flag "ContractEnclaveAttestionCheckFlag option"
  | Set_contract_enclave_expected_sgx_measurements "ContractEnclaveExpectedSGXMeasurements option"
  | Get_ledger_key
  | Register_enclave "Register_enclave_In option"
  | Register_contract "Register_contract_In option"
  | Add_enclave_to_contract "Add_enclave_In option"
  | Initialize_contract_state "Initialize_contract_state_In option"
  | Update_contract_state "Update_contract_state_In option"
  | Verify_enclave_registration "string option"
  | Get_contract_provisioning_info "string option"
  | Get_contract_info "string option"
  | Get_current_state_info_for_contract "string option"
  | Get_details_about_state "(string \<times> bytes) option"

text \<open>The endpoints of the governing members; all others need no authentication.\<close>

fun member_cert_sign_required :: "request \<Rightarrow> bool" where
  "member_cert_sign_required Gen_signing_key = True"
| "member_cert_sign_required (Set_contract_enclave_check_attestation_flag _) = True"
| "member_cert_sign_required (Set_contract_enclave_expected_sgx_measurements _) = True"
| "member_cert_sign_required _ = False"

fun handler_of :: "ccf \<Rightarrow> request \<Rightarrow> handler" where
  "handler_of C Ping = ping"
| "handler_of C Gen_signing_key = gen_signing_key C"
| "handler_of C (Set_contract_enclave_check_attestation_flag params) = set_contract_enclave_attestation_check_flag params"
| "handler_of C (Set_contract_enclave_expected_sgx_measurements params) = set_contract_enclave_expected_sgx_measurements params"
| "handler_of C Get_ledger_key = get_ledger_key C"
| "handler_of C (Register_enclave params) = register_enclave C params"
| "handler_of C (Register_contract params) = register_contract C params"
| "handler_of C (Add_enclave_to_contract params) = add_enclave C params"
| "handler_of C (Initialize_contract_state params) = initialize_contract_state C params"
| "handler_of C (Update_contract_state params) = update_contract_state C params"
| "handler_of C (Verify_enclave_registration params) = verify_enclave C params"
| "handler_of C (Get_contract_provisioning_info params) = get_contract_provisioning_info C params"
| "handler_of C (Get_contract_info params) = get_contract_info C params"
| "handler_of C (Get_current_state_info_for_contract params) = get_current_state_info_for_contract C params"
| "handler_of C (Get_details_about_state params) = get_details_about_state C params"

text \<open>
  A request at an endpoint: a caller without a member certificate is turned away where one is
  required; otherwise the handler runs, and its writes to the store are kept only if it succeeds.
  The outcome is the response, or the exception the handler ended with.
\<close>

definition endpoint :: "ccf \<Rightarrow> bool \<Rightarrow> request \<Rightarrow> tp_state \<Rightarrow> ((error + response) \<times> tp_state) option" where
  "endpoint C is_member rq s =
     (if member_cert_sign_required rq \<and> \<not> is_member then Some (Inr (Failure ''Unauthorized''), s)
      else case handler_of C rq s of
        None \<Rightarrow> None
      | Some (Inr (Success x), s') \<Rightarrow> Some (Inr (Success x), s')
      | Some (r, s') \<Rightarrow> Some (r, s'\<lparr>kv := kv s\<rparr>))"

end
