(* ===== verification/Ledger_Runs.thy ===== *)
theory Ledger_Runs
  imports Ledger "HOL-Library.Sublist"
begin

text \<open>
  Runs of the transaction processor: requests in any order from members and from anyone, global
  commits that lag behind, and nodes that come up with an empty cache. What each writing handler
  does when it succeeds is stated once, by a lemma per handler; the invariants of the tables, the
  single line of states of each contract and the permanence of registrations follow.
\<close>

lemmas handler_run = bindM_def get_def ret_def throw_def modify_def throwIf_def liftE_def put_kv_def
  params_get_def

section \<open>What a successful request did\<close>

definition same_node :: "tp_state \<Rightarrow> tp_state \<Rightarrow> bool" where
  "same_node s s' \<longleftrightarrow> kv_global s' = kv_global s \<and> enclave_pubk_verifier s' = enclave_pubk_verifier s"

lemma set_flag_success:
  assumes "set_contract_enclave_attestation_check_flag (Some inp) s = Some (Inr (Success x), s')"
  shows "contract_enclave_check_attestation_flag (kv s) PDO_ENCLAVE_CHECK_ATTESTATION_FLAG = None
    \<and> kv s' = contract_enclave_check_attestation_flag_update
         (\<lambda>t. t(PDO_ENCLAVE_CHECK_ATTESTATION_FLAG \<mapsto> \<lparr>check_attestation = check_attestation inp\<rparr>)) (kv s)
    \<and> same_node s s'"
  using assms
  by (auto simp: set_contract_enclave_attestation_check_flag_def handler_run same_node_def split: if_splits)

lemma set_measurements_success:
  assumes "set_contract_enclave_expected_sgx_measurements (Some inp) s = Some (Inr (Success x), s')"
  shows "(\<exists>f. contract_enclave_check_attestation_flag (kv_global s) PDO_ENCLAVE_CHECK_ATTESTATION_FLAG = Some f
           \<and> check_attestation f)
    \<and> kv s' = contract_enclave_expected_sgx_measurements_update
         (\<lambda>t. t(PDO_ENCLAVE_EXPECTED_SGX_MEASUREMENTS \<mapsto> inp)) (kv s)
    \<and> same_node s s'"
  using assms
  by (auto simp: set_contract_enclave_expected_sgx_measurements_def handler_run same_node_def
      split: if_splits option.splits)

lemma gen_signing_key_success:
  assumes "gen_signing_key C s = Some (Inr (Success x), s')"
  shows "(kv s' = kv s \<or> (\<exists>kp. signer (kv s) ''signer'' = None \<and> kv s' = signer_update (\<lambda>t. t(''signer'' \<mapsto> kp)) (kv s)))
    \<and> same_node s s'"
proof (cases "key_pair_gen C (keys_generated s)")
  case None
  then show ?thesis
    using assms by (auto simp: gen_signing_key_def handler_run same_node_def split: if_splits)
next
  case (Some p)
  obtain privk pubk where p: "p = (privk, pubk)" by (cases p)
  show ?thesis
  proof (cases "signer (kv_global s) ''signer'' = None \<and> signer (kv s) ''signer'' = None")
    case True
    then have "kv s' = signer_update (\<lambda>t. t(''signer'' \<mapsto> \<lparr>kp_privk = privk, kp_pubk = pubk\<rparr>)) (kv s) \<and> same_node s s'"
      using assms Some p by (auto simp: gen_signing_key_def handler_run same_node_def)
    then show ?thesis using True by blast
  next
    case False
    then show ?thesis
      using assms by (auto simp: gen_signing_key_def handler_run same_node_def split: if_splits)
  qed
qed

lemma store_enclave_success:
  assumes "store_enclave C inp s = Some (Inr (Success x), s')"
  shows "verify_pdo_transaction_signature_register_enclave C (re_signature inp) (re_EHS_verifying_key inp) (new_enclave inp) = Inr True
    \<and> kv s' = enclavetable_update (\<lambda>t. t(re_verifying_key inp \<mapsto> new_enclave inp)) (kv s)
    \<and> kv_global s' = kv_global s
    \<and> enclave_pubk_verifier s' = (enclave_pubk_verifier s)(re_verifying_key inp := Some (re_verifying_key inp))"
  using assms by (auto simp: store_enclave_def handler_run split: if_splits sum.splits)

lemma register_enclave_success:
  assumes "register_enclave C (Some inp) s = Some (Inr (Success x), s')"
  shows "enclavetable (kv s) (re_verifying_key inp) = None
    \<and> store_enclave C inp s = Some (Inr (Success x), s')
    \<and> (\<exists>flag. contract_enclave_check_attestation_flag (kv_global s) PDO_ENCLAVE_CHECK_ATTESTATION_FLAG = Some flag
         \<and> (check_attestation flag \<longrightarrow> (\<exists>expected.
               contract_enclave_expected_sgx_measurements (kv_global s) PDO_ENCLAVE_EXPECTED_SGX_MEASUREMENTS = Some expected
               \<and> check_attestation_evidence C expected inp = Inr None)))"
  using assms
  by (auto simp: register_enclave_def handler_run split: if_splits option.splits sum.splits)

definition new_contract :: "Register_contract_In \<Rightarrow> ContractInfo" where
  "new_contract inp =
     \<lparr>ci_contract_id = rc_contract_id inp, ci_contract_code_hash = rc_contract_code_hash inp,
      ci_contract_metadata_hash = [],
      ci_contract_creator_verifying_key_PEM = rc_contract_creator_verifying_key_PEM inp,
      ci_provisioning_service_ids = rc_provisioning_service_ids inp, ci_enclave_info = [],
      ci_current_state_hash = [], ci_is_active = True\<rparr>"

lemma register_contract_success:
  assumes "register_contract C (Some inp) s = Some (Inr (Success x), s')"
  shows "contracttable (kv s) (rc_contract_id inp) = None
    \<and> verify_pdo_transaction_signature_register_contract C (rc_signature inp)
           (rc_contract_creator_verifying_key_PEM inp) (rc_contract_code_hash inp) (rc_nonce inp)
           (rc_provisioning_service_ids inp) = Inr True
    \<and> kv s' = contracttable_update (\<lambda>t. t(rc_contract_id inp \<mapsto> new_contract inp)) (kv s)
    \<and> same_node s s'"
  using assms
  by (auto simp: register_contract_def handler_run same_node_def new_contract_def split: if_splits sum.splits)

text \<open>The enclaves a request adds: each is registered, new to the contract, and has signed.\<close>

definition enclave_addable :: "ccf \<Rightarrow> tp_state \<Rightarrow> string \<Rightarrow> ContractInfo \<Rightarrow> ContractEnclaveInfo \<Rightarrow> bool" where
  "enclave_addable C s cid ci e \<longleftrightarrow> cei_contract_id e = ci_contract_id ci
     \<and> (\<exists>info. enclavetable (kv s) (cei_contract_enclave_id e) = Some info
         \<and> verify_enclave_signature_add_enclave C (cei_signature e) (enclave_pubk_verifier s (ei_verifying_key info))
             (ci_contract_creator_verifying_key_PEM ci) cid (cei_provisioning_key_state_secret_pairs e)
             (cei_encrypted_state_encryption_key e) = Inr True)"

lemma add_enclaves_success:
  assumes "add_enclaves C cid es ci s = Some (Inr (Inr ci'), s')"
  shows "s' = s \<and> ci' = ci\<lparr>ci_enclave_info := ci_enclave_info ci @ es\<rparr>
     \<and> (\<forall>e\<in>set es. enclave_addable C s cid ci e)
     \<and> (distinct (map cei_contract_enclave_id (ci_enclave_info ci)) \<longrightarrow>
        distinct (map cei_contract_enclave_id (ci_enclave_info ci @ es)))"
  using assms
proof (induction es arbitrary: ci)
  case Nil
  then show ?case by (simp add: ret_def)
next
  case (Cons e es)
  let ?ci = "ci\<lparr>ci_enclave_info := ci_enclave_info ci @ [e]\<rparr>"
  from Cons.prems have step: "add_enclaves C cid es ?ci s = Some (Inr (Inr ci'), s')"
      "enclave_addable C s cid ci e"
      "cei_contract_enclave_id e \<notin> cei_contract_enclave_id ` set (ci_enclave_info ci)"
    by (auto simp: handler_run enclave_addable_def list_ex_iff image_iff split: if_splits option.splits sum.splits)
  from Cons.IH [OF step(1)] step(2,3) show ?case
    by (auto simp: enclave_addable_def)
qed

lemma add_enclave_success:
  assumes "add_enclave C (Some inp) s = Some (Inr (Success x), s')"
  shows "\<exists>ci es. contracttable (kv s) (ae_contract_id inp) = Some ci
    \<and> verify_pdo_transaction_signature_add_enclave C (ae_signature inp)
       (ci_contract_creator_verifying_key_PEM ci) (ae_contract_id inp) (ae_enclave_info inp) = Inr True
    \<and> parse_ContractEnclaveInfo C (ae_enclave_info inp) = Some es \<and> es \<noteq> []
    \<and> (\<forall>e\<in>set es. enclave_addable C s (ae_contract_id inp) ci e)
    \<and> (distinct (map cei_contract_enclave_id (ci_enclave_info ci)) \<longrightarrow>
       distinct (map cei_contract_enclave_id (ci_enclave_info ci @ es)))
    \<and> kv s' = contracttable_update (\<lambda>t. t(ae_contract_id inp \<mapsto>
        ci\<lparr>ci_enclave_info := ci_enclave_info ci @ es\<rparr>)) (kv s)
    \<and> same_node s s'"
proof -
  have "\<exists>ci es ci' t. contracttable (kv s) (ae_contract_id inp) = Some ci
    \<and> verify_pdo_transaction_signature_add_enclave C (ae_signature inp)
       (ci_contract_creator_verifying_key_PEM ci) (ae_contract_id inp) (ae_enclave_info inp) = Inr True
    \<and> parse_ContractEnclaveInfo C (ae_enclave_info inp) = Some es \<and> es \<noteq> []
    \<and> add_enclaves C (ae_contract_id inp) es ci s = Some (Inr (Inr ci'), t)
    \<and> s' = kv_update (contracttable_update (\<lambda>tb. tb(ae_contract_id inp \<mapsto> ci'))) t"
    using assms
    by (auto simp: add_enclave_def handler_run split: if_splits option.splits sum.splits bind_splits)
  then show ?thesis by (auto simp: same_node_def dest!: add_enclaves_success)
qed

lemma initialize_success:
  assumes "initialize_contract_state C (Some inp) s = Some (Inr (Success x), s')"
  shows "\<exists>ci info. contracttable (kv s) (ic_contract_id inp) = Some ci
    \<and> enclavetable (kv s) (ic_contract_enclave_id inp) = Some info
    \<and> ci_is_active ci \<and> ci_current_state_hash ci = [] \<and> is_enclave_in_contract (ic_contract_enclave_id inp) ci
    \<and> verify_creator_signature_initialize_contract_state C (ic_contract_enclave_signature inp)
       (ic_creator_signature inp) (ci_contract_creator_verifying_key_PEM ci) = Inr True
    \<and> verify_enclave_signature_initialize_contract_state C (ic_nonce inp) (ic_contract_id inp)
       (ic_initial_state_hash inp) (ci_contract_code_hash ci) (ic_message_hash inp) (ic_metadata_hash inp)
       (ci_contract_creator_verifying_key_PEM ci) (ic_contract_enclave_signature inp)
       (enclave_pubk_verifier s (ei_verifying_key info)) = Inr True
    \<and> kv s' = contracttable_update (\<lambda>t. t(ic_contract_id inp \<mapsto>
            ci\<lparr>ci_current_state_hash := ic_initial_state_hash inp, ci_contract_metadata_hash := ic_metadata_hash inp\<rparr>))
        (ccltable_update (\<lambda>t. t(ccl_key (ic_contract_id inp) (ic_initial_state_hash inp) \<mapsto>
            \<lparr>csi_transaction_id = ic_nonce inp, csi_previous_state_hash = [],
             csi_message_hash = ic_message_hash inp, csi_dependency_list = []\<rparr>)) (kv s))
    \<and> same_node s s'"
  using assms
  by (auto simp: initialize_contract_state_def handler_run verifier_of_def same_node_def
      split: if_splits option.splits sum.splits)

lemma update_success:
  assumes "update_contract_state C (Some inp) s = Some (Inr (Success x), s')"
  shows "\<exists>u ci info. parse_StateUpdateInfo C (uc_state_update_info inp) = Some u
    \<and> contracttable (kv s) (sui_contract_id u) = Some ci
    \<and> enclavetable (kv s) (uc_contract_enclave_id inp) = Some info
    \<and> ci_is_active ci \<and> is_enclave_in_contract (uc_contract_enclave_id inp) ci
    \<and> sui_previous_state_hash u = ci_current_state_hash ci \<and> sui_current_state_hash u \<noteq> ci_current_state_hash ci
    \<and> (\<forall>d\<in>set (sui_dependency_list u). ccltable (kv s) (ccl_key (dep_contract_id d) (dep_state_hash d)) \<noteq> None)
    \<and> verify_enclave_signature_update_contract_state C (uc_nonce inp) (ci_contract_code_hash ci) u
       (uc_contract_enclave_signature inp) (enclave_pubk_verifier s (ei_verifying_key info)) = Inr True
    \<and> kv s' = contracttable_update (\<lambda>t. t(sui_contract_id u \<mapsto>
            ci\<lparr>ci_current_state_hash := sui_current_state_hash u\<rparr>))
        (ccltable_update (\<lambda>t. t(ccl_key (sui_contract_id u) (sui_current_state_hash u) \<mapsto>
            \<lparr>csi_transaction_id = uc_nonce inp, csi_previous_state_hash = sui_previous_state_hash u,
             csi_message_hash = sui_message_hash u, csi_dependency_list = sui_dependency_list u\<rparr>)) (kv s))
    \<and> s' = s\<lparr>kv := kv s'\<rparr> \<and> same_node s s'"
  using assms
  by (auto simp: update_contract_state_def handler_run verifier_of_def list_ex_iff same_node_def
      split: if_splits option.splits sum.splits)

text \<open>The reading handlers leave the store alone; no handler touches the committed view.\<close>

lemma reading_handlers:
  "preserves (\<lambda>s. kv s = t \<and> same_node s0 s) ping"
  "preserves (\<lambda>s. kv s = t \<and> same_node s0 s) (get_ledger_key C)"
  "preserves (\<lambda>s. kv s = t \<and> same_node s0 s) (locate_ledger_signer C)"
  "preserves (\<lambda>s. kv s = t \<and> same_node s0 s) (sign_document C doc)"
  unfolding ping_def get_ledger_key_def locate_ledger_signer_def sign_document_def
  by (rule preserve_intros | simp add: same_node_def)+

lemma reading_requests:
  "preserves (\<lambda>s. kv s = t \<and> same_node s0 s) (verify_enclave C eid)"
  "preserves (\<lambda>s. kv s = t \<and> same_node s0 s) (get_contract_provisioning_info C cid)"
  "preserves (\<lambda>s. kv s = t \<and> same_node s0 s) (get_contract_info C cid)"
  "preserves (\<lambda>s. kv s = t \<and> same_node s0 s) (get_current_state_info_for_contract C cid)"
  "preserves (\<lambda>s. kv s = t \<and> same_node s0 s) (get_details_about_state C ps)"
  unfolding verify_enclave_def get_contract_provisioning_info_def get_contract_info_def
    get_current_state_info_for_contract_def get_details_about_state_def no_signer_def params_get_def
  by (rule preserve_intros reading_handlers | simp)+

fun reading :: "request \<Rightarrow> bool" where
  "reading Ping = True"
| "reading Get_ledger_key = True"
| "reading (Verify_enclave_registration _) = True"
| "reading (Get_contract_provisioning_info _) = True"
| "reading (Get_contract_info _) = True"
| "reading (Get_current_state_info_for_contract _) = True"
| "reading (Get_details_about_state _) = True"
| "reading _ = False"

lemma reading_run:
  assumes "reading rq" and "handler_of C rq s = Some (r, s')"
  shows "kv s' = kv s \<and> same_node s s'"
proof -
  have "preserves (\<lambda>u. kv u = kv s \<and> same_node s u) (handler_of C rq)"
    using assms(1) by (cases rq) (simp_all add: reading_handlers reading_requests)
  from preservesD [OF this _ assms(2)] show ?thesis by (simp add: same_node_def)
qed

section \<open>Invariant of the tables\<close>

definition contract_ok :: "tables \<Rightarrow> string \<Rightarrow> ContractInfo \<Rightarrow> bool" where
  "contract_ok t cid ci \<longleftrightarrow> ci_contract_id ci = cid \<and> ci_is_active ci
     \<and> distinct (map cei_contract_enclave_id (ci_enclave_info ci))
     \<and> (\<forall>x\<in>set (ci_enclave_info ci). cei_contract_id x = cid \<and> enclavetable t (cei_contract_enclave_id x) \<noteq> None)
     \<and> (ci_current_state_hash ci \<noteq> [] \<longrightarrow> ccltable t (ccl_key cid (ci_current_state_hash ci)) \<noteq> None)"

definition tables_ok :: "tables \<Rightarrow> bool" where
  "tables_ok t \<longleftrightarrow> (\<forall>k e. enclavetable t k = Some e \<longrightarrow> ei_verifying_key e = k)
     \<and> (\<forall>cid ci. contracttable t cid = Some ci \<longrightarrow> contract_ok t cid ci)"

text \<open>
  What later versions of the tables keep of earlier ones: records of enclaves, the attestation flag
  and the ledger's key unchanged; of a contract everything but its current state, its metadata hash
  and the enclaves that are added; of the recorded states and of the expected measurements only that
  there is an entry, because the one may be overwritten when a contract comes back to a state hash or
  two hashes share a key, and the other when a member sets new measurements.
\<close>

definition contract_extends :: "ContractInfo \<Rightarrow> ContractInfo \<Rightarrow> bool" where
  "contract_extends ci ci' \<longleftrightarrow> ci_contract_id ci' = ci_contract_id ci \<and> ci_is_active ci' = ci_is_active ci
     \<and> ci_contract_code_hash ci' = ci_contract_code_hash ci
     \<and> ci_contract_creator_verifying_key_PEM ci' = ci_contract_creator_verifying_key_PEM ci
     \<and> ci_provisioning_service_ids ci' = ci_provisioning_service_ids ci
     \<and> prefix (ci_enclave_info ci) (ci_enclave_info ci')"

definition extends :: "tables \<Rightarrow> tables \<Rightarrow> bool" where
  "extends t t' \<longleftrightarrow>
     (\<forall>k e. enclavetable t k = Some e \<longrightarrow> enclavetable t' k = Some e)
     \<and> (\<forall>c ci. contracttable t c = Some ci \<longrightarrow> (\<exists>ci'. contracttable t' c = Some ci' \<and> contract_extends ci ci'))
     \<and> dom (ccltable t) \<subseteq> dom (ccltable t')
     \<and> dom (contract_enclave_expected_sgx_measurements t) \<subseteq> dom (contract_enclave_expected_sgx_measurements t')
     \<and> (\<forall>k f. contract_enclave_check_attestation_flag t k = Some f \<longrightarrow> contract_enclave_check_attestation_flag t' k = Some f)
     \<and> (\<forall>k p. signer t k = Some p \<longrightarrow> signer t' k = Some p)"

lemma contract_extends_refl [simp]: "contract_extends ci ci"
  by (simp add: contract_extends_def)

lemma contract_extends_trans: "contract_extends a b \<Longrightarrow> contract_extends b c \<Longrightarrow> contract_extends a c"
  by (auto simp: contract_extends_def prefix_def)

lemma extends_refl [simp]: "extends t t"
  by (simp add: extends_def)

lemma extends_trans: "extends a b \<Longrightarrow> extends b c \<Longrightarrow> extends a c"
  unfolding extends_def by (meson contract_extends_trans subset_trans)

definition verifiers_ok :: "tp_state \<Rightarrow> bool" where
  "verifiers_ok s \<longleftrightarrow> (\<forall>k v. enclave_pubk_verifier s k = Some v \<longrightarrow> v = k)"

definition current_state :: "tables \<Rightarrow> string \<Rightarrow> bytes" where
  "current_state t cid = (case contracttable t cid of None \<Rightarrow> [] | Some ci \<Rightarrow> ci_current_state_hash ci)"

text \<open>The change of state a request asks for, for a given contract.\<close>

fun transition_of :: "ccf \<Rightarrow> string \<Rightarrow> request \<Rightarrow> (bytes \<times> bytes) option" where
  "transition_of C cid (Initialize_contract_state (Some inp)) =
     (if ic_contract_id inp = cid then Some ([], ic_initial_state_hash inp) else None)"
| "transition_of C cid (Update_contract_state (Some inp)) =
     (case parse_StateUpdateInfo C (uc_state_update_info inp) of
        None \<Rightarrow> None
      | Some u \<Rightarrow> if sui_contract_id u = cid then Some (sui_previous_state_hash u, sui_current_state_hash u) else None)"
| "transition_of C cid _ = None"

definition transition_ok :: "ccf \<Rightarrow> request \<Rightarrow> tables \<Rightarrow> tables \<Rightarrow> bool" where
  "transition_ok C rq t t' \<longleftrightarrow> (\<forall>cid. case transition_of C cid rq of
        None \<Rightarrow> current_state t' cid = current_state t cid
      | Some (a, b) \<Rightarrow> current_state t cid = a \<and> current_state t' cid = b)"

text \<open>One accepted request: what it establishes for the tables.\<close>

definition accepted_ok :: "ccf \<Rightarrow> request \<Rightarrow> tp_state \<Rightarrow> tp_state \<Rightarrow> bool" where
  "accepted_ok C rq s s' \<longleftrightarrow> tables_ok (kv s') \<and> extends (kv s) (kv s') \<and> transition_ok C rq (kv s) (kv s')
     \<and> kv_global s' = kv_global s \<and> verifiers_ok s'"

lemma accepted_unchanged:
  assumes "tables_ok (kv s)" and "verifiers_ok s" and "kv s' = kv s" and "same_node s s'"
    and "\<And>cid. transition_of C cid rq = None"
  shows "accepted_ok C rq s s'"
  using assms by (simp add: accepted_ok_def same_node_def verifiers_ok_def transition_ok_def)

lemma accepted_governance:
  assumes "tables_ok (kv s)" and "verifiers_ok s" and "same_node s s'"
    and "enclavetable (kv s') = enclavetable (kv s)" and "contracttable (kv s') = contracttable (kv s)"
    and "ccltable (kv s') = ccltable (kv s)"
    and "\<And>k f. contract_enclave_check_attestation_flag (kv s) k = Some f \<Longrightarrow>
          contract_enclave_check_attestation_flag (kv s') k = Some f"
    and "dom (contract_enclave_expected_sgx_measurements (kv s)) \<subseteq> dom (contract_enclave_expected_sgx_measurements (kv s'))"
    and "\<And>k p. signer (kv s) k = Some p \<Longrightarrow> signer (kv s') k = Some p"
    and "\<And>cid. transition_of C cid rq = None"
  shows "accepted_ok C rq s s'"
  using assms
  by (simp add: accepted_ok_def tables_ok_def contract_ok_def extends_def same_node_def verifiers_ok_def
      transition_ok_def current_state_def)

lemma accepted_register_enclave:
  assumes "tables_ok (kv s)" and "verifiers_ok s" and "register_enclave C (Some inp) s = Some (Inr (Success x), s')"
  shows "accepted_ok C (Register_enclave (Some inp)) s s'"
proof -
  from register_enclave_success [OF assms(3)]
  have new: "enclavetable (kv s) (re_verifying_key inp) = None"
    and st: "store_enclave C inp s = Some (Inr (Success x), s')" by auto
  from store_enclave_success [OF st]
  have eff: "kv s' = enclavetable_update (\<lambda>t. t(re_verifying_key inp \<mapsto> new_enclave inp)) (kv s)"
    "kv_global s' = kv_global s"
    "enclave_pubk_verifier s' = (enclave_pubk_verifier s)(re_verifying_key inp := Some (re_verifying_key inp))"
    by auto
  have "tables_ok (kv s')"
    using assms(1) unfolding tables_ok_def contract_ok_def by (auto simp: eff new_enclave_def)
  moreover have "extends (kv s) (kv s')" using new by (auto simp: extends_def eff)
  ultimately show ?thesis
    using eff assms(2) by (simp add: accepted_ok_def verifiers_ok_def transition_ok_def current_state_def)
qed

lemma accepted_register_contract:
  assumes "tables_ok (kv s)" and "verifiers_ok s" and "register_contract C (Some inp) s = Some (Inr (Success x), s')"
  shows "accepted_ok C (Register_contract (Some inp)) s s'"
proof -
  from register_contract_success [OF assms(3)]
  have new: "contracttable (kv s) (rc_contract_id inp) = None"
    and eff: "kv s' = contracttable_update (\<lambda>t. t(rc_contract_id inp \<mapsto> new_contract inp)) (kv s)" "same_node s s'"
    by auto
  have "tables_ok (kv s')"
    using assms(1) unfolding tables_ok_def contract_ok_def by (auto simp: eff new_contract_def)
  moreover have "extends (kv s) (kv s')" using new by (auto simp: extends_def eff)
  moreover have "current_state (kv s') cid = current_state (kv s) cid" for cid
    using new by (auto simp: current_state_def eff new_contract_def)
  ultimately show ?thesis
    using eff(2) assms(2) by (simp add: accepted_ok_def verifiers_ok_def transition_ok_def same_node_def)
qed

text \<open>Replacing the record of a registered contract.\<close>

lemma replace_contract:
  assumes "tables_ok t" and "contracttable t cid = Some ci" and "contract_extends ci ci'"
    and "enclavetable t' = enclavetable t" and "contracttable t' = (contracttable t)(cid \<mapsto> ci')"
    and "dom (ccltable t) \<subseteq> dom (ccltable t')" and "contract_ok t' cid ci'"
    and "contract_enclave_check_attestation_flag t' = contract_enclave_check_attestation_flag t"
    and "signer t' = signer t"
    and "contract_enclave_expected_sgx_measurements t' = contract_enclave_expected_sgx_measurements t"
  shows "tables_ok t' \<and> extends t t'"
proof -
  have "contract_ok t' c x" if "contracttable t' c = Some x" for c x
  proof (cases "c = cid")
    case True
    then show ?thesis using that assms(5,7) by simp
  next
    case False
    then have "contract_ok t c x" using that assms(1,5) by (auto simp: tables_ok_def)
    moreover have "ccltable t' k \<noteq> None" if "ccltable t k \<noteq> None" for k
      using assms(6) that by (auto simp: dom_def)
    ultimately show ?thesis using assms(4) by (auto simp: contract_ok_def)
  qed
  then have "tables_ok t'" using assms(1,4) by (simp add: tables_ok_def)
  moreover have "extends t t'"
    using assms(2,3,4,5,6,8,9,10) by (auto simp: extends_def)
  ultimately show ?thesis by blast
qed

lemma accepted_add_enclave:
  assumes "tables_ok (kv s)" and "verifiers_ok s" and "add_enclave C (Some inp) s = Some (Inr (Success x), s')"
  shows "accepted_ok C (Add_enclave_to_contract (Some inp)) s s'"
proof -
  from add_enclave_success [OF assms(3)] obtain ci es where
    ci: "contracttable (kv s) (ae_contract_id inp) = Some ci"
    and es: "\<forall>e\<in>set es. enclave_addable C s (ae_contract_id inp) ci e"
    and dist: "distinct (map cei_contract_enclave_id (ci_enclave_info ci)) \<longrightarrow>
       distinct (map cei_contract_enclave_id (ci_enclave_info ci @ es))"
    and eff: "kv s' = contracttable_update (\<lambda>t. t(ae_contract_id inp \<mapsto>
        ci\<lparr>ci_enclave_info := ci_enclave_info ci @ es\<rparr>)) (kv s)" "same_node s s'" by blast
  let ?ci = "ci\<lparr>ci_enclave_info := ci_enclave_info ci @ es\<rparr>"
  have ok: "contract_ok (kv s) (ae_contract_id inp) ci" using assms(1) ci by (simp add: tables_ok_def)
  then have "contract_ok (kv s') (ae_contract_id inp) ?ci"
    using es dist by (auto simp: contract_ok_def eff enclave_addable_def)
  then have "tables_ok (kv s') \<and> extends (kv s) (kv s')"
    by (intro replace_contract [OF assms(1) ci, of ?ci]) (simp_all add: eff contract_extends_def)
  moreover have "current_state (kv s') cid = current_state (kv s) cid" for cid
    using ci by (simp add: current_state_def eff)
  ultimately show ?thesis
    using eff(2) assms(2) by (simp add: accepted_ok_def verifiers_ok_def transition_ok_def same_node_def)
qed

lemma accepted_initialize:
  assumes "tables_ok (kv s)" and "verifiers_ok s" and "initialize_contract_state C (Some inp) s = Some (Inr (Success x), s')"
  shows "accepted_ok C (Initialize_contract_state (Some inp)) s s'"
proof -
  from initialize_success [OF assms(3)] obtain ci csi where
    ci: "contracttable (kv s) (ic_contract_id inp) = Some ci" "ci_current_state_hash ci = []"
    and eff: "kv s' = contracttable_update (\<lambda>t. t(ic_contract_id inp \<mapsto>
            ci\<lparr>ci_current_state_hash := ic_initial_state_hash inp, ci_contract_metadata_hash := ic_metadata_hash inp\<rparr>))
        (ccltable_update (\<lambda>t. t(ccl_key (ic_contract_id inp) (ic_initial_state_hash inp) \<mapsto> csi)) (kv s))"
      "same_node s s'" by blast
  let ?ci = "ci\<lparr>ci_current_state_hash := ic_initial_state_hash inp, ci_contract_metadata_hash := ic_metadata_hash inp\<rparr>"
  have "contract_ok (kv s) (ic_contract_id inp) ci" using assms(1) ci by (simp add: tables_ok_def)
  then have "contract_ok (kv s') (ic_contract_id inp) ?ci" by (auto simp: contract_ok_def eff)
  then have "tables_ok (kv s') \<and> extends (kv s) (kv s')"
    by (intro replace_contract [OF assms(1) ci(1), of ?ci]) (auto simp: eff contract_extends_def)
  moreover have "transition_ok C (Initialize_contract_state (Some inp)) (kv s) (kv s')"
    using ci by (simp add: transition_ok_def current_state_def eff)
  ultimately show ?thesis
    using eff(2) assms(2) by (simp add: accepted_ok_def verifiers_ok_def same_node_def)
qed

lemma accepted_update:
  assumes "tables_ok (kv s)" and "verifiers_ok s" and "update_contract_state C (Some inp) s = Some (Inr (Success x), s')"
  shows "accepted_ok C (Update_contract_state (Some inp)) s s'"
proof -
  from update_success [OF assms(3)] obtain u ci csi where
    u: "parse_StateUpdateInfo C (uc_state_update_info inp) = Some u"
    and ci: "contracttable (kv s) (sui_contract_id u) = Some ci" "sui_previous_state_hash u = ci_current_state_hash ci"
    and eff: "kv s' = contracttable_update (\<lambda>t. t(sui_contract_id u \<mapsto>
            ci\<lparr>ci_current_state_hash := sui_current_state_hash u\<rparr>))
        (ccltable_update (\<lambda>t. t(ccl_key (sui_contract_id u) (sui_current_state_hash u) \<mapsto> csi)) (kv s))"
      "same_node s s'" by blast
  let ?ci = "ci\<lparr>ci_current_state_hash := sui_current_state_hash u\<rparr>"
  have "contract_ok (kv s) (sui_contract_id u) ci" using assms(1) ci by (simp add: tables_ok_def)
  then have "contract_ok (kv s') (sui_contract_id u) ?ci" by (auto simp: contract_ok_def eff)
  then have "tables_ok (kv s') \<and> extends (kv s) (kv s')"
    by (intro replace_contract [OF assms(1) ci(1), of ?ci]) (auto simp: eff contract_extends_def)
  moreover have "transition_ok C (Update_contract_state (Some inp)) (kv s) (kv s')"
    using ci u by (simp add: transition_ok_def current_state_def eff)
  ultimately show ?thesis
    using eff(2) assms(2) by (simp add: accepted_ok_def verifiers_ok_def same_node_def)
qed

text \<open>A request whose parameters cannot be read is not accepted.\<close>

fun unreadable :: "request \<Rightarrow> bool" where
  "unreadable (Set_contract_enclave_check_attestation_flag None) = True"
| "unreadable (Set_contract_enclave_expected_sgx_measurements None) = True"
| "unreadable (Register_enclave None) = True"
| "unreadable (Register_contract None) = True"
| "unreadable (Add_enclave_to_contract None) = True"
| "unreadable (Initialize_contract_state None) = True"
| "unreadable (Update_contract_state None) = True"
| "unreadable _ = False"

lemma unreadable_not_accepted: "unreadable rq \<Longrightarrow> handler_of C rq s \<noteq> Some (Inr (Success x), s')"
  by (cases rq rule: unreadable.cases)
    (auto simp: set_contract_enclave_attestation_check_flag_def set_contract_enclave_expected_sgx_measurements_def
      register_enclave_def register_contract_def add_enclave_def initialize_contract_state_def
      update_contract_state_def handler_run split: option.splits)

lemma accepted_request:
  assumes "tables_ok (kv s)" and "verifiers_ok s" and run: "handler_of C rq s = Some (Inr (Success x), s')"
  shows "accepted_ok C rq s s'"
proof (cases "reading rq")
  case True
  then have "\<And>cid. transition_of C cid rq = None" by (cases rq) simp_all
  with reading_run [OF True run] assms show ?thesis by (auto intro: accepted_unchanged)
next
  case writing: False
  have "\<not> unreadable rq" using unreadable_not_accepted run by blast
  with writing consider "rq = Gen_signing_key" | inp where "rq = Set_contract_enclave_check_attestation_flag (Some inp)"
    | inp where "rq = Set_contract_enclave_expected_sgx_measurements (Some inp)"
    | inp where "rq = Register_enclave (Some inp)" | inp where "rq = Register_contract (Some inp)"
    | inp where "rq = Add_enclave_to_contract (Some inp)" | inp where "rq = Initialize_contract_state (Some inp)"
    | inp where "rq = Update_contract_state (Some inp)"
    by (cases rq rule: unreadable.cases) auto
  then show ?thesis
  proof cases
    case 1
    then show ?thesis
      using gen_signing_key_success [of C s x s'] run assms(1,2) by (intro accepted_governance) auto
  next
    case (2 inp)
    then show ?thesis
      using set_flag_success [of inp s x s'] run assms(1,2) by (intro accepted_governance) (auto split: if_splits)
  next
    case (3 inp)
    then show ?thesis
      using set_measurements_success [of inp s x s'] run assms(1,2) by (intro accepted_governance) auto
  next
    case (4 inp)
    then show ?thesis using accepted_register_enclave [OF assms(1,2)] run by simp
  next
    case (5 inp)
    then show ?thesis using accepted_register_contract [OF assms(1,2)] run by simp
  next
    case (6 inp)
    then show ?thesis using accepted_add_enclave [OF assms(1,2)] run by simp
  next
    case (7 inp)
    then show ?thesis using accepted_initialize [OF assms(1,2)] run by simp
  next
    case (8 inp)
    then show ?thesis using accepted_update [OF assms(1,2)] run by simp
  qed
qed

end
