(* ===== verification/Ledger_Props.thy ===== *)
theory Ledger_Props
  imports Ledger_Runs
begin

text \<open>
  The transaction processor as a transition system, and its properties: each contract has one line
  of states, committed registrations are permanent, the globally committed view is a past version of
  the store, state changes are authorised by an enclave of the contract. The last part states where
  the code falls short of what its comments say.
\<close>

section \<open>Transitions\<close>

text \<open>
  A configuration is the state of the node that serves the next request, the versions of the store
  that are not globally committed yet (oldest first), and the accepted requests so far. Every accepted
  request makes a version. A commit takes the global view to one of the versions. A node that comes
  up, or another node of the network, has the same store but its own cache of verifiers. When the
  primary node changes, versions that are not committed may be rolled back, and with them the
  requests that made them; the node that serves from then on is the same, with what it has cached, or
  another one.
\<close>

type_synonym config = "tp_state \<times> tables list \<times> request list"

inductive tp_step :: "ccf \<Rightarrow> config \<Rightarrow> config \<Rightarrow> bool" for C where
  accepted: "endpoint C is_member rq s = Some (Inr (Success x), s') \<Longrightarrow>
    tp_step C (s, vs, tr) (s', vs @ [kv s'], tr @ [rq])"
| refused: "endpoint C is_member rq s = Some (Inr (Failure msg), s') \<Longrightarrow> tp_step C (s, vs, tr) (s', vs, tr)"
| aborted: "endpoint C is_member rq s = Some (Inl e, s') \<Longrightarrow> tp_step C (s, vs, tr) (s', vs, tr)"
| commit: "tp_step C (s, vs @ t # ws, tr) (s\<lparr>kv_global := t\<rparr>, ws, tr)"
| other_node: "\<forall>k. v k = None \<or> v k = Some k \<Longrightarrow>
    tp_step C (s, vs, tr) (s\<lparr>enclave_pubk_verifier := v, ledger_signer_local := None\<rparr>, vs, tr)"
| rollback: "length rs = length ws \<Longrightarrow> \<forall>k. v k = None \<or> v k = Some k \<Longrightarrow> l = None \<or> l = ledger_signer_local s \<Longrightarrow>
    tp_step C (s, vs @ ws, tr @ rs)
      (s\<lparr>kv := last (kv_global s # vs), enclave_pubk_verifier := v, ledger_signer_local := l\<rparr>, vs, tr)"

inductive_cases tp_stepE: "tp_step C (s, vs, tr) cfg"

definition reachable :: "ccf \<Rightarrow> config \<Rightarrow> bool" where
  "reachable C = (tp_step C)\<^sup>*\<^sup>* (initial_tp_state, [], [])"

text \<open>The states of a contract follow one another without a gap or a fork.\<close>

fun chain :: "bytes \<Rightarrow> (bytes \<times> bytes) list \<Rightarrow> bytes \<Rightarrow> bool" where
  "chain h [] h' \<longleftrightarrow> h = h'"
| "chain h ((a, b) # ts) h' \<longleftrightarrow> a = h \<and> chain b ts h'"

definition transitions :: "ccf \<Rightarrow> string \<Rightarrow> request list \<Rightarrow> (bytes \<times> bytes) list" where
  "transitions C cid tr = List.map_filter (transition_of C cid) tr"

lemma chain_append: "chain h (ts @ us) h' \<longleftrightarrow> (\<exists>m. chain h ts m \<and> chain m us h')"
  by (induction h ts h' rule: chain.induct) auto

lemma transitions_append [simp]: "transitions C cid (tr @ tr') = transitions C cid tr @ transitions C cid tr'"
  by (simp add: transitions_def map_filter_def)

lemma transitions_single: "transitions C cid [rq] = (case transition_of C cid rq of None \<Rightarrow> [] | Some ab \<Rightarrow> [ab])"
  by (simp add: transitions_def map_filter_def split: option.splits)

lemma chain_step:
  assumes "chain [] (transitions C cid tr) (current_state t cid)" and "transition_ok C rq t t'"
  shows "chain [] (transitions C cid (tr @ [rq])) (current_state t' cid)"
proof (cases "transition_of C cid rq")
  case None
  then have "current_state t' cid = current_state t cid"
    using assms(2) [unfolded transition_ok_def, rule_format, of cid] by simp
  then show ?thesis using assms(1) None by (simp add: transitions_single)
next
  case (Some ab)
  obtain a b where ab: "ab = (a, b)" by (cases ab)
  have "current_state t cid = a \<and> current_state t' cid = b"
    using assms(2) [unfolded transition_ok_def, rule_format, of cid] Some ab by simp
  then show ?thesis using assms(1) Some ab by (auto simp: transitions_single chain_append)
qed

text \<open>
  The invariant: the tables and the versions of them are consistent, each version extends the ones
  before it, the last one is the store, and the requests up to a version lead each contract to the
  state it has in that version.
\<close>

definition cfg_inv :: "ccf \<Rightarrow> config \<Rightarrow> bool" where
  "cfg_inv C cfg \<longleftrightarrow> (case cfg of (s, vs, tr) \<Rightarrow>
     verifiers_ok s \<and> kv s = last (kv_global s # vs) \<and> length vs \<le> length tr
     \<and> (\<forall>t\<in>set (kv_global s # vs). tables_ok t)
     \<and> sorted_wrt extends (kv_global s # vs)
     \<and> (\<forall>i \<le> length vs. \<forall>cid. chain [] (transitions C cid (take (length tr - length vs + i) tr))
          (current_state ((kv_global s # vs) ! i) cid)))"

definition cfg_below :: "config \<Rightarrow> config \<Rightarrow> bool" where
  "cfg_below cfg cfg' \<longleftrightarrow> extends (kv_global (fst cfg)) (kv_global (fst cfg'))"

lemma cfg_inv_version:
  assumes "cfg_inv C (s, vs, tr)" and "i \<le> length vs"
  shows "chain [] (transitions C cid (take (length tr - length vs + i) tr)) (current_state ((kv_global s # vs) ! i) cid)"
  using assms unfolding cfg_inv_def prod.case by blast

lemma cfg_inv_store:
  assumes "cfg_inv C (s, vs, tr)"
  shows "tables_ok (kv s)" and "verifiers_ok s" and "tables_ok (kv_global s)" and "extends (kv_global s) (kv s)"
    and "chain [] (transitions C cid tr) (current_state (kv s) cid)"
proof -
  have l: "kv s = (kv_global s # vs) ! length vs" "kv s \<in> set (kv_global s # vs)" "length vs \<le> length tr"
    using assms last_conv_nth [of "kv_global s # vs"] last_in_set [of "kv_global s # vs"] by (simp_all add: cfg_inv_def del: last.simps)
  then show "tables_ok (kv s)" "verifiers_ok s" "tables_ok (kv_global s)"
    using assms by (auto simp: cfg_inv_def)
  show "extends (kv_global s) (kv s)" using assms l(2) by (auto simp: cfg_inv_def)
  show "chain [] (transitions C cid tr) (current_state (kv s) cid)"
    using cfg_inv_version [OF assms order_refl] l by simp
qed

lemma endpoint_success:
  "endpoint C is_member rq s = Some (Inr (Success x), s') \<Longrightarrow> handler_of C rq s = Some (Inr (Success x), s')"
  by (auto simp: endpoint_def split: if_splits option.splits prod.splits sum.splits response.splits)

definition node_ok :: "tables \<Rightarrow> tp_state \<Rightarrow> bool" where
  "node_ok g s \<longleftrightarrow> verifiers_ok s \<and> kv_global s = g"

lemma node_ok_updates [simp]:
  "node_ok g (kv_update f s) = node_ok g s"
  "node_ok g (ledger_signer_local_update h s) = node_ok g s"
  "node_ok g (keys_generated_update k s) = node_ok g s"
  by (simp_all add: node_ok_def verifiers_ok_def)

lemma node_ok_verifier: "node_ok g s \<Longrightarrow> node_ok g (enclave_pubk_verifier_update (\<lambda>v. v(k := Some k)) s)"
  by (simp add: node_ok_def verifiers_ok_def)

lemma put_kv_preserves: "preserves (node_ok g) (put_kv f)"
  by (simp add: put_kv_def preserves_modify)

lemmas node_intros = preserve_intros put_kv_preserves

lemma add_enclaves_preserves: "preserves (node_ok g) (add_enclaves C cid es ci)"
proof (induction es arbitrary: ci)
  case Nil
  show ?case by (simp add: preserves_ret)
next
  case (Cons e es)
  show ?case unfolding add_enclaves.simps by (rule node_intros Cons.IH)+
qed

lemma governance_preserves:
  "preserves (node_ok g) ping" "preserves (node_ok g) (gen_signing_key C)" "preserves (node_ok g) (get_ledger_key C)"
  "preserves (node_ok g) (set_contract_enclave_attestation_check_flag flag)"
  "preserves (node_ok g) (set_contract_enclave_expected_sgx_measurements ms)"
  unfolding ping_def gen_signing_key_def set_contract_enclave_attestation_check_flag_def
    set_contract_enclave_expected_sgx_measurements_def get_ledger_key_def params_get_def
  by (rule node_intros | simp)+

lemma writing_preserves:
  "preserves (node_ok g) (register_enclave C re)" "preserves (node_ok g) (register_contract C rc)"
  "preserves (node_ok g) (add_enclave C ae)" "preserves (node_ok g) (initialize_contract_state C ic)"
  "preserves (node_ok g) (update_contract_state C uc)"
  unfolding register_enclave_def store_enclave_def register_contract_def add_enclave_def
    initialize_contract_state_def update_contract_state_def verifier_of_def params_get_def
  by (rule node_intros add_enclaves_preserves | simp add: node_ok_verifier)+

lemma signing_preserves:
  "preserves (node_ok g) (locate_ledger_signer C)" "preserves (node_ok g) (sign_document C doc)"
  unfolding locate_ledger_signer_def sign_document_def by (rule node_intros | simp)+

lemma reading_preserves:
  "preserves (node_ok g) (verify_enclave C eid)" "preserves (node_ok g) (get_contract_provisioning_info C cid)"
  "preserves (node_ok g) (get_contract_info C cid)"
  "preserves (node_ok g) (get_current_state_info_for_contract C cid)"
  "preserves (node_ok g) (get_details_about_state C ps)"
  unfolding verify_enclave_def get_contract_provisioning_info_def get_contract_info_def
    get_current_state_info_for_contract_def get_details_about_state_def no_signer_def params_get_def
  by (rule node_intros signing_preserves)+

lemma locals_preserved: "preserves (node_ok g) (handler_of C rq)"
  by (cases rq) (simp_all add: governance_preserves writing_preserves reading_preserves)

lemma endpoint_refused:
  assumes "endpoint C is_member rq s = Some (r, s')" and "\<And>x. r \<noteq> Inr (Success x)" and "verifiers_ok s"
  shows "kv s' = kv s \<and> kv_global s' = kv_global s \<and> verifiers_ok s'"
proof (cases "member_cert_sign_required rq \<and> \<not> is_member")
  case True
  then show ?thesis using assms by (auto simp: endpoint_def)
next
  case False
  then obtain r0 s0 where h: "handler_of C rq s = Some (r0, s0)"
    using assms(1) by (auto simp: endpoint_def split: option.splits)
  have "verifiers_ok s0 \<and> kv_global s0 = kv_global s"
    using preservesD [OF locals_preserved [of "kv_global s" C rq] _ h] assms(3) by (simp add: node_ok_def)
  moreover have "s' = s0\<lparr>kv := kv s\<rparr>"
    using assms(1,2) False h by (cases r0) (auto simp: endpoint_def split: response.splits)
  ultimately show ?thesis by (simp add: verifiers_ok_def)
qed

section \<open>The invariant holds in every run\<close>

lemma sorted_snoc: "sorted_wrt R (xs @ [x]) \<longleftrightarrow> sorted_wrt R xs \<and> (\<forall>y\<in>set xs. R y x)"
  by (auto simp: sorted_wrt_append)

lemma accepted_extends:
  assumes "cfg_inv C (s, vs, tr)" and "handler_of C rq s = Some (Inr (Success x), s')"
  shows "accepted_ok C rq s s'" and "\<forall>t\<in>set (kv_global s # vs). extends t (kv s')"
proof -
  show acc: "accepted_ok C rq s s'"
    using accepted_request cfg_inv_store(1,2) [OF assms(1)] assms(2) by blast
  have "extends t (kv s)" if "t \<in> set (kv_global s # vs)" for t
  proof -
    have srt: "sorted_wrt extends (butlast (kv_global s # vs) @ [kv s])" and l: "kv s = last (kv_global s # vs)"
      using assms(1) append_butlast_last_id [of "kv_global s # vs"] by (auto simp: cfg_inv_def)
    have "t \<in> set (butlast (kv_global s # vs)) \<or> t = kv s"
      using that l append_butlast_last_id [of "kv_global s # vs"] by (metis Un_iff empty_iff insert_iff list.distinct(1) list.set set_append)
    then show ?thesis using srt by (auto simp: sorted_snoc)
  qed
  then show "\<forall>t\<in>set (kv_global s # vs). extends t (kv s')"
    using acc extends_trans unfolding accepted_ok_def by blast
qed

lemma cfg_inv_accepted:
  assumes "cfg_inv C (s, vs, tr)" and "handler_of C rq s = Some (Inr (Success x), s')"
  shows "cfg_inv C (s', vs @ [kv s'], tr @ [rq])"
proof -
  have acc: "tables_ok (kv s')" "transition_ok C rq (kv s) (kv s')" "kv_global s' = kv_global s" "verifiers_ok s'"
    using accepted_extends(1) [OF assms] by (auto simp: accepted_ok_def)
  have len: "length vs \<le> length tr" using assms(1) by (simp add: cfg_inv_def)
  have "sorted_wrt extends ((kv_global s # vs) @ [kv s'])"
    using assms(1) accepted_extends(2) [OF assms] by (simp only: sorted_snoc) (simp add: cfg_inv_def)
  moreover have "chain [] (transitions C cid (take (length (tr @ [rq]) - length (vs @ [kv s']) + i) (tr @ [rq])))
      (current_state ((kv_global s' # vs @ [kv s']) ! i) cid)" if "i \<le> length (vs @ [kv s'])" for i cid
  proof (cases "i = Suc (length vs)")
    case True
    have "chain [] (transitions C cid (tr @ [rq])) (current_state (kv s') cid)"
      using chain_step [OF cfg_inv_store(5) [OF assms(1)] acc(2)] .
    then show ?thesis using True len by (simp add: nth_append)
  next
    case False
    then have i: "i \<le> length vs" using that by simp
    then have "(kv_global s' # vs @ [kv s']) ! i = (kv_global s # vs) ! i"
      using acc(3) by (cases i) (simp_all add: nth_append)
    moreover have "take (length (tr @ [rq]) - length (vs @ [kv s']) + i) (tr @ [rq]) = take (length tr - length vs + i) tr"
      using i len by simp
    ultimately show ?thesis using cfg_inv_version [OF assms(1) i, of cid] by (simp only:)
  qed
  ultimately show ?thesis using acc assms(1) len by (auto simp: cfg_inv_def)
qed

lemma cfg_inv_commit:
  assumes "cfg_inv C (s, vs @ t # ws, tr)"
  shows "cfg_inv C (s\<lparr>kv_global := t\<rparr>, ws, tr) \<and> extends (kv_global s) t"
proof -
  have "chain [] (transitions C cid (take (length tr - length ws + i) tr)) (current_state ((t # ws) ! i) cid)"
    if "i \<le> length ws" for i cid
  proof -
    have "Suc (length vs) + i \<le> length (vs @ t # ws)" using that by simp
    note cfg_inv_version [OF assms this, of cid]
    moreover have "length tr - length (vs @ t # ws) + (Suc (length vs) + i) = length tr - length ws + i"
      using assms by (simp add: cfg_inv_def) linarith
    moreover have "(kv_global s # vs @ t # ws) ! (Suc (length vs) + i) = (t # ws) ! i"
      by (simp add: nth_append)
    ultimately show ?thesis by (simp only:)
  qed
  then show ?thesis using assms by (auto simp: cfg_inv_def sorted_wrt_append verifiers_ok_def)
qed

lemma cfg_inv_rollback:
  assumes "cfg_inv C (s, vs @ ws, tr @ rs)" and "length rs = length ws"
    and "verifiers_ok (s\<lparr>kv := last (kv_global s # vs), enclave_pubk_verifier := v, ledger_signer_local := l\<rparr>)"
  shows "cfg_inv C (s\<lparr>kv := last (kv_global s # vs), enclave_pubk_verifier := v, ledger_signer_local := l\<rparr>, vs, tr)"
proof -
  have len: "length vs \<le> length tr" using assms(1,2) by (simp add: cfg_inv_def)
  have "chain [] (transitions C cid (take (length tr - length vs + i) tr)) (current_state ((kv_global s # vs) ! i) cid)"
    if "i \<le> length vs" for i cid
  proof -
    have "i \<le> length (vs @ ws)" using that by simp
    note cfg_inv_version [OF assms(1) this, of cid]
    moreover have "take (length (tr @ rs) - length (vs @ ws) + i) (tr @ rs) = take (length tr - length vs + i) tr"
      using that len assms(2) by simp
    moreover have "(kv_global s # vs @ ws) ! i = (kv_global s # vs) ! i" using that by (cases i) (simp_all add: nth_append)
    ultimately show ?thesis by (simp only:)
  qed
  then show ?thesis using assms len by (auto simp: cfg_inv_def sorted_wrt_append)
qed

lemma sound_cache: "\<forall>k. v k = None \<or> v k = Some k \<Longrightarrow> verifiers_ok (s\<lparr>kv := t, enclave_pubk_verifier := v, ledger_signer_local := l\<rparr>)"
  unfolding verifiers_ok_def by (simp; metis option.distinct(1) option.inject)

lemma tp_step_inv:
  assumes "cfg_inv C cfg" and "tp_step C cfg cfg'"
  shows "cfg_inv C cfg' \<and> cfg_below cfg cfg'"
  using assms(2,1)
proof (cases rule: tp_step.cases)
  case (accepted is_member rq s x s' vs tr)
  note run = endpoint_success [OF accepted(3)]
  have "cfg_inv C (s, vs, tr)" using assms(1) accepted by simp
  from cfg_inv_accepted [OF this run] accepted_extends(1) [OF this run] show ?thesis
    using accepted by (simp add: cfg_below_def accepted_ok_def)
next
  case (refused is_member rq s msg s' vs tr)
  then show ?thesis
    using endpoint_refused [OF refused(3)] assms(1) by (auto simp: cfg_inv_def cfg_below_def)
next
  case (aborted is_member rq s e s' vs tr)
  then show ?thesis
    using endpoint_refused [OF aborted(3)] assms(1) by (auto simp: cfg_inv_def cfg_below_def)
next
  case (commit s vs t ws tr)
  then show ?thesis
    using cfg_inv_commit [of C s vs t ws tr] assms(1) by (simp add: cfg_below_def)
next
  case (other_node v s vs tr)
  have "verifiers_ok (s\<lparr>enclave_pubk_verifier := v, ledger_signer_local := None\<rparr>)"
    using sound_cache [OF other_node(3), where s = s and t = "kv s" and l = None] by simp
  then show ?thesis
    using other_node assms(1) by (auto simp: cfg_inv_def cfg_below_def)
next
  case (rollback rs ws v l s vs tr)
  then show ?thesis
    using cfg_inv_rollback [where C = C and s = s and vs = vs and ws = ws and tr = tr and rs = rs and v = v and l = l] sound_cache assms(1) by (simp add: cfg_below_def)
qed

lemma cfg_below_trans: "cfg_below a b \<Longrightarrow> cfg_below b c \<Longrightarrow> cfg_below a c"
  by (auto simp: cfg_below_def intro: extends_trans)

interpretation tp: growing_system "tp_step C" "cfg_inv C" cfg_below for C
proof
  show "cfg_below s s" for s by (simp add: cfg_below_def)
  show "cfg_below s u" if "cfg_below s t" "cfg_below t u" for s t u using cfg_below_trans that .
qed (use tp_step_inv in blast)+

lemma initial_inv: "cfg_inv C (initial_tp_state, [], [])"
  by (simp add: cfg_inv_def initial_tp_state_def empty_tables_def tables_ok_def verifiers_ok_def
      transitions_def map_filter_def current_state_def)

lemma reachable_inv: "reachable C cfg \<Longrightarrow> cfg_inv C cfg"
  unfolding reachable_def using tp.steps_inv initial_inv by blast

lemma reachable_step: "reachable C cfg \<Longrightarrow> tp_step C cfg cfg' \<Longrightarrow> reachable C cfg'"
  unfolding reachable_def by (rule rtranclp.rtrancl_into_rtrancl)

lemma reachable_initial: "reachable C (initial_tp_state, [], [])"
  by (simp add: reachable_def)

text \<open>Every version that is kept, the committed one too, was the store at some point of the run.\<close>

definition was_store :: "ccf \<Rightarrow> config \<Rightarrow> tables \<Rightarrow> bool" where
  "was_store C cfg t \<longleftrightarrow> (\<exists>cfg0. reachable C cfg0 \<and> kv (fst cfg0) = t \<and> (tp_step C)\<^sup>*\<^sup>* cfg0 cfg)"

lemma was_store_step: "was_store C cfg t \<Longrightarrow> tp_step C cfg cfg' \<Longrightarrow> was_store C cfg' t"
  unfolding was_store_def using rtranclp.rtrancl_into_rtrancl [of "tp_step C"] by blast

lemma versions_were_store:
  assumes "reachable C cfg"
  shows "\<forall>t\<in>set (kv_global (fst cfg) # fst (snd cfg)). was_store C cfg t"
  using assms unfolding reachable_def
proof (induction rule: rtranclp_induct)
  case base
  have "was_store C (initial_tp_state, [], []) empty_tables"
    unfolding was_store_def using reachable_initial [of C]
    by (intro exI [of _ "(initial_tp_state, [], [])"]) (simp add: initial_tp_state_def)
  then show ?case by (simp add: initial_tp_state_def)
next
  case (step cfg cfg')
  have r: "reachable C cfg'" using step(1,2) unfolding reachable_def by simp
  have old: "\<forall>t\<in>set (kv_global (fst cfg) # fst (snd cfg)). was_store C cfg' t"
    using step(3) was_store_step [OF _ step(2)] by blast
  have inv: "verifiers_ok (fst cfg)"
    using reachable_inv [unfolded reachable_def, OF step(1)] by (auto simp: cfg_inv_def split: prod.splits)
  show ?case
    using step(2)
  proof (cases rule: tp_step.cases)
    case (accepted is_member rq s x s' vs tr)
    have "kv_global s' = kv_global s"
      using accepted_extends(1) [OF _ endpoint_success [OF accepted(3)]] reachable_inv [unfolded reachable_def, OF step(1)]
        accepted(1) by (auto simp: accepted_ok_def)
    moreover have "was_store C cfg' (kv s')" using r accepted unfolding was_store_def by auto
    ultimately show ?thesis using old accepted by auto
  next
    case (refused is_member rq s msg s' vs tr)
    then show ?thesis using old endpoint_refused [OF refused(3)] inv by auto
  next
    case (aborted is_member rq s e s' vs tr)
    then show ?thesis using old endpoint_refused [OF aborted(3)] inv by auto
  qed (use old in auto)
qed

section \<open>A run\<close>

text \<open>
  An instance of the parameters for the witnesses: every signature verifies, and the JSON documents
  are given. The requests register one enclave and one contract, and add the enclave to the contract.
\<close>

definition demo_ccf :: "StateUpdateInfo \<Rightarrow> ccf" where
  "demo_ccf u =
     \<lparr>pem_valid = (\<lambda>_. True), ec_verify = (\<lambda>_ _ _. True), rsa_pem_valid = (\<lambda>_. True),
      rsa_verify = (\<lambda>_ _ _. True), key_pair_gen = (\<lambda>_. Some (''sk'', ''pk'')), privk_pem_valid = (\<lambda>_. True),
      ec_sign = (\<lambda>_ doc. doc), raw_from_b64 = (\<lambda>s. Inr (string_bytes s)), b64_from_raw = (\<lambda>b. Inr []),
      ccf_sha256 = (\<lambda>b. b), to_hex = BinaryToHexString,
      quote_of = (\<lambda>_. \<lparr>quote_basename = [], quote_mr_enclave = [], quote_report_data = [], quote_flags = 4\<rparr>),
      parse_ProofData = (\<lambda>_. None), parse_VerificationReport = (\<lambda>_. None),
      parse_ContractEnclaveInfo = (\<lambda>_. Some
        [\<lparr>cei_contract_enclave_id = ''E'', cei_contract_id = ''C'', cei_encrypted_state_encryption_key = [],
          cei_signature = [], cei_provisioning_key_state_secret_pairs = []\<rparr>]),
      parse_StateUpdateInfo = (\<lambda>_. Some u), dump_provisioning = (\<lambda>_ _ _ _. []), dump_dependencies = (\<lambda>_. [])\<rparr>"

definition demo_enclave :: Register_enclave_In where
  "demo_enclave =
     \<lparr>re_verifying_key = ''E'', re_encryption_key = [], re_proof_data = [], re_enclave_persistent_id = [],
      re_registration_block_context = [], re_organizational_info = [], re_EHS_verifying_key = [], re_signature = []\<rparr>"

definition demo_contract :: Register_contract_In where
  "demo_contract =
     \<lparr>rc_contract_code_hash = [7], rc_contract_creator_verifying_key_PEM = ''K'', rc_nonce = [],
      rc_signature = [], rc_contract_id = ''C'', rc_provisioning_service_ids = []\<rparr>"

definition demo_add :: Add_enclave_In where
  "demo_add = \<lparr>ae_contract_id = ''C'', ae_enclave_info = [], ae_signature = []\<rparr>"

definition demo_contract_info :: ContractInfo where
  "demo_contract_info = (new_contract demo_contract)\<lparr>ci_enclave_info :=
     [\<lparr>cei_contract_enclave_id = ''E'', cei_contract_id = ''C'', cei_encrypted_state_encryption_key = [],
       cei_signature = [], cei_provisioning_key_state_secret_pairs = []\<rparr>]\<rparr>"

definition demo_flag :: "string \<Rightarrow> ContractEnclaveAttestionCheckFlag option" where
  "demo_flag = [PDO_ENCLAVE_CHECK_ATTESTATION_FLAG \<mapsto> \<lparr>check_attestation = False\<rparr>]"

definition demo_tables :: tables where
  "demo_tables = empty_tables\<lparr>contract_enclave_check_attestation_flag := demo_flag,
     enclavetable := [''E'' \<mapsto> new_enclave demo_enclave], contracttable := [''C'' \<mapsto> demo_contract_info]\<rparr>"

definition demo_state :: tp_state where
  "demo_state = initial_tp_state\<lparr>kv := demo_tables,
     kv_global := empty_tables\<lparr>contract_enclave_check_attestation_flag := demo_flag\<rparr>,
     enclave_pubk_verifier := (\<lambda>_. None)(''E'' := Some ''E'')\<rparr>"

definition demo_requests :: "request list" where
  "demo_requests = [Set_contract_enclave_check_attestation_flag (Some \<lparr>check_attestation = False\<rparr>),
     Register_enclave (Some demo_enclave), Register_contract (Some demo_contract), Add_enclave_to_contract (Some demo_add)]"

lemmas demo_defs = demo_ccf_def demo_enclave_def demo_contract_def demo_add_def new_enclave_def
  demo_contract_info_def new_contract_def empty_tables_def initial_tp_state_def demo_flag_def demo_tables_def demo_state_def

lemma demo_reachable: "\<exists>vs. reachable (demo_ccf u) (demo_state, vs, demo_requests)"
proof -
  let ?C = "demo_ccf u"
  let ?t1 = "empty_tables\<lparr>contract_enclave_check_attestation_flag := demo_flag\<rparr>"
  let ?s1 = "initial_tp_state\<lparr>kv := ?t1\<rparr>"
  have "endpoint ?C True (Set_contract_enclave_check_attestation_flag (Some \<lparr>check_attestation = False\<rparr>)) initial_tp_state
      = Some (Inr (Success Out_true), ?s1)"
    by (simp add: endpoint_def set_contract_enclave_attestation_check_flag_def handler_run demo_defs)
  from reachable_step [OF reachable_initial accepted [OF this]]
  have r1: "reachable ?C (?s1, [] @ ?t1 # [], [Set_contract_enclave_check_attestation_flag (Some \<lparr>check_attestation = False\<rparr>)])"
    by simp
  let ?s2 = "?s1\<lparr>kv_global := ?t1\<rparr>"
  note r2 = reachable_step [OF r1 commit]
  let ?t3 = "?t1\<lparr>enclavetable := [''E'' \<mapsto> new_enclave demo_enclave]\<rparr>"
  let ?s3 = "?s2\<lparr>kv := ?t3, enclave_pubk_verifier := (\<lambda>_. None)(''E'' := Some ''E'')\<rparr>"
  have "endpoint ?C False (Register_enclave (Some demo_enclave)) ?s2 = Some (Inr (Success Out_true), ?s3)"
    by (simp add: endpoint_def register_enclave_def store_enclave_def handler_run demo_defs
        verify_pdo_transaction_signature_register_enclave_def verify_sig_def)
  note r3 = reachable_step [OF r2 accepted [OF this]]
  let ?t4 = "?t3\<lparr>contracttable := [''C'' \<mapsto> new_contract demo_contract]\<rparr>"
  let ?s4 = "?s3\<lparr>kv := ?t4\<rparr>"
  have "endpoint ?C False (Register_contract (Some demo_contract)) ?s3 = Some (Inr (Success Out_true), ?s4)"
    by (simp add: endpoint_def register_contract_def handler_run demo_defs
        verify_pdo_transaction_signature_register_contract_def verify_sig_def)
  note r4 = reachable_step [OF r3 accepted [OF this]]
  have "endpoint ?C False (Add_enclave_to_contract (Some demo_add)) ?s4 = Some (Inr (Success Out_true), demo_state)"
    by (simp add: endpoint_def add_enclave_def handler_run demo_defs verify_enclave_signature_add_enclave_def
        verify_pdo_transaction_signature_add_enclave_def verify_sig_def verify_sig_static_def)
  from reachable_step [OF r4 accepted [OF this]] show ?thesis
    by (auto simp: demo_requests_def)
qed

section \<open>Properties\<close>

text \<open>The update of the witnesses: from the first state to a second one.\<close>

definition demo_update :: "bytes \<Rightarrow> bytes \<Rightarrow> StateUpdateInfo" where
  "demo_update a b = \<lparr>sui_contract_id = ''C'', sui_current_state_hash = b, sui_previous_state_hash = a,
     sui_message_hash = [], sui_dependency_list = []\<rparr>"

definition demo_update_in :: Update_contract_state_In where
  "demo_update_in = \<lparr>uc_nonce = [], uc_state_update_info = [], uc_contract_enclave_id = ''E'', uc_contract_enclave_signature = []\<rparr>"

lemma demo_update_accepted:
  "\<exists>s'. endpoint (demo_ccf (demo_update [] [5])) False (Update_contract_state (Some demo_update_in)) demo_state
     = Some (Inr (Success Out_true), s')"
  by (simp add: endpoint_def update_contract_state_def handler_run demo_defs demo_update_def demo_update_in_def
      is_enclave_in_contract_def verifier_of_def verify_enclave_signature_update_contract_state_def verify_sig_static_def)

text \<open>C2: in every run of the transaction processor, with requests from anyone in any order, lagging
  commits, node changes and rollbacks of uncommitted versions, the state changes accepted for a
  contract and not rolled back form one line: the first starts from no state, each later one starts
  from the state the one before it ended in, and the ledger's current state is where the last one
  ended.\<close>

theorem contract_history_linear:
  assumes "reachable C (s, vs, tr)"
  shows "chain [] (transitions C cid tr) (current_state (kv s) cid)"
  using cfg_inv_store(5) reachable_inv [OF assms] by blast

theorem contract_history_linear_witness:
  "\<exists>s'. endpoint (demo_ccf (demo_update [] [5])) False (Update_contract_state (Some demo_update_in)) demo_state
        = Some (Inr (Success Out_true), s')
     \<and> chain [] (transitions (demo_ccf (demo_update [] [5])) ''C'' (demo_requests @ [Update_contract_state (Some demo_update_in)]))
         (current_state (kv s') ''C'')"
proof -
  let ?C = "demo_ccf (demo_update [] [5])"
  obtain vs where r: "reachable ?C (demo_state, vs, demo_requests)"
    using demo_reachable by blast
  obtain s' where e: "endpoint ?C False (Update_contract_state (Some demo_update_in)) demo_state
      = Some (Inr (Success Out_true), s')" using demo_update_accepted by blast
  have "reachable ?C (s', vs @ [kv s'], demo_requests @ [Update_contract_state (Some demo_update_in)])"
    using r accepted [OF e] unfolding reachable_def by (meson rtranclp.rtrancl_into_rtrancl)
  from contract_history_linear [OF this] e show ?thesis by blast
qed

text \<open>C4: an update is accepted only if its parameters can be read and it is signed, over the nonce, the
  contract, its code, the message, the two states and the dependencies' contracts and hashes for
  signing, by an enclave that was added to that contract and is registered; every dependency has an
  entry in the CCL table; it starts from the contract's current state and changes it. The accepted
  update changes the contract's current state and writes the entry of the new state; the rest of the
  store, the committed view and the node's own members stay as they are.\<close>

theorem update_authorised:
  assumes "reachable C (s, vs, tr)"
    and "endpoint C is_member (Update_contract_state params) s = Some (Inr (Success x), s')"
  shows "\<exists>inp u ci. params = Some inp \<and> parse_StateUpdateInfo C (uc_state_update_info inp) = Some u
    \<and> contracttable (kv s) (sui_contract_id u) = Some ci
    \<and> is_enclave_in_contract (uc_contract_enclave_id inp) ci
    \<and> enclavetable (kv s) (uc_contract_enclave_id inp) \<noteq> None
    \<and> ec_verify C (uc_contract_enclave_id inp) (update_contents (uc_nonce inp) (ci_contract_code_hash ci) u)
        (uc_contract_enclave_signature inp)
    \<and> (\<forall>d\<in>set (sui_dependency_list u). ccltable (kv s) (ccl_key (dep_contract_id d) (dep_state_hash d)) \<noteq> None)
    \<and> sui_previous_state_hash u = ci_current_state_hash ci \<and> sui_current_state_hash u \<noteq> ci_current_state_hash ci
    \<and> s' = s\<lparr>kv := (kv s)
        \<lparr>contracttable := (contracttable (kv s))(sui_contract_id u \<mapsto> ci\<lparr>ci_current_state_hash := sui_current_state_hash u\<rparr>),
         ccltable := (ccltable (kv s))(ccl_key (sui_contract_id u) (sui_current_state_hash u) \<mapsto>
           \<lparr>csi_transaction_id = uc_nonce inp, csi_previous_state_hash = sui_previous_state_hash u,
            csi_message_hash = sui_message_hash u, csi_dependency_list = sui_dependency_list u\<rparr>)\<rparr>\<rparr>"
proof -
  have inv: "tables_ok (kv s)" "verifiers_ok s" using cfg_inv_store(1,2) reachable_inv [OF assms(1)] by blast+
  have run: "update_contract_state C params s = Some (Inr (Success x), s')" using endpoint_success [OF assms(2)] by simp
  then obtain inp where p: "params = Some inp"
    by (cases params) (simp_all add: update_contract_state_def handler_run)
  obtain u ci info where upd: "parse_StateUpdateInfo C (uc_state_update_info inp) = Some u"
      "contracttable (kv s) (sui_contract_id u) = Some ci" "enclavetable (kv s) (uc_contract_enclave_id inp) = Some info"
      "is_enclave_in_contract (uc_contract_enclave_id inp) ci"
      "sui_previous_state_hash u = ci_current_state_hash ci" "sui_current_state_hash u \<noteq> ci_current_state_hash ci"
      "\<forall>d\<in>set (sui_dependency_list u). ccltable (kv s) (ccl_key (dep_contract_id d) (dep_state_hash d)) \<noteq> None"
      "verify_enclave_signature_update_contract_state C (uc_nonce inp) (ci_contract_code_hash ci) u
         (uc_contract_enclave_signature inp) (enclave_pubk_verifier s (ei_verifying_key info)) = Inr True"
      "kv s' = contracttable_update (\<lambda>t. t(sui_contract_id u \<mapsto> ci\<lparr>ci_current_state_hash := sui_current_state_hash u\<rparr>))
        (ccltable_update (\<lambda>t. t(ccl_key (sui_contract_id u) (sui_current_state_hash u) \<mapsto>
            \<lparr>csi_transaction_id = uc_nonce inp, csi_previous_state_hash = sui_previous_state_hash u,
             csi_message_hash = sui_message_hash u, csi_dependency_list = sui_dependency_list u\<rparr>)) (kv s))"
      "s' = s\<lparr>kv := kv s'\<rparr>"
    using update_success [OF run [unfolded p]] by blast
  have key: "ei_verifying_key info = uc_contract_enclave_id inp" using inv(1) upd(3) by (simp add: tables_ok_def)
  have "ec_verify C (uc_contract_enclave_id inp) (update_contents (uc_nonce inp) (ci_contract_code_hash ci) u)
      (uc_contract_enclave_signature inp)"
    using upd(8) inv(2)
    by (auto simp: verify_enclave_signature_update_contract_state_def verify_sig_static_def key verifiers_ok_def
        split: option.splits)
  moreover have "s' = s\<lparr>kv := (kv s)
        \<lparr>contracttable := (contracttable (kv s))(sui_contract_id u \<mapsto> ci\<lparr>ci_current_state_hash := sui_current_state_hash u\<rparr>),
         ccltable := (ccltable (kv s))(ccl_key (sui_contract_id u) (sui_current_state_hash u) \<mapsto>
           \<lparr>csi_transaction_id = uc_nonce inp, csi_previous_state_hash = sui_previous_state_hash u,
            csi_message_hash = sui_message_hash u, csi_dependency_list = sui_dependency_list u\<rparr>)\<rparr>\<rparr>"
    by (subst upd(10), subst upd(9)) simp
  ultimately show ?thesis using upd(1-7) p by (intro exI [of _ inp] exI [of _ u] exI [of _ ci]) simp
qed

theorem update_authorised_witness:
  "\<exists>s'. endpoint (demo_ccf (demo_update [] [5])) False (Update_contract_state (Some demo_update_in)) demo_state
        = Some (Inr (Success Out_true), s')
     \<and> contracttable (kv s') ''C'' = Some (demo_contract_info\<lparr>ci_current_state_hash := [5]\<rparr>)
     \<and> enclavetable (kv s') = enclavetable (kv demo_state)"
proof -
  obtain vs where r: "reachable (demo_ccf (demo_update [] [5])) (demo_state, vs, demo_requests)"
    using demo_reachable by blast
  obtain s' where e: "endpoint (demo_ccf (demo_update [] [5])) False (Update_contract_state (Some demo_update_in)) demo_state
      = Some (Inr (Success Out_true), s')" using demo_update_accepted by blast
  from update_authorised [OF r e] have "contracttable (kv s') ''C'' = Some (demo_contract_info\<lparr>ci_current_state_hash := [5]\<rparr>)
     \<and> enclavetable (kv s') = enclavetable (kv demo_state)"
    by (auto simp: demo_ccf_def demo_update_def demo_state_def demo_tables_def)
  with e show ?thesis by blast
qed

text \<open>C5: what is globally committed is permanent, also when versions that are not committed are rolled
  back: in every later store and in every later committed view an enclave keeps its record; a contract
  keeps its id, its code, its creator, its provisioning services and its active flag, and the list of
  its enclaves only grows; the attestation flag and the ledger's key stay as they are. Of a recorded
  state and of the expected measurements only the presence of an entry is permanent: both may be
  written again. The same holds between the store before and after any one request, accepted, refused
  or ended by an exception.\<close>

theorem registrations_permanent:
  assumes "reachable C (s, vs, tr)"
  shows "((tp_step C)\<^sup>*\<^sup>* (s, vs, tr) (s', vs', tr') \<longrightarrow>
        extends (kv_global s) (kv_global s') \<and> extends (kv_global s) (kv s'))
    \<and> (endpoint C is_member rq s = Some (r, t) \<longrightarrow> extends (kv s) (kv t))"
proof (intro conjI impI)
  assume steps: "(tp_step C)\<^sup>*\<^sup>* (s, vs, tr) (s', vs', tr')"
  then show "extends (kv_global s) (kv_global s')"
    using tp.steps_below [OF steps reachable_inv [OF assms]] by (simp add: cfg_below_def)
  moreover have "reachable C (s', vs', tr')" using assms steps unfolding reachable_def by simp
  ultimately show "extends (kv_global s) (kv s')"
    using cfg_inv_store(4) reachable_inv extends_trans by blast
next
  assume e: "endpoint C is_member rq s = Some (r, t)"
  have inv: "tables_ok (kv s)" "verifiers_ok s" using cfg_inv_store(1,2) reachable_inv [OF assms] by blast+
  show "extends (kv s) (kv t)"
  proof (cases "\<exists>x. r = Inr (Success x)")
    case True
    then show ?thesis using accepted_request [OF inv] endpoint_success e unfolding accepted_ok_def by blast
  next
    case False
    then show ?thesis using endpoint_refused [OF e _ inv(2)] by simp
  qed
qed

theorem registrations_permanent_witness:
  "\<exists>s'. endpoint (demo_ccf (demo_update [] [5])) False (Update_contract_state (Some demo_update_in)) demo_state
        = Some (Inr (Success Out_true), s')
     \<and> extends (kv demo_state) (kv s') \<and> extends (kv_global demo_state) (kv s')
     \<and> contract_enclave_check_attestation_flag (kv_global demo_state) PDO_ENCLAVE_CHECK_ATTESTATION_FLAG \<noteq> None"
proof -
  obtain vs where r: "reachable (demo_ccf (demo_update [] [5])) (demo_state, vs, demo_requests)"
    using demo_reachable by blast
  obtain s' where e: "endpoint (demo_ccf (demo_update [] [5])) False (Update_contract_state (Some demo_update_in)) demo_state
      = Some (Inr (Success Out_true), s')" using demo_update_accepted by blast
  have "(tp_step (demo_ccf (demo_update [] [5])))\<^sup>*\<^sup>* (demo_state, vs, demo_requests)
       (s', vs @ [kv s'], demo_requests @ [Update_contract_state (Some demo_update_in)])"
    using accepted [OF e] by blast
  then have "extends (kv_global demo_state) (kv s')" "extends (kv demo_state) (kv s')"
    using registrations_permanent [OF r] e by blast+
  moreover have "contract_enclave_check_attestation_flag (kv_global demo_state) PDO_ENCLAVE_CHECK_ATTESTATION_FLAG \<noteq> None"
    by (simp add: demo_state_def demo_flag_def)
  ultimately show ?thesis using e by blast
qed

text \<open>C11: in every reachable state, in the store and in its globally committed view, each registered
  enclave is stored under its own verifying key, each contract is stored under its own id and is
  active, lists each of its enclaves once, all of them registered, and its current state, when it has
  one, has its entry in the CCL table. The committed view was the store at an earlier point of the
  same run, and the store extends it.\<close>

theorem tables_consistent:
  assumes "reachable C (s, vs, tr)"
  shows "tables_ok (kv s) \<and> tables_ok (kv_global s) \<and> extends (kv_global s) (kv s)
    \<and> (\<exists>s0 vs0 tr0. reachable C (s0, vs0, tr0) \<and> kv s0 = kv_global s
         \<and> (tp_step C)\<^sup>*\<^sup>* (s0, vs0, tr0) (s, vs, tr))"
proof -
  have "was_store C (s, vs, tr) (kv_global s)" using versions_were_store [OF assms] by simp
  then show ?thesis using cfg_inv_store(1,3,4) reachable_inv [OF assms] unfolding was_store_def by auto
qed

theorem tables_consistent_witness:
  "tables_ok (kv demo_state) \<and> kv_global demo_state \<noteq> empty_tables \<and> kv_global demo_state \<noteq> kv demo_state
     \<and> (\<exists>s0 vs0 tr0. reachable (demo_ccf (demo_update [] [5])) (s0, vs0, tr0) \<and> kv s0 = kv_global demo_state)"
proof -
  obtain vs where r: "reachable (demo_ccf (demo_update [] [5])) (demo_state, vs, demo_requests)"
    using demo_reachable by blast
  have "enclavetable (kv demo_state) ''E'' \<noteq> None" "enclavetable (kv_global demo_state) ''E'' = None"
      "contract_enclave_check_attestation_flag (kv_global demo_state) PDO_ENCLAVE_CHECK_ATTESTATION_FLAG \<noteq> None"
      "contract_enclave_check_attestation_flag empty_tables PDO_ENCLAVE_CHECK_ATTESTATION_FLAG = None"
    by (simp_all add: demo_state_def empty_tables_def demo_flag_def demo_tables_def)
  then have "kv_global demo_state \<noteq> empty_tables \<and> kv_global demo_state \<noteq> kv demo_state" by metis
  then show ?thesis using tables_consistent [OF r] by blast
qed

text \<open>C6: while attestation checking is on in the committed view, an enclave is registered only with
  evidence: a report signed by the attestation service under the configured key, for the enclave's
  persistent id, with one of the four accepted quote statuses and a nonce equal to the registration
  context; and in it a quote long enough to hold the report body, with the expected measurement and
  basename, report data that bind the enclave's two keys and its host's key, the 64-bit flag set, and
  the debug flag as the policy has it.\<close>

theorem registered_enclave_attested:
  assumes "endpoint C is_member (Register_enclave params) s = Some (Inr (Success x), s')"
    and "contract_enclave_check_attestation_flag (kv_global s) PDO_ENCLAVE_CHECK_ATTESTATION_FLAG = Some flag"
    and "check_attestation flag"
  shows "\<exists>inp expected pd report raw. params = Some inp
      \<and> contract_enclave_expected_sgx_measurements (kv_global s) PDO_ENCLAVE_EXPECTED_SGX_MEASUREMENTS = Some expected
      \<and> parse_ProofData C (re_proof_data inp) = Some pd
      \<and> verify_ias_signature C (pd_signature pd) (ias_public_key expected) (pd_verification_report pd) = Inr True
      \<and> parse_VerificationReport C (pd_verification_report pd) = Some report
      \<and> vr_epidPseudonym report = re_enclave_persistent_id inp
      \<and> map toupper (vr_isvEnclaveQuoteStatus report) \<in>
          {''OK'', ''GROUP_OUT_OF_DATE'', ''SW_HARDENING_NEEDED'', ''CONFIGURATION_AND_SW_HARDENING_NEEDED''}
      \<and> raw_from_b64 C (vr_isvEnclaveQuoteBody report) = Inr raw \<and> 432 \<le> length raw
      \<and> map toupper (to_hex C (quote_mr_enclave (quote_of C raw))) = mrenclave expected
      \<and> map toupper (to_hex C (quote_basename (quote_of C raw))) = basename expected
      \<and> vr_nonce report = re_registration_block_context inp
      \<and> quote_report_data (quote_of C raw) = expected_report_data C inp
      \<and> bit (quote_flags (quote_of C raw)) 2 \<and> bit (quote_flags (quote_of C raw)) 1 = sgx_debug_flag expected"
proof -
  from endpoint_success [OF assms(1)] have run: "register_enclave C params s = Some (Inr (Success x), s')" by simp
  then obtain inp where p: "params = Some inp"
    by (cases params) (simp_all add: register_enclave_def handler_run)
  from register_enclave_success [OF run [unfolded p]] assms(2,3) obtain expected where
    e: "contract_enclave_expected_sgx_measurements (kv_global s) PDO_ENCLAVE_EXPECTED_SGX_MEASUREMENTS = Some expected"
    and ev: "check_attestation_evidence C expected inp = Inr None" by auto
  from ev obtain pd report raw where r: "parse_ProofData C (re_proof_data inp) = Some pd"
      "verify_ias_signature C (pd_signature pd) (ias_public_key expected) (pd_verification_report pd) = Inr True"
      "parse_VerificationReport C (pd_verification_report pd) = Some report"
      "raw_from_b64 C (vr_isvEnclaveQuoteBody report) = Inr raw"
      "check_verification_report C expected inp report raw = Inr None"
    by (auto simp: check_attestation_evidence_def split: if_splits option.splits sum.splits bool.splits)
  from r(5) have v: "vr_epidPseudonym report = re_enclave_persistent_id inp"
      "map toupper (vr_isvEnclaveQuoteStatus report) \<in>
          {''OK'', ''GROUP_OUT_OF_DATE'', ''SW_HARDENING_NEEDED'', ''CONFIGURATION_AND_SW_HARDENING_NEEDED''}"
      "432 \<le> length raw" and q: "check_quote C expected inp report (quote_of C raw) = None"
    by (auto simp: check_verification_report_def quote_status_ok_def report_body_end_def split: if_splits)
  from q have w: "map toupper (to_hex C (quote_mr_enclave (quote_of C raw))) = mrenclave expected
      \<and> map toupper (to_hex C (quote_basename (quote_of C raw))) = basename expected
      \<and> vr_nonce report = re_registration_block_context inp
      \<and> quote_report_data (quote_of C raw) = expected_report_data C inp
      \<and> bit (quote_flags (quote_of C raw)) 2 \<and> bit (quote_flags (quote_of C raw)) 1 = sgx_debug_flag expected"
    by (auto simp: check_quote_def split: if_splits)
  show ?thesis
    using e r(1-4) p v w
    by (intro exI [of _ inp] exI [of _ expected] exI [of _ pd] exI [of _ report] exI [of _ raw] conjI) (simp_all only:)
qed

definition attested_report :: VerificationReport where
  "attested_report = \<lparr>vr_epidPseudonym = [], vr_id = [], vr_isvEnclaveQuoteStatus = ''OK'', vr_isvEnclaveQuoteBody = [],
     vr_version = 3, vr_nonce = [], vr_timestamp = []\<rparr>"

definition attested_quote :: sgx_quote where
  "attested_quote = \<lparr>quote_basename = [], quote_mr_enclave = [171], quote_report_data = replicate 64 0, quote_flags = 4\<rparr>"

definition attested_ccf :: ccf where
  "attested_ccf = (demo_ccf (demo_update [] []))\<lparr>ccf_sha256 := (\<lambda>_. []), raw_from_b64 := (\<lambda>_. Inr (replicate 432 0)),
     parse_ProofData := (\<lambda>_. Some \<lparr>pd_certificates = [], pd_verification_report = [], pd_signature = []\<rparr>),
     parse_VerificationReport := (\<lambda>_. Some attested_report), quote_of := (\<lambda>_. attested_quote)\<rparr>"

definition attesting_policy :: ContractEnclaveExpectedSGXMeasurements where
  "attesting_policy = \<lparr>mrenclave = ''AB'', basename = [], ias_public_key = [], sgx_debug_flag = False\<rparr>"

definition attesting_state :: tp_state where
  "attesting_state = initial_tp_state\<lparr>kv_global := empty_tables
     \<lparr>contract_enclave_check_attestation_flag := [PDO_ENCLAVE_CHECK_ATTESTATION_FLAG \<mapsto> \<lparr>check_attestation = True\<rparr>],
      contract_enclave_expected_sgx_measurements := [PDO_ENCLAVE_EXPECTED_SGX_MEASUREMENTS \<mapsto> attesting_policy]\<rparr>\<rparr>"

lemma attested_report_ok:
  "check_verification_report attested_ccf attesting_policy (demo_enclave\<lparr>re_proof_data := ''p''\<rparr>) attested_report
     (replicate 432 0) = Inr None"
proof -
  have "map toupper (BinaryToHexString [171]) = ''AB''" "map toupper ''OK'' = ''OK''" "map toupper [] = []" by code_simp+
  then show ?thesis
    by (simp add: check_verification_report_def check_quote_def report_body_end_def attested_ccf_def demo_ccf_def
        demo_enclave_def quote_status_ok_def attested_report_def attested_quote_def attesting_policy_def
        expected_report_data_def resize_def bit_0 BinaryToHexString_def)
qed

lemma attested_accepted:
  "\<exists>s'. endpoint attested_ccf False (Register_enclave (Some (demo_enclave\<lparr>re_proof_data := ''p''\<rparr>))) attesting_state
     = Some (Inr (Success Out_true), s')"
  using attested_report_ok
  by (simp add: endpoint_def register_enclave_def store_enclave_def handler_run check_attestation_evidence_def
      attesting_state_def empty_tables_def initial_tp_state_def attested_ccf_def demo_ccf_def demo_enclave_def
      verify_ias_signature_def verify_rsa_sig_def verify_sig_def verify_pdo_transaction_signature_register_enclave_def)

theorem registered_enclave_attested_witness:
  "\<exists>s' raw. endpoint attested_ccf False (Register_enclave (Some (demo_enclave\<lparr>re_proof_data := ''p''\<rparr>))) attesting_state
       = Some (Inr (Success Out_true), s')
     \<and> map toupper (to_hex attested_ccf (quote_mr_enclave (quote_of attested_ccf raw))) = ''AB''
     \<and> quote_report_data (quote_of attested_ccf raw)
         = expected_report_data attested_ccf (demo_enclave\<lparr>re_proof_data := ''p''\<rparr>)"
proof -
  have flag: "contract_enclave_check_attestation_flag (kv_global attesting_state) PDO_ENCLAVE_CHECK_ATTESTATION_FLAG
      = Some \<lparr>check_attestation = True\<rparr>"
    and pol: "contract_enclave_expected_sgx_measurements (kv_global attesting_state) PDO_ENCLAVE_EXPECTED_SGX_MEASUREMENTS
      = Some attesting_policy" "mrenclave attesting_policy = ''AB''"
    by (simp_all add: attesting_state_def attesting_policy_def)
  obtain s' where e: "endpoint attested_ccf False (Register_enclave (Some (demo_enclave\<lparr>re_proof_data := ''p''\<rparr>))) attesting_state
     = Some (Inr (Success Out_true), s')" using attested_accepted by blast
  have on: "check_attestation \<lparr>check_attestation = True\<rparr>" by simp
  from registered_enclave_attested [OF e flag on] obtain inp expected raw where
    "Some (demo_enclave\<lparr>re_proof_data := ''p''\<rparr>) = Some inp"
    "contract_enclave_expected_sgx_measurements (kv_global attesting_state) PDO_ENCLAVE_EXPECTED_SGX_MEASUREMENTS = Some expected"
    "map toupper (to_hex attested_ccf (quote_mr_enclave (quote_of attested_ccf raw))) = mrenclave expected"
    "quote_report_data (quote_of attested_ccf raw) = expected_report_data attested_ccf inp"
    by blast
  with e pol show ?thesis by (metis option.inject)
qed

section \<open>Exceptions, and where the code differs from its comments\<close>

lemma update_throws:
  assumes "update_contract_state C (Some inp) s = Some (Inl e, s')"
  shows "\<exists>cid ci. contracttable (kv s) cid = Some ci \<and> is_enclave_in_contract (uc_contract_enclave_id inp) ci
    \<and> (case enclavetable (kv s) (uc_contract_enclave_id inp) of
          None \<Rightarrow> e = RuntimeError ''bad optional access''
        | Some info \<Rightarrow> enclave_pubk_verifier s (ei_verifying_key info) = None \<and> e = Undefined ''null public key'')"
  using assms
  by (auto simp: update_contract_state_def handler_run verifier_of_def
      verify_enclave_signature_update_contract_state_def verify_sig_static_def
      split: if_splits option.splits sum.splits)

text \<open>C17: in a reachable state an update does not end normally in two cases only: its parameters
  cannot be read, and the exception of the JSON library leaves the handler; or the node has no verifier
  for the enclave in its cache, and uses a null public key. The lookup of a registered enclave never
  fails with an exception, and in both cases the store is unchanged.\<close>

theorem update_exceptions:
  assumes "reachable C (s, vs, tr)"
    and "endpoint C is_member (Update_contract_state params) s = Some (Inl e, s')"
  shows "kv s' = kv s \<and> (case params of
      None \<Rightarrow> e = StdException ''parameters do not have the fields of the input type''
    | Some inp \<Rightarrow> e = Undefined ''null public key'' \<and> enclave_pubk_verifier s (uc_contract_enclave_id inp) = None)"
proof -
  have inv: "tables_ok (kv s)" "verifiers_ok s" using cfg_inv_store(1,2) reachable_inv [OF assms(1)] by blast+
  have kv: "kv s' = kv s" using endpoint_refused [OF assms(2) _ inv(2)] by simp
  have member: "is_enclave_in_contract eid ci \<Longrightarrow> \<exists>info. enclavetable (kv s) eid = Some info"
    if "contracttable (kv s) cid = Some ci" for cid ci eid
    using that inv(1) by (auto simp: tables_ok_def contract_ok_def is_enclave_in_contract_def list_ex_iff)
  have key: "ei_verifying_key info = eid" if "enclavetable (kv s) eid = Some info" for eid info
    using that inv(1) by (simp add: tables_ok_def)
  obtain s0 where run: "update_contract_state C params s = Some (Inl e, s0)"
    using assms(2) by (auto simp: endpoint_def split: option.splits sum.splits response.splits)
  show ?thesis
  proof (cases params)
    case None
    then show ?thesis using run kv by (simp add: update_contract_state_def handler_run)
  next
    case (Some inp)
    from update_throws [OF run [unfolded Some]] show ?thesis
      using member key kv Some by (fastforce split: option.splits)
  qed
qed

text \<open>
  The cache of verifiers is filled when an enclave is registered, by the node that serves that
  request, and it is not rebuilt from the store.
\<close>

lemma update_without_verifier:
  "endpoint (demo_ccf (demo_update [] [5])) False (Update_contract_state (Some demo_update_in))
     (demo_state\<lparr>enclave_pubk_verifier := (\<lambda>_. None), ledger_signer_local := None\<rparr>)
   = Some (Inl (Undefined ''null public key''), demo_state\<lparr>enclave_pubk_verifier := (\<lambda>_. None), ledger_signer_local := None\<rparr>)"
  by (simp add: endpoint_def update_contract_state_def handler_run demo_defs demo_update_def demo_update_in_def
      is_enclave_in_contract_def verifier_of_def verify_enclave_signature_update_contract_state_def verify_sig_static_def)

lemma demo_other_node:
  "\<exists>vs. reachable (demo_ccf u) (demo_state\<lparr>enclave_pubk_verifier := (\<lambda>_. None), ledger_signer_local := None\<rparr>, vs, demo_requests)"
proof -
  obtain vs where r: "reachable (demo_ccf u) (demo_state, vs, demo_requests)" using demo_reachable by blast
  have "tp_step (demo_ccf u) (demo_state, vs, demo_requests)
      (demo_state\<lparr>enclave_pubk_verifier := (\<lambda>_. None), ledger_signer_local := None\<rparr>, vs, demo_requests)"
    by (rule other_node) simp
  with reachable_step [OF r] show ?thesis by blast
qed

theorem update_exceptions_witness:
  "\<exists>s. endpoint (demo_ccf (demo_update [] [5])) False (Update_contract_state (Some demo_update_in)) s
       = Some (Inl (Undefined ''null public key''), s) \<and> enclave_pubk_verifier s ''E'' = None
     \<and> endpoint (demo_ccf (demo_update [] [5])) False (Update_contract_state None) s
       = Some (Inl (StdException ''parameters do not have the fields of the input type''), s)"
proof -
  let ?s = "demo_state\<lparr>enclave_pubk_verifier := (\<lambda>_. None), ledger_signer_local := None\<rparr>"
  obtain vs where r: "reachable (demo_ccf (demo_update [] [5])) (?s, vs, demo_requests)"
    using demo_other_node by blast
  have "endpoint (demo_ccf (demo_update [] [5])) False (Update_contract_state None) ?s
      = Some (Inl (StdException ''parameters do not have the fields of the input type''), ?s)"
    by (simp add: endpoint_def update_contract_state_def handler_run)
  moreover have "enclave_pubk_verifier ?s ''E'' = None"
    using update_exceptions [OF r update_without_verifier] by (simp add: demo_update_in_def)
  ultimately show ?thesis using update_without_verifier by blast
qed

text \<open>C33: there is a reachable state in which a valid update from a registered enclave that is part of
  the contract makes the node use a null public key: the enclave was registered through another
  node, or before a restart.\<close>

theorem verifier_missing_on_other_node:
  "\<exists>C s vs tr inp info. reachable C (s, vs, tr) \<and> enclavetable (kv s) (uc_contract_enclave_id inp) = Some info
     \<and> endpoint C False (Update_contract_state (Some inp)) s = Some (Inl (Undefined ''null public key''), s)"
proof -
  obtain vs where r: "reachable (demo_ccf (demo_update [] [5]))
      (demo_state\<lparr>enclave_pubk_verifier := (\<lambda>_. None), ledger_signer_local := None\<rparr>, vs, demo_requests)"
    using demo_other_node by blast
  have "enclavetable (kv (demo_state\<lparr>enclave_pubk_verifier := (\<lambda>_. None), ledger_signer_local := None\<rparr>))
      (uc_contract_enclave_id demo_update_in) = Some (new_enclave demo_enclave)"
    by (simp add: demo_state_def demo_tables_def demo_update_in_def)
  with r update_without_verifier show ?thesis by blast
qed

text \<open>C34: a contract can get a state without ever being initialized: before the initialization its
  current state is the empty hash, and an update that starts from the empty hash is accepted, without
  the creator's signature that the initialization requires.\<close>

theorem update_before_initialize:
  "\<exists>C s vs tr cid. reachable C (s, vs, tr) \<and> current_state (kv s) cid \<noteq> []
     \<and> (\<forall>inp. Initialize_contract_state inp \<notin> set tr)"
proof -
  let ?C = "demo_ccf (demo_update [] [5])"
  obtain vs where r: "reachable ?C (demo_state, vs, demo_requests)" using demo_reachable by blast
  obtain s' where e: "endpoint ?C False (Update_contract_state (Some demo_update_in)) demo_state
      = Some (Inr (Success Out_true), s')" using demo_update_accepted by blast
  note r' = reachable_step [OF r accepted [OF e]]
  have "chain [] (transitions ?C ''C'' (demo_requests @ [Update_contract_state (Some demo_update_in)])) (current_state (kv s') ''C'')"
    using cfg_inv_store(5) reachable_inv [OF r'] by blast
  then have "current_state (kv s') ''C'' = [5]"
    by (simp add: transitions_def map_filter_def demo_requests_def demo_ccf_def demo_update_def)
  moreover have "\<forall>inp. Initialize_contract_state inp \<notin> set (demo_requests @ [Update_contract_state (Some demo_update_in)])"
    by (simp add: demo_requests_def)
  ultimately show ?thesis using r' by (metis list.distinct(1))
qed

text \<open>C36: two different state hashes of the usual length have the same key in the CCL table, so the
  check of a dependency passes for a state that was never recorded when the other one was.\<close>

theorem ccl_key_collision:
  "\<exists>h h'. length h = 32 \<and> length h' = 32 \<and> h \<noteq> h' \<and> ccl_key cid h = ccl_key cid h'"
proof (intro exI conjI)
  let ?h = "1 # 11 # replicate 30 0 :: bytes" and ?h' = "11 # 1 # replicate 30 0 :: bytes"
  show "length ?h = 32" "length ?h' = 32" "?h \<noteq> ?h'" by simp_all
  show "ccl_key cid ?h = ccl_key cid ?h'"
    by (simp add: ccl_key_def vector_to_string_def to_string.simps [of "Suc 0"] to_string.simps [of 11])
qed

text \<open>
  The signature covers a second hash that each dependency carries, and the handler never compares it
  with the hash it looks up.
\<close>

definition with_dependency_hashes :: "(ContractStateDependecy \<Rightarrow> bytes) \<Rightarrow> StateUpdateInfo \<Rightarrow> StateUpdateInfo" where
  "with_dependency_hashes f u =
     u\<lparr>sui_dependency_list := map (\<lambda>d. d\<lparr>dep_state_hash := f d\<rparr>) (sui_dependency_list u)\<rparr>"

lemma forged_contents:
  "verify_enclave_signature_update_contract_state C nonce code (with_dependency_hashes f u) sig key
     = verify_enclave_signature_update_contract_state C nonce code u sig key"
  by (simp add: verify_enclave_signature_update_contract_state_def update_contents_def with_dependency_hashes_def comp_def)

text \<open>C35: the dependencies of an update can be forged without the enclave's key. From an update that
  the ledger would accept, anyone can make one in which each dependency names another recorded state
  of the same contract: with the enclave's nonce and signature unchanged the handler accepts it, and
  records the forged dependencies for the new state.\<close>

theorem dependency_hash_not_signed:
  assumes "endpoint C is_member (Update_contract_state (Some inp)) s = Some (Inr (Success x), s')"
    and "parse_StateUpdateInfo C (uc_state_update_info inp) = Some u"
    and "parse_StateUpdateInfo C forged = Some (with_dependency_hashes f u)"
    and "\<forall>d\<in>set (sui_dependency_list u). ccltable (kv s) (ccl_key (dep_contract_id d) (f d)) \<noteq> None"
  shows "\<exists>t csi. endpoint C is_member (Update_contract_state (Some (inp\<lparr>uc_state_update_info := forged\<rparr>))) s
        = Some (Inr (Success Out_true), t)
    \<and> ccltable (kv t) (ccl_key (sui_contract_id u) (sui_current_state_hash u)) = Some csi
    \<and> csi_dependency_list csi = map (\<lambda>d. d\<lparr>dep_state_hash := f d\<rparr>) (sui_dependency_list u)"
proof -
  have run: "update_contract_state C (Some inp) s = Some (Inr (Success x), s')"
    using endpoint_success [OF assms(1)] by simp
  obtain ci info where upd: "contracttable (kv s) (sui_contract_id u) = Some ci"
      "enclavetable (kv s) (uc_contract_enclave_id inp) = Some info"
      "ci_is_active ci" "is_enclave_in_contract (uc_contract_enclave_id inp) ci"
      "sui_previous_state_hash u = ci_current_state_hash ci" "sui_current_state_hash u \<noteq> ci_current_state_hash ci"
      "verify_enclave_signature_update_contract_state C (uc_nonce inp) (ci_contract_code_hash ci) u
         (uc_contract_enclave_signature inp) (enclave_pubk_verifier s (ei_verifying_key info)) = Inr True"
    using update_success [OF run] assms(2) by auto
  have known: "\<not> list_ex (\<lambda>d. ccltable (kv s) (ccl_key (dep_contract_id d) (dep_state_hash d)) = None)
      (sui_dependency_list (with_dependency_hashes f u))"
    using assms(4) by (simp add: list_ex_iff with_dependency_hashes_def)
  have same: "sui_contract_id (with_dependency_hashes f u) = sui_contract_id u"
      "sui_previous_state_hash (with_dependency_hashes f u) = sui_previous_state_hash u"
      "sui_current_state_hash (with_dependency_hashes f u) = sui_current_state_hash u"
      "sui_dependency_list (with_dependency_hashes f u) = map (\<lambda>d. d\<lparr>dep_state_hash := f d\<rparr>) (sui_dependency_list u)"
    by (simp_all add: with_dependency_hashes_def)
  show ?thesis
    using upd known
    by (simp add: endpoint_def update_contract_state_def handler_run verifier_of_def assms(3) same forged_contents)
qed

definition depending_update :: "bytes \<Rightarrow> StateUpdateInfo" where
  "depending_update h = (demo_update [] [5])\<lparr>sui_dependency_list :=
     [\<lparr>dep_contract_id = ''D'', dep_state_hash = h, dep_state_hash_for_sign = ''h''\<rparr>]\<rparr>"

definition depending_ccf :: ccf where
  "depending_ccf = (demo_ccf (demo_update [] []))\<lparr>parse_StateUpdateInfo :=
     (\<lambda>s. Some (depending_update (if s = ''forged'' then [2] else [1])))\<rparr>"

definition depending_state :: tp_state where
  "depending_state = demo_state\<lparr>kv := demo_tables\<lparr>ccltable :=
     (\<lambda>k. if k = ccl_key ''D'' [1] \<or> k = ccl_key ''D'' [2]
          then Some \<lparr>csi_transaction_id = [], csi_previous_state_hash = [], csi_message_hash = [], csi_dependency_list = []\<rparr>
          else None)\<rparr>\<rparr>"

lemma depending_accepted:
  "\<exists>s'. endpoint depending_ccf False (Update_contract_state (Some demo_update_in)) depending_state
     = Some (Inr (Success Out_true), s')"
  by (simp add: endpoint_def update_contract_state_def handler_run depending_ccf_def depending_state_def
      depending_update_def demo_defs demo_update_def demo_update_in_def is_enclave_in_contract_def verifier_of_def
      verify_enclave_signature_update_contract_state_def verify_sig_static_def)

theorem dependency_hash_not_signed_witness:
  "\<exists>t csi. endpoint depending_ccf False
         (Update_contract_state (Some (demo_update_in\<lparr>uc_state_update_info := ''forged''\<rparr>))) depending_state
       = Some (Inr (Success Out_true), t)
     \<and> ccltable (kv t) (ccl_key ''C'' [5]) = Some csi \<and> map dep_state_hash (csi_dependency_list csi) = [[2]]"
proof -
  obtain s' where e: "endpoint depending_ccf False (Update_contract_state (Some demo_update_in)) depending_state
     = Some (Inr (Success Out_true), s')" using depending_accepted by blast
  have "parse_StateUpdateInfo depending_ccf (uc_state_update_info demo_update_in) = Some (depending_update [1])"
      "parse_StateUpdateInfo depending_ccf ''forged'' = Some (with_dependency_hashes (\<lambda>_. [2]) (depending_update [1]))"
      "\<forall>d\<in>set (sui_dependency_list (depending_update [1])).
         ccltable (kv depending_state) (ccl_key (dep_contract_id d) [2]) \<noteq> None"
    by (simp_all add: depending_ccf_def demo_update_in_def with_dependency_hashes_def depending_update_def depending_state_def)
  from dependency_hash_not_signed [OF e this] show ?thesis
    by (auto simp: depending_update_def demo_update_def)
qed

text \<open>C37: when attestation checking is on and the expected measurements are not set, the registration
  of a new enclave ends with an exception and not with the error message for that case.\<close>

theorem missing_measurements_throw:
  assumes "contract_enclave_check_attestation_flag (kv_global s) PDO_ENCLAVE_CHECK_ATTESTATION_FLAG = Some flag"
    and "check_attestation flag"
    and "contract_enclave_expected_sgx_measurements (kv_global s) PDO_ENCLAVE_EXPECTED_SGX_MEASUREMENTS = None"
    and "enclavetable (kv s) (re_verifying_key inp) = None"
  shows "endpoint C is_member (Register_enclave (Some inp)) s = Some (Inl (RuntimeError ''bad optional access''), s)"
  using assms by (simp add: endpoint_def register_enclave_def handler_run)

theorem missing_measurements_throw_witness:
  "\<exists>s. endpoint attested_ccf False (Register_enclave (Some demo_enclave)) s = Some (Inl (RuntimeError ''bad optional access''), s)"
proof -
  let ?s = "attesting_state\<lparr>kv_global := (kv_global attesting_state)\<lparr>contract_enclave_expected_sgx_measurements := Map.empty\<rparr>\<rparr>"
  have "endpoint attested_ccf False (Register_enclave (Some demo_enclave)) ?s = Some (Inl (RuntimeError ''bad optional access''), ?s)"
    by (rule missing_measurements_throw [of _ "\<lparr>check_attestation = True\<rparr>"])
      (simp_all add: attesting_state_def initial_tp_state_def empty_tables_def)
  then show ?thesis by blast
qed

end
